(* ===== verification/Prelude.thy ===== *)
theory Prelude
  imports Main "HOL-Library.Char_ord" "HOL-Library.List_Lexorder"
begin

text \<open>
  What every component of the model shares: faults (the C++ exceptions and undefined
  behaviours the code can run into), operations that thread a state and may raise a fault,
  the parts of \<^verbatim>\<open>std::string\<close> and of \<^verbatim>\<open>boost::algorithm::string\<close> the code calls
  (searching, cutting, splitting, joining, decimal conversion), and \<^verbatim>\<open>std::map\<close> as a list
  sorted by key.
\<close>

section \<open>Hint collections\<close>

named_theorems op_simps "unfolding the sequencing of operations"
named_theorems str_simps "searching and cutting strings"

section \<open>Faults and operations\<close>

text \<open>
  \<open>NoReturn\<close> is the value of a call that never returns, \<open>OutOfMemory\<close> of one that
  allocates until the allocator throws, \<open>UndefinedBehaviour\<close> of an access out of the bounds
  of a vector or through an empty optional; the others are the C++ exceptions of that name.
\<close>

datatype fault =
    OutOfRange | InvalidArgument | OutOfMemory | UndefinedBehaviour
  | NoReturn | Failure string

type_synonym 'a res = "fault + 'a"

definition bindR :: "'a res \<Rightarrow> ('a \<Rightarrow> 'b res) \<Rightarrow> 'b res" where
  "bindR r f = (case r of Inl e \<Rightarrow> Inl e | Inr a \<Rightarrow> f a)"

lemma bindR_simps [simp]:
  "bindR (Inl e) f = Inl e" "bindR (Inr a) f = f a"
  by (simp_all add: bindR_def)

lemma bindR_Inr_iff: "bindR r f = Inr b \<longleftrightarrow> (\<exists>a. r = Inr a \<and> f a = Inr b)"
  by (cases r) simp_all

lemma bindR_Inl_iff: "bindR r f = Inl e \<longleftrightarrow> r = Inl e \<or> (\<exists>a. r = Inr a \<and> f a = Inl e)"
  by (cases r) simp_all

text \<open>An operation on a state keeps the state it has reached when it raises a fault.\<close>

type_synonym ('s, 'a) opn = "'s \<Rightarrow> 'a res \<times> 's"

definition ret :: "'a \<Rightarrow> ('s, 'a) opn" where
  "ret a s = (Inr a, s)"

definition raise :: "fault \<Rightarrow> ('s, 'a) opn" where
  "raise e s = (Inl e, s)"

definition lift_res :: "'a res \<Rightarrow> ('s, 'a) opn" where
  "lift_res r s = (r, s)"

definition gets :: "('s \<Rightarrow> 'a) \<Rightarrow> ('s, 'a) opn" where
  "gets f s = (Inr (f s), s)"

definition asks :: "('s \<Rightarrow> 'a res) \<Rightarrow> ('s, 'a) opn" where
  "asks f s = (f s, s)"

definition modify :: "('s \<Rightarrow> 's) \<Rightarrow> ('s, unit) opn" where
  "modify f s = (Inr (), f s)"

definition bindM :: "('s, 'a) opn \<Rightarrow> ('a \<Rightarrow> ('s, 'b) opn) \<Rightarrow> ('s, 'b) opn" where
  "bindM m f s = (case m s of (Inl e, t) \<Rightarrow> (Inl e, t) | (Inr a, t) \<Rightarrow> f a t)"

definition seqM :: "('s, unit) opn \<Rightarrow> ('s, 'b) opn \<Rightarrow> ('s, 'b) opn" where
  "seqM m n = bindM m (\<lambda>_. n)"

fun for_each :: "'a list \<Rightarrow> ('a \<Rightarrow> ('s, unit) opn) \<Rightarrow> ('s, unit) opn" where
  "for_each [] body = ret ()"
| "for_each (x # xs) body = seqM (body x) (for_each xs body)"

fun map_each :: "'a list \<Rightarrow> ('a \<Rightarrow> ('s, 'b) opn) \<Rightarrow> ('s, 'b list) opn" where
  "map_each [] body = ret []"
| "map_each (x # xs) body =
     bindM (body x) (\<lambda>b. bindM (map_each xs body) (\<lambda>bs. ret (b # bs)))"

definition only_if :: "bool \<Rightarrow> ('s, unit) opn \<Rightarrow> ('s, unit) opn" where
  "only_if b m = (if b then m else ret ())"

text \<open>
  \<^verbatim>\<open>try { m } catch (...) { log }\<close>: the state reached is kept, the exception is dropped. A call
  that never returns is not caught, and after undefined behaviour nothing is promised.
\<close>

definition catchable :: "fault \<Rightarrow> bool" where
  "catchable e \<longleftrightarrow> e \<noteq> NoReturn \<and> e \<noteq> UndefinedBehaviour"

definition try_log :: "('s, unit) opn \<Rightarrow> ('s, unit) opn" where
  "try_log m s =
     (case m s of (Inl e, t) \<Rightarrow> ((if catchable e then Inr () else Inl e), t) | (Inr u, t) \<Rightarrow> (Inr u, t))"

lemma snd_try_log [simp]: "snd (try_log m s) = snd (m s)"
  by (simp add: try_log_def split: prod.split sum.split)

lemma ret_apply [op_simps]: "ret a s = (Inr a, s)" by (simp add: ret_def)
lemma raise_apply [op_simps]: "raise e s = (Inl e, s)" by (simp add: raise_def)
lemma lift_res_apply [op_simps]: "lift_res r s = (r, s)" by (simp add: lift_res_def)
lemma gets_apply [op_simps]: "gets f s = (Inr (f s), s)" by (simp add: gets_def)
lemma asks_apply [op_simps]: "asks f s = (f s, s)" by (simp add: asks_def)
lemma modify_apply [op_simps]: "modify f s = (Inr (), f s)" by (simp add: modify_def)

lemma bindM_ret [simp]: "bindM (ret a) f = f a"
  by (simp add: bindM_def fun_eq_iff op_simps)

lemma bindM_gets [op_simps]: "bindM (gets g) f s = f (g s) s"
  by (simp add: bindM_def gets_def)

lemma bindM_modify [op_simps]: "bindM (modify g) f s = f () (g s)"
  by (simp add: bindM_def modify_def)

lemma seqM_modify [op_simps]: "seqM (modify g) n s = n (g s)"
  by (simp add: seqM_def bindM_def modify_def)

lemma bindM_assoc: "bindM (bindM m f) g = bindM m (\<lambda>a. bindM (f a) g)"
  by (auto simp: bindM_def fun_eq_iff split: prod.splits sum.splits)

lemma bindM_eq_Inr:
  "bindM m f s = (Inr b, u) \<longleftrightarrow> (\<exists>a t. m s = (Inr a, t) \<and> f a t = (Inr b, u))"
  by (auto simp: bindM_def split: prod.splits sum.splits)

lemma seqM_eq_Inr:
  "seqM m n s = (Inr b, u) \<longleftrightarrow> (\<exists>t. m s = (Inr (), t) \<and> n t = (Inr b, u))"
  by (simp add: seqM_def bindM_eq_Inr)

lemma for_each_append: "for_each (xs @ ys) body = seqM (for_each xs body) (for_each ys body)"
  by (induction xs) (simp_all add: seqM_def bindM_assoc)

text \<open>A property of states that every iteration keeps is kept by the loop, faults included.\<close>

definition keeps :: "('s \<Rightarrow> bool) \<Rightarrow> ('s, 'a) opn \<Rightarrow> bool" where
  "keeps I m \<longleftrightarrow> (\<forall>s. I s \<longrightarrow> I (snd (m s)))"

lemma keepsD: "keeps I m \<Longrightarrow> I s \<Longrightarrow> I (snd (m s))"
  by (simp add: keeps_def op_simps)

lemma keeps_ret [intro]: "keeps I (ret a)" by (simp add: keeps_def op_simps)
lemma keeps_raise [intro]: "keeps I (raise e)" by (simp add: keeps_def op_simps)
lemma keeps_lift_res [intro]: "keeps I (lift_res r)" by (simp add: keeps_def op_simps)
lemma keeps_gets [intro]: "keeps I (gets f)" by (simp add: keeps_def op_simps)

lemma keeps_asks [intro]: "keeps I (asks f)" by (simp add: keeps_def op_simps)

lemma keeps_modify: "(\<And>s. I s \<Longrightarrow> I (f s)) \<Longrightarrow> keeps I (modify f)"
  by (simp add: keeps_def op_simps)

lemma keeps_bindM [intro]: "keeps I m \<Longrightarrow> (\<And>a. keeps I (f a)) \<Longrightarrow> keeps I (bindM m f)"
  by (fastforce simp: keeps_def bindM_def split: prod.splits sum.splits)

lemma keeps_seqM [intro]: "keeps I m \<Longrightarrow> keeps I n \<Longrightarrow> keeps I (seqM m n)"
  by (auto simp: seqM_def)

lemma keeps_for_each: "(\<And>x. x \<in> set xs \<Longrightarrow> keeps I (body x)) \<Longrightarrow> keeps I (for_each xs body)"
  by (induction xs) auto

lemma keeps_map_each: "(\<And>x. x \<in> set xs \<Longrightarrow> keeps I (body x)) \<Longrightarrow> keeps I (map_each xs body)"
  by (induction xs) auto

lemma keeps_only_if [intro]: "keeps I m \<Longrightarrow> keeps I (only_if b m)"
  by (simp add: only_if_def keeps_ret)

lemma keeps_try_log [intro]: "keeps I m \<Longrightarrow> keeps I (try_log m)"
  by (simp add: keeps_def)

section \<open>Polling loops\<close>

text \<open>
  \<^verbatim>\<open>while (true) { if (verdict) return it; sleep; }\<close>. A loop whose verdict never comes does not
  return: the value is \<open>None\<close>.
\<close>

partial_function (option) poll :: "('w \<Rightarrow> 'r option) \<Rightarrow> ('w \<Rightarrow> 'w) \<Rightarrow> 'w \<Rightarrow> ('r \<times> 'w) option" where
  "poll verdict wait w = (case verdict w of Some r \<Rightarrow> Some (r, w) | None \<Rightarrow> poll verdict wait (wait w))"

lemma poll_after:
  assumes "verdict ((wait ^^ n) w) = Some r" and "\<And>m. m < n \<Longrightarrow> verdict ((wait ^^ m) w) = None"
  shows "poll verdict wait w = Some (r, (wait ^^ n) w)"
  using assms
proof (induction n arbitrary: w)
  case 0
  then show ?case by (subst poll.simps) simp
next
  case (Suc n)
  have "verdict w = None" using Suc.prems(2) [of 0] by simp
  moreover have "poll verdict wait (wait w) = Some (r, (wait ^^ n) (wait w))"
  proof (rule Suc.IH)
    show "verdict ((wait ^^ n) (wait w)) = Some r" using Suc.prems(1) by (simp add: funpow_swap1)
    show "verdict ((wait ^^ m) (wait w)) = None" if "m < n" for m
      using Suc.prems(2) [of "Suc m"] that by (simp add: funpow_swap1)
  qed
  ultimately show ?case by (subst poll.simps) (simp add: funpow_swap1)
qed

lemma funpow_Suc_front: "(f ^^ Suc n) x = (f ^^ n) (f x)"
  by (simp add: funpow_swap1)

lemma poll_returns:
  assumes "poll verdict wait w = Some res"
  shows "\<exists>n. snd res = (wait ^^ n) w \<and> verdict (snd res) = Some (fst res) \<and>
    (\<forall>m<n. verdict ((wait ^^ m) w) = None)"
proof (rule poll.raw_induct [where P = "\<lambda>verdict wait w res. \<exists>n. snd res = (wait ^^ n) w \<and>
    verdict (snd res) = Some (fst res) \<and> (\<forall>m<n. verdict ((wait ^^ m) w) = None)", OF _ assms], goal_cases)
  case (1 loop verdict wait w res)
  show ?case
  proof (cases "verdict w")
    case None
    with 1(2) have "loop verdict wait (wait w) = Some res" by simp
    from 1(1) [OF this] obtain n where n: "snd res = (wait ^^ n) (wait w)" "verdict (snd res) = Some (fst res)"
      "\<forall>m<n. verdict ((wait ^^ m) (wait w)) = None" by blast
    have "verdict ((wait ^^ m) w) = None" if "m < Suc n" for m
    proof (cases m)
      case (Suc k)
      with that n(3) show ?thesis by (simp only: Suc funpow_Suc_front Suc_less_eq)
    qed (simp add: None)
    moreover have "snd res = (wait ^^ Suc n) w" using n(1) by (simp only: funpow_Suc_front)
    ultimately show ?thesis using n(2) by blast
  next
    case (Some a)
    with 1(2) have "snd res = (wait ^^ 0) w" "verdict (snd res) = Some (fst res)" by auto
    then show ?thesis by blast
  qed
qed

lemma poll_Some:
  "poll verdict wait w = Some (r, v) \<longleftrightarrow>
     (\<exists>n. v = (wait ^^ n) w \<and> verdict v = Some r \<and> (\<forall>m<n. verdict ((wait ^^ m) w) = None))"
proof
  assume "poll verdict wait w = Some (r, v)"
  from poll_returns [OF this]
  show "\<exists>n. v = (wait ^^ n) w \<and> verdict v = Some r \<and> (\<forall>m<n. verdict ((wait ^^ m) w) = None)"
    by (simp only: fst_conv snd_conv)
next
  assume "\<exists>n. v = (wait ^^ n) w \<and> verdict v = Some r \<and> (\<forall>m<n. verdict ((wait ^^ m) w) = None)"
  then show "poll verdict wait w = Some (r, v)" by (elim exE conjE) (simp only: poll_after)
qed

lemma poll_None: "poll verdict wait w = None \<longleftrightarrow> (\<forall>n. verdict ((wait ^^ n) w) = None)"
proof
  assume none: "poll verdict wait w = None"
  show "\<forall>n. verdict ((wait ^^ n) w) = None"
  proof (rule ccontr)
    assume "\<not> (\<forall>n. verdict ((wait ^^ n) w) = None)"
    then have "\<exists>n. verdict ((wait ^^ n) w) \<noteq> None" by blast
    then obtain n where n: "verdict ((wait ^^ n) w) \<noteq> None" "\<forall>m<n. verdict ((wait ^^ m) w) = None"
      unfolding exists_least_iff [of "\<lambda>n. verdict ((wait ^^ n) w) \<noteq> None"] by blast
    then obtain r where "verdict ((wait ^^ n) w) = Some r" by blast
    then have "poll verdict wait w = Some (r, (wait ^^ n) w)" by (rule poll_after) (simp add: n(2))
    with none show False by simp
  qed
next
  assume none: "\<forall>n. verdict ((wait ^^ n) w) = None"
  show "poll verdict wait w = None"
  proof (cases "poll verdict wait w")
    case (Some res)
    from poll_returns [OF this] none show ?thesis by fastforce
  qed
qed

section \<open>Machine sizes\<close>

text \<open>
  \<^verbatim>\<open>std::size_t\<close> is 64 bits wide; \<^verbatim>\<open>npos\<close> is its greatest value, so \<^verbatim>\<open>npos + 1\<close> is 0.
  Sizes are natural numbers here with the wrap-around written out.
\<close>

definition size_max :: nat where "size_max = 2 ^ 64"
definition npos :: nat where "npos = size_max - 1"

definition sz_add :: "nat \<Rightarrow> nat \<Rightarrow> nat" where
  "sz_add a b = (a + b) mod size_max"

definition sz_sub :: "nat \<Rightarrow> nat \<Rightarrow> nat" where
  "sz_sub a b = (a + (size_max - b mod size_max)) mod size_max"

lemma sz_add_npos [simp]: "sz_add npos 1 = 0" "sz_add npos (Suc 0) = 0"
  by (simp_all add: sz_add_def npos_def size_max_def)

lemma sz_add_small [simp]: "a + b < size_max \<Longrightarrow> sz_add a b = a + b"
  by (simp add: sz_add_def)

lemma sz_sub_small [simp]: "b \<le> a \<Longrightarrow> a < size_max \<Longrightarrow> sz_sub a b = a - b"
proof -
  assume "b \<le> a" "a < size_max"
  then have "a + (size_max - b mod size_max) = (a - b) + size_max" by simp
  then show ?thesis
    using \<open>a < size_max\<close> by (simp add: sz_sub_def)
qed

text \<open>A string that fits in memory: its positions are below \<^verbatim>\<open>npos\<close>.\<close>

definition fits :: "'a list \<Rightarrow> bool" where "fits s \<longleftrightarrow> length s < npos"

lemma npos_less_size_max [simp]: "npos < size_max" by (simp add: npos_def size_max_def)

lemma fits_append: "fits (s @ t) \<Longrightarrow> fits s" "fits (s @ t) \<Longrightarrow> fits t"
  by (auto simp: fits_def)

section \<open>Searching and cutting strings\<close>

definition first_index :: "('a \<Rightarrow> bool) \<Rightarrow> 'a list \<Rightarrow> nat" where
  "first_index P s = (if list_ex P s then length (takeWhile (\<lambda>c. \<not> P c) s) else npos)"

definition last_index :: "('a \<Rightarrow> bool) \<Rightarrow> 'a list \<Rightarrow> nat" where
  "last_index P s =
     (if list_ex P s then length s - Suc (length (takeWhile (\<lambda>c. \<not> P c) (rev s))) else npos)"

text \<open>\<^verbatim>\<open>s.find_first_of(cs)\<close>, \<^verbatim>\<open>s.find_last_of(cs)\<close> and \<^verbatim>\<open>s.find_last_of(cs, pos)\<close>.\<close>

definition find_first_of :: "string \<Rightarrow> string \<Rightarrow> nat" where
  "find_first_of s cs = first_index (\<lambda>c. c \<in> set cs) s"

definition find_last_of :: "string \<Rightarrow> string \<Rightarrow> nat" where
  "find_last_of s cs = last_index (\<lambda>c. c \<in> set cs) s"

definition find_last_of_upto :: "string \<Rightarrow> string \<Rightarrow> nat \<Rightarrow> nat" where
  "find_last_of_upto s cs pos = last_index (\<lambda>c. c \<in> set cs) (take (Suc pos) s)"

definition starts_with :: "string \<Rightarrow> string \<Rightarrow> bool" where
  "starts_with t s \<longleftrightarrow> take (length t) s = t"

text \<open>\<^verbatim>\<open>s.find(t)\<close>: the first position at which \<open>t\<close> occurs.\<close>

fun find_opt :: "string \<Rightarrow> string \<Rightarrow> nat option" where
  "find_opt t [] = (if t = [] then Some 0 else None)"
| "find_opt t (c # s) = (if starts_with t (c # s) then Some 0 else map_option Suc (find_opt t s))"

definition find_str :: "string \<Rightarrow> string \<Rightarrow> nat" where
  "find_str s t = (case find_opt t s of None \<Rightarrow> npos | Some i \<Rightarrow> i)"

text \<open>\<^verbatim>\<open>s.substr(pos, n)\<close> throws when \<open>pos\<close> is past the end.\<close>

definition substr :: "string \<Rightarrow> nat \<Rightarrow> nat \<Rightarrow> string res" where
  "substr s pos n = (if length s < pos then Inl OutOfRange else Inr (take n (drop pos s)))"

definition substr_from :: "string \<Rightarrow> nat \<Rightarrow> string res" where
  "substr_from s pos = substr s pos npos"

lemma first_index_append [str_simps]:
  "\<not> list_ex P s \<Longrightarrow> P c \<Longrightarrow> first_index P (s @ c # t) = length s"
  by (simp add: first_index_def list_ex_iff)

lemma last_index_append [str_simps]:
  assumes "P c" and "\<not> list_ex P t"
  shows "last_index P (s @ c # t) = length s"
proof -
  have "takeWhile (\<lambda>c. \<not> P c) (rev t @ c # rev s) = rev t"
    using assms by (subst takeWhile_append2) (auto simp: list_ex_iff)
  with assms(1) show ?thesis by (simp add: last_index_def list_ex_iff)
qed

lemma last_index_none [str_simps]: "\<not> list_ex P s \<Longrightarrow> last_index P s = npos"
  by (simp add: last_index_def)

lemma first_index_none [str_simps]: "\<not> list_ex P s \<Longrightarrow> first_index P s = npos"
  by (simp add: first_index_def)

lemma last_index_le: "list_ex P s \<Longrightarrow> last_index P s < length s"
  by (cases s) (auto simp: last_index_def)

lemma substr_0 [simp]: "substr s 0 n = Inr (take n s)"
  by (simp add: substr_def)

lemma substr_Inr [str_simps]: "pos \<le> length s \<Longrightarrow> substr s pos n = Inr (take n (drop pos s))"
  by (simp add: substr_def)

lemma substr_from_Inr [str_simps]: "fits s \<Longrightarrow> pos \<le> length s \<Longrightarrow> substr_from s pos = Inr (drop pos s)"
  by (simp add: substr_from_def substr_def fits_def)

lemma substr_from_append: "fits (a @ b) \<Longrightarrow> substr_from (a @ b) (length a) = Inr b"
  by (simp add: substr_from_Inr)

lemma starts_with_append [simp]: "starts_with t (t @ s)"
  by (simp add: starts_with_def)

lemma starts_with_Cons: "starts_with t s \<longleftrightarrow> (\<exists>u. s = t @ u)"
  by (metis append_eq_conv_conj append_take_drop_id starts_with_def)

lemma find_str_0 [simp]: "find_str s t = 0 \<longleftrightarrow> starts_with t s"
  by (cases s) (auto simp: find_str_def starts_with_def npos_def size_max_def split: option.splits)

lemma find_opt_None: "find_opt t s = None \<longleftrightarrow> (\<nexists>u v. s = u @ t @ v)"
proof (induction s)
  case Nil
  then show ?case by simp
next
  case (Cons c s)
  show ?case
  proof (cases "starts_with t (c # s)")
    case True
    then have "\<exists>v. c # s = [] @ t @ v" by (simp add: starts_with_Cons)
    then have "\<exists>u v. c # s = u @ t @ v" by blast
    with True show ?thesis by simp
  next
    case False
    have "(\<exists>u v. c # s = u @ t @ v) \<longleftrightarrow> (\<exists>u v. s = u @ t @ v)"
    proof
      assume "\<exists>u v. c # s = u @ t @ v"
      then obtain u v where eq: "c # s = u @ t @ v" by blast
      with False have "u \<noteq> []" by (auto simp: starts_with_Cons)
      with eq show "\<exists>u v. s = u @ t @ v" by (cases u) auto
    next
      assume "\<exists>u v. s = u @ t @ v"
      then show "\<exists>u v. c # s = u @ t @ v" by (metis append_Cons)
    qed
    with False Cons.IH show ?thesis by simp
  qed
qed

lemma find_opt_le: "find_opt t s = Some i \<Longrightarrow> i \<le> length s"
  by (induction t s arbitrary: i rule: find_opt.induct) (auto split: if_splits)

lemma find_str_npos: "fits s \<Longrightarrow> find_str s t = npos \<longleftrightarrow> (\<nexists>u v. s = u @ t @ v)"
  using find_opt_None [of t s]
  by (auto simp: find_str_def fits_def dest: find_opt_le split: option.splits)

lemma find_opt_Some:
  "find_opt t s = Some i \<longleftrightarrow>
     i \<le> length s \<and> starts_with t (drop i s) \<and> (\<forall>j<i. \<not> starts_with t (drop j s))"
proof (induction s arbitrary: i)
  case Nil
  then show ?case by (auto simp: starts_with_def)
next
  case (Cons c s)
  show ?case
  proof (cases i)
    case 0
    then show ?thesis by auto
  next
    case (Suc k)
    have "(\<forall>j<Suc k. \<not> starts_with t (drop j (c # s))) \<longleftrightarrow>
        \<not> starts_with t (c # s) \<and> (\<forall>j<k. \<not> starts_with t (drop j s))"
      by (simp only: All_less_Suc2 drop_0 drop_Suc_Cons)
    with Suc Cons.IH [of k] show ?thesis by auto
  qed
qed

section \<open>Splitting and joining\<close>

text \<open>
  \<^verbatim>\<open>boost::join(v, sep)\<close>, \<^verbatim>\<open>boost::split(v, s, pred)\<close> (every delimiter separates two
  tokens) and \<^verbatim>\<open>boost::split(v, s, pred, token_compress_on)\<close> (a run of delimiters separates
  two tokens; a leading or trailing run still yields an empty token).
\<close>

fun join_with :: "string \<Rightarrow> string list \<Rightarrow> string" where
  "join_with sep [] = []"
| "join_with sep [x] = x"
| "join_with sep (x # y # ys) = x @ sep @ join_with sep (y # ys)"

fun split_on :: "(char \<Rightarrow> bool) \<Rightarrow> string \<Rightarrow> string list" where
  "split_on P [] = [[]]"
| "split_on P (c # cs) =
     (if P c then [] # split_on P cs
      else (case split_on P cs of [] \<Rightarrow> [[c]] | w # ws \<Rightarrow> (c # w) # ws))"

fun squeeze :: "(char \<Rightarrow> bool) \<Rightarrow> string \<Rightarrow> string" where
  "squeeze P (c # d # cs) = (if P c \<and> P d then squeeze P (d # cs) else c # squeeze P (d # cs))"
| "squeeze P cs = cs"

definition split_compress :: "(char \<Rightarrow> bool) \<Rightarrow> string \<Rightarrow> string list" where
  "split_compress P s = split_on P (squeeze P s)"

lemma split_on_nonempty [simp]: "split_on P s \<noteq> []"
  by (cases s) (auto split: list.splits)

lemma split_on_plain: "\<not> list_ex P s \<Longrightarrow> split_on P s = [s]"
  by (induction s) auto

lemma split_on_append:
  "\<not> list_ex P s \<Longrightarrow> P c \<Longrightarrow> split_on P (s @ c # t) = s # split_on P t"
  by (induction s) auto

lemma split_on_tokens: "w \<in> set (split_on P s) \<Longrightarrow> \<not> list_ex P w"
  by (induction P s arbitrary: w rule: split_on.induct) (auto split: if_splits list.splits)

lemma join_split_on: "join_with [c] (split_on (\<lambda>d. d = c) s) = s"
proof (induction s)
  case (Cons d s)
  obtain w ws where ws: "split_on (\<lambda>d. d = c) s = w # ws"
    by (cases "split_on (\<lambda>d. d = c) s") auto
  with Cons show ?case by (cases ws) auto
qed simp

lemma split_join:
  assumes "\<And>x. x \<in> set xs \<Longrightarrow> \<not> list_ex P x" and "P c" and "xs \<noteq> []"
  shows "split_on P (join_with [c] xs) = xs"
  using assms(3,1)
proof (induction xs rule: list_nonempty_induct)
  case (single x)
  then show ?case by (simp add: split_on_plain)
next
  case (cons x xs)
  then obtain y ys where "xs = y # ys" by (cases xs) auto
  with cons assms(2) show ?case by (simp add: split_on_append)
qed

lemma join_with_inj:
  assumes "join_with [c] xs = join_with [c] ys" and "xs \<noteq> []" and "ys \<noteq> []"
    and "\<And>x. x \<in> set xs \<Longrightarrow> c \<notin> set x" and "\<And>y. y \<in> set ys \<Longrightarrow> c \<notin> set y"
  shows "xs = ys"
proof -
  have "xs = split_on (\<lambda>d. d = c) (join_with [c] xs)"
    using assms(2,4) by (intro split_join [symmetric]) (auto simp: list_ex_iff)
  also have "\<dots> = split_on (\<lambda>d. d = c) (join_with [c] ys)"
    by (simp only: assms(1))
  also have "\<dots> = ys"
    using assms(3,5) by (intro split_join) (auto simp: list_ex_iff)
  finally show ?thesis .
qed

lemma join_with_append:
  "xs \<noteq> [] \<Longrightarrow> ys \<noteq> [] \<Longrightarrow> join_with sep (xs @ ys) = join_with sep xs @ sep @ join_with sep ys"
proof (induction xs rule: list_nonempty_induct)
  case (single x)
  then show ?case by (cases ys) auto
next
  case (cons x xs)
  then show ?case by (cases xs) auto
qed

section \<open>Decimal numbers and flags\<close>

text \<open>\<^verbatim>\<open>std::to_string\<close> on integers and on \<^verbatim>\<open>bool\<close> (which it promotes to 0 or 1).\<close>

definition digit :: "nat \<Rightarrow> char" where "digit d = char_of (48 + d)"

fun show_nat :: "nat \<Rightarrow> string" where
  "show_nat n = (if n < 10 then [digit n] else show_nat (n div 10) @ [digit (n mod 10)])"

declare show_nat.simps [simp del]

definition show_int :: "int \<Rightarrow> string" where
  "show_int i = (if i < 0 then CHR ''-'' # show_nat (nat (- i)) else show_nat (nat i))"

definition show_bool :: "bool \<Rightarrow> string" where
  "show_bool b = (if b then ''1'' else ''0'')"

definition is_digit :: "char \<Rightarrow> bool" where
  "is_digit c \<longleftrightarrow> 48 \<le> (of_char c :: nat) \<and> (of_char c :: nat) \<le> 57"

definition is_space :: "char \<Rightarrow> bool" where
  "is_space c \<longleftrightarrow> (of_char c :: nat) = 32 \<or> 9 \<le> (of_char c :: nat) \<and> (of_char c :: nat) \<le> 13"

definition read_nat :: "string \<Rightarrow> nat" where
  "read_nat ds = foldl (\<lambda>n c. 10 * n + (of_char c - 48)) 0 ds"

text \<open>
  \<^verbatim>\<open>strtol\<close> in base 10: white space, a sign, the longest run of digits; what follows is
  ignored. \<^verbatim>\<open>std::stoi\<close> throws when there is no digit or when the value is no \<^verbatim>\<open>int\<close>.
\<close>

definition read_int :: "string \<Rightarrow> int option" where
  "read_int s =
     (let t = dropWhile is_space s;
          u = (case t of [] \<Rightarrow> [] | c # cs \<Rightarrow> if c = CHR ''-'' \<or> c = CHR ''+'' then cs else t);
          ds = takeWhile is_digit u;
          v = int (read_nat ds)
      in if ds = [] then None
         else Some (if t \<noteq> [] \<and> hd t = CHR ''-'' then - v else v))"

definition int32 :: "int \<Rightarrow> bool" where
  "int32 i \<longleftrightarrow> - 2147483648 \<le> i \<and> i \<le> 2147483647"

definition stoi :: "string \<Rightarrow> int res" where
  "stoi s = (case read_int s of
       None \<Rightarrow> Inl InvalidArgument
     | Some i \<Rightarrow> if int32 i then Inr i else Inl OutOfRange)"

definition to_lower_char :: "char \<Rightarrow> char" where
  "to_lower_char c = (let n = (of_char c :: nat) in if 65 \<le> n \<and> n \<le> 90 then char_of (n + 32) else c)"

definition to_lower :: "string \<Rightarrow> string" where
  "to_lower s = map to_lower_char s"

text \<open>The code's reading of a flag: \<^verbatim>\<open>v = to_lower_copy(value); (v=="1") || (v=="true")\<close>.\<close>

definition parse_flag :: "string \<Rightarrow> bool" where
  "parse_flag value = (let v = to_lower value in v = ''1'' \<or> v = ''true'')"

lemma of_char_digit [simp]: "d < 10 \<Longrightarrow> (of_char (digit d) :: nat) = 48 + d"
  by (simp add: digit_def)

lemma is_digit_digit [simp]: "d < 10 \<Longrightarrow> is_digit (digit d)"
  by (simp add: is_digit_def)

lemma not_space_digit [simp]: "is_digit c \<Longrightarrow> \<not> is_space c"
  by (auto simp: is_digit_def is_space_def)

lemma show_nat_digits: "c \<in> set (show_nat n) \<Longrightarrow> is_digit c"
proof (induction n rule: show_nat.induct)
  case (1 n)
  then show ?case by (subst (asm) (2) show_nat.simps) (auto split: if_splits)
qed

lemma show_nat_nonempty [simp]: "show_nat n \<noteq> []"
  by (subst show_nat.simps) simp

lemma read_nat_snoc: "read_nat (s @ [c]) = 10 * read_nat s + (of_char c - 48)"
  by (simp add: read_nat_def)

lemma read_show_nat [simp]: "read_nat (show_nat n) = n"
proof (induction n rule: show_nat.induct)
  case (1 n)
  show ?case
  proof (cases "n < 10")
    case True
    then show ?thesis by (subst show_nat.simps) (simp add: read_nat_def)
  next
    case False
    with 1 show ?thesis by (subst show_nat.simps) (simp add: read_nat_snoc)
  qed
qed

lemma sign_not_digit [simp]: "\<not> is_digit (CHR ''-'')" "\<not> is_digit (CHR ''+'')"
  by (simp_all add: is_digit_def)

lemma read_int_digits:
  assumes "ds \<noteq> []" and "\<And>c. c \<in> set ds \<Longrightarrow> is_digit c" and "w = [] \<or> \<not> is_digit (hd w)"
  shows "read_int (ds @ w) = Some (int (read_nat ds))"
    and "read_int (CHR ''-'' # ds @ w) = Some (- int (read_nat ds))"
proof -
  obtain d r where ds: "ds = d # r" using assms(1) by (cases ds) auto
  then have d: "is_digit d" "\<not> is_space d" "d \<noteq> CHR ''-''" "d \<noteq> CHR ''+''"
    using assms(2) [of d] by (auto dest: not_space_digit)
  have tw: "takeWhile is_digit (ds @ w) = ds"
    using assms(2,3) by (cases w) (auto simp: takeWhile_append)
  have "dropWhile is_space (ds @ w) = ds @ w" using ds d by simp
  then show "read_int (ds @ w) = Some (int (read_nat ds))"
    using ds d tw by (simp add: read_int_def Let_def)
  have "dropWhile is_space (CHR ''-'' # ds @ w) = CHR ''-'' # ds @ w"
    by (simp add: is_space_def)
  then show "read_int (CHR ''-'' # ds @ w) = Some (- int (read_nat ds))"
    using ds tw by (simp add: read_int_def Let_def)
qed

lemma read_int_show_int [simp]: "read_int (show_int i) = Some i"
proof -
  have d: "\<And>n c. c \<in> set (show_nat n) \<Longrightarrow> is_digit c" by (rule show_nat_digits)
  show ?thesis
    using read_int_digits(1) [of "show_nat (nat i)" "[]", OF _ d]
      read_int_digits(2) [of "show_nat (nat (- i))" "[]", OF _ d]
    by (auto simp: show_int_def)
qed

lemma stoi_show_int: "int32 i \<Longrightarrow> stoi (show_int i) = Inr i"
  by (simp add: stoi_def)

lemma parse_show_bool [simp]: "parse_flag (show_bool b) = b"
  by (cases b) (simp_all add: parse_flag_def show_bool_def to_lower_def to_lower_char_def)

lemma show_int_inj [simp]: "show_int i = show_int j \<longleftrightarrow> i = j"
  by (metis option.inject read_int_show_int)

lemma show_int_chars: "c \<in> set (show_int i) \<Longrightarrow> is_digit c \<or> c = CHR ''-''"
  by (auto simp: show_int_def dest: show_nat_digits split: if_splits)

subsection \<open>The contract of a text codec\<close>

text \<open>
  Values travel through the registry as text. A writer and a reader fit together when the
  reader gives back what the writer wrote, for the values in the writer's range.
\<close>

locale text_codec =
  fixes enc :: "'a \<Rightarrow> string" and dec :: "string \<Rightarrow> 'a res" and ok :: "'a \<Rightarrow> bool"
  assumes dec_enc: "ok x \<Longrightarrow> dec (enc x) = Inr x"
begin

lemma enc_inj: "ok x \<Longrightarrow> ok y \<Longrightarrow> enc x = enc y \<longleftrightarrow> x = y"
  by (metis dec_enc sum.inject(2))

lemma dec_enc_bind: "ok x \<Longrightarrow> bindR (dec (enc x)) f = f x"
  by (simp add: dec_enc)

end

interpretation int_codec: text_codec show_int stoi int32
  by unfold_locales (rule stoi_show_int)

interpretation flag_codec: text_codec show_bool "\<lambda>s. Inr (parse_flag s)" "\<lambda>_. True"
  by unfold_locales simp

interpretation string_codec: text_codec "\<lambda>s. s" Inr "\<lambda>_. True"
  by unfold_locales simp

section \<open>Ordered maps\<close>

text \<open>
  \<^verbatim>\<open>std::map\<close> iterates in the order of its keys: a list of pairs sorted by key. \<open>smap_put\<close>
  is \<^verbatim>\<open>m[k] = v\<close>, \<open>smap_emplace\<close> is \<^verbatim>\<open>m.emplace(k, v)\<close>, which keeps a value that is there.
\<close>

type_synonym 'v smap = "(string \<times> 'v) list"

fun smap_put :: "string \<Rightarrow> 'v \<Rightarrow> 'v smap \<Rightarrow> 'v smap" where
  "smap_put k v [] = [(k, v)]"
| "smap_put k v ((a, b) # m) =
     (if k < a then (k, v) # (a, b) # m
      else if k = a then (k, v) # m
      else (a, b) # smap_put k v m)"

definition smap_emplace :: "string \<Rightarrow> 'v \<Rightarrow> 'v smap \<Rightarrow> 'v smap" where
  "smap_emplace k v m = (if map_of m k = None then smap_put k v m else m)"

definition smap_wf :: "'v smap \<Rightarrow> bool" where
  "smap_wf m \<longleftrightarrow> sorted_wrt (<) (map fst m)"

lemma map_of_smap_put [simp]: "map_of (smap_put k v m) = (map_of m)(k \<mapsto> v)"
  by (induction k v m rule: smap_put.induct) auto

lemma fst_set_smap_put: "fst ` set (smap_put k v m) = insert k (fst ` set m)"
  by (induction k v m rule: smap_put.induct) auto

lemma smap_wf_put [intro]: "smap_wf m \<Longrightarrow> smap_wf (smap_put k v m)"
proof (induction k v m rule: smap_put.induct)
  case (2 k v a b m)
  have keys: "\<And>x. x \<in> fst ` set (smap_put k v m) \<Longrightarrow> x = k \<or> x \<in> fst ` set m"
    by (simp add: fst_set_smap_put)
  consider "k < a" | "k = a" | "a < k" by (meson linorder_cases)
  then show ?case
  proof cases
    case 3
    with 2 keys show ?thesis by (fastforce simp: smap_wf_def)
  qed (use 2 in \<open>auto simp: smap_wf_def\<close>)
qed (simp add: smap_wf_def)

locale ordered_map =
  fixes put :: "string \<Rightarrow> 'v \<Rightarrow> 'm \<Rightarrow> 'm" and emplace :: "string \<Rightarrow> 'v \<Rightarrow> 'm \<Rightarrow> 'm"
    and get :: "'m \<Rightarrow> string \<Rightarrow> 'v option" and empty :: "'m" and wf :: "'m \<Rightarrow> bool"
  assumes get_empty: "get empty k = None"
    and get_put: "get (put k v m) = (get m)(k \<mapsto> v)"
    and get_emplace: "get (emplace k v m) = (if get m k = None then (get m)(k \<mapsto> v) else get m)"
    and wf_empty: "wf empty"
    and wf_put: "wf m \<Longrightarrow> wf (put k v m)"
    and wf_emplace: "wf m \<Longrightarrow> wf (emplace k v m)"
begin

lemma dom_emplace: "dom (get (emplace k v m)) = insert k (dom (get m))"
  by (auto simp: get_emplace)

lemma emplace_keeps: "get m j = Some w \<Longrightarrow> get (emplace k v m) j = Some w"
  by (auto simp: get_emplace)

lemma wf_fold_emplace: "wf m \<Longrightarrow> wf (fold (\<lambda>(k, v). emplace k v) kvs m)"
  by (induction kvs arbitrary: m) (auto intro: wf_emplace)

lemma get_fold_emplace:
  "get (fold (\<lambda>(k, v). emplace k v) kvs m) k =
     (case get m k of None \<Rightarrow> map_of kvs k | Some v \<Rightarrow> Some v)"
proof (induction kvs arbitrary: m)
  case (Cons p kvs)
  then show ?case by (cases p) (simp add: get_emplace split: option.split)
qed (simp split: option.split)

lemma wf_fold_put: "wf m \<Longrightarrow> wf (fold (\<lambda>(k, v). put k v) kvs m)"
  by (induction kvs arbitrary: m) (auto intro: wf_put)

end

interpretation std_map: ordered_map smap_put smap_emplace map_of "[]" smap_wf
  by unfold_locales (auto simp: smap_emplace_def smap_wf_def [of "[]"])

lemma smap_wf_distinct: "smap_wf m \<Longrightarrow> distinct (map fst m)"
  by (simp add: smap_wf_def strict_sorted_iff)

text \<open>Two ordered maps with the same entries are the same list.\<close>

lemma smap_wf_unique:
  assumes "smap_wf m" and "smap_wf n" and "map_of m = map_of n"
  shows "m = n"
proof -
  have keys: "fst ` set m = fst ` set n"
    using assms(3) by (metis dom_map_of_conv_image_fst)
  have "map fst m = map fst n"
    using assms(1,2) keys
    by (intro sorted_distinct_set_unique) (auto simp: smap_wf_def strict_sorted_iff)
  moreover have "map snd m = map snd n"
  proof -
    have vals: "map snd p = map (\<lambda>k. the (map_of p k)) (map fst p)" if "distinct (map fst p)" for p :: "'a smap"
      using that by (auto intro!: map_cong simp: map_of_is_SomeI)
    have "map snd m = map (\<lambda>k. the (map_of m k)) (map fst m)"
      by (rule vals) (rule smap_wf_distinct [OF assms(1)])
    also have "\<dots> = map snd n"
      using vals [OF smap_wf_distinct [OF assms(2)]] \<open>map fst m = map fst n\<close> assms(3) by simp
    finally show ?thesis .
  qed
  ultimately show ?thesis by (metis zip_map_fst_snd)
qed

end
