(* ===== verification/Platform.thy ===== *)
theory Platform
  imports Prelude
begin

text \<open>
  The services the program runs on, which are not part of the repository: the Redis client
  (\<^verbatim>\<open>sw::redis::Redis\<close>), the property store, the option parsers and the cancellation flag of
  a FairMQ device, and the passing of time. They are a record of functions over an abstract
  world \<open>'w\<close>, an argument of every definition that uses them. What Redis documents about its
  commands is the predicate \<open>redis_server\<close>, which the theorems that need it take as a
  hypothesis; \<open>ref_platform\<close> is an instance that satisfies it.
\<close>

section \<open>The interface\<close>

text \<open>The commands the program sends for their effect; \<open>int\<close> arguments are times to live.\<close>

datatype redis_cmd =
    HSet string "(string \<times> string) list"
  | HDel string "string list"
  | SetKey string string
  | SetEx string int string
  | Expire string int
  | RPush string "string list"
  | Del "string list"
  | Publish string string

text \<open>A JSON document as \<^verbatim>\<open>boost::property_tree\<close> holds it: data and named children.\<close>

datatype ptree = PTree (pt_data: string) (pt_children: "(string \<times> ptree) list")

definition ptree_child :: "ptree \<Rightarrow> string \<Rightarrow> ptree option" where
  "ptree_child pt k = map_of (pt_children pt) k"

definition ptree_get :: "ptree \<Rightarrow> string \<Rightarrow> string option" where
  "ptree_get pt k = map_option pt_data (ptree_child pt k)"

text \<open>The states of a FairMQ device.\<close>

datatype DeviceState =
    Undefined | Ok | Error | Idle | InitializingDevice | Initialized | Binding | Bound | Connecting
  | DeviceReady | InitializingTask | Ready | Running | ResettingTask | ResettingDevice | Exiting

record 'w platform =
  rd_get :: "'w \<Rightarrow> string \<Rightarrow> string option"
  rd_mget :: "'w \<Rightarrow> string list \<Rightarrow> string option list"
  rd_hget :: "'w \<Rightarrow> string \<Rightarrow> string \<Rightarrow> string option"
  rd_hgetall :: "'w \<Rightarrow> string \<Rightarrow> (string \<times> string) list"
  rd_lrange :: "'w \<Rightarrow> string \<Rightarrow> string list"
  rd_scan :: "'w \<Rightarrow> int \<Rightarrow> string \<Rightarrow> int \<times> string list"
  rd_run :: "redis_cmd \<Rightarrow> 'w \<Rightarrow> 'w"
  pr_get :: "'w \<Rightarrow> string \<Rightarrow> string option"
  pr_get_list :: "'w \<Rightarrow> string \<Rightarrow> string list option"
  pr_prefix :: "'w \<Rightarrow> string \<Rightarrow> (string \<times> string) list"
  pr_set :: "string \<Rightarrow> string \<Rightarrow> 'w \<Rightarrow> 'w"
  pr_del :: "string \<Rightarrow> 'w \<Rightarrow> 'w"
  mq_subopt :: "string list \<Rightarrow> string \<Rightarrow> string smap res"
  mq_json :: "string \<Rightarrow> string \<Rightarrow> string smap res"
  json_read :: "string \<Rightarrow> ptree res"
  GetStateName :: "DeviceState \<Rightarrow> string"
  is_canceled :: "'w \<Rightarrow> bool"
  pause :: "'w \<Rightarrow> 'w"

text \<open>
  A pipeline collects commands in the client; \<^verbatim>\<open>exec\<close> sends them in order. A pipeline that is
  destroyed without \<^verbatim>\<open>exec\<close> has sent nothing.
\<close>

type_synonym pipeline = "redis_cmd list"

definition pipe_exec :: "'w platform \<Rightarrow> pipeline \<Rightarrow> 'w \<Rightarrow> 'w" where
  "pipe_exec pf pipe w = fold (rd_run pf) pipe w"

lemma pipe_exec_Nil [simp]: "pipe_exec pf [] w = w"
  by (simp add: pipe_exec_def)

lemma pipe_exec_append: "pipe_exec pf (p @ q) w = pipe_exec pf q (pipe_exec pf p w)"
  by (simp add: pipe_exec_def)

section \<open>The documented behaviour of the Redis commands\<close>

datatype rvalue = RStr string | RList "string list" | RHash "string smap"

type_synonym keyspace = "string \<Rightarrow> rvalue option"

definition hash_put :: "(string \<times> string) list \<Rightarrow> string smap \<Rightarrow> string smap" where
  "hash_put fs h = fold (\<lambda>(f, v). smap_put f v) fs h"

text \<open>A command on a key that holds a value of another type is answered with an error.\<close>

fun cmd_effect :: "redis_cmd \<Rightarrow> keyspace \<Rightarrow> keyspace" where
  "cmd_effect (HSet k fs) m =
     (case m k of None \<Rightarrow> m(k \<mapsto> RHash (hash_put fs []))
      | Some (RHash h) \<Rightarrow> m(k \<mapsto> RHash (hash_put fs h))
      | _ \<Rightarrow> m)"
| "cmd_effect (HDel k fs) m =
     (case m k of Some (RHash h) \<Rightarrow>
        (let h' = filter (\<lambda>(f, v). f \<notin> set fs) h
         in if h' = [] then m(k := None) else m(k \<mapsto> RHash h'))
      | _ \<Rightarrow> m)"
| "cmd_effect (SetKey k v) m = m(k \<mapsto> RStr v)"
| "cmd_effect (SetEx k t v) m = m(k \<mapsto> RStr v)"
| "cmd_effect (Expire k t) m = m"
| "cmd_effect (RPush k vs) m =
     (case m k of None \<Rightarrow> if vs = [] then m else m(k \<mapsto> RList vs)
      | Some (RList l) \<Rightarrow> m(k \<mapsto> RList (l @ vs))
      | _ \<Rightarrow> m)"
| "cmd_effect (Del ks) m = (\<lambda>k. if k \<in> set ks then None else m k)"
| "cmd_effect (Publish c v) m = m"

text \<open>The cursor that the \<open>i\<close>-th SCAN call of an iteration is made with.\<close>

fun scan_cursor :: "'w platform \<Rightarrow> 'w \<Rightarrow> string \<Rightarrow> nat \<Rightarrow> int" where
  "scan_cursor pf w pat 0 = 0"
| "scan_cursor pf w pat (Suc i) = fst (rd_scan pf w (scan_cursor pf w pat i) pat)"

text \<open>
  A full iteration comes back to cursor 0 after finitely many calls, and the calls together
  return the keys that match the pattern, some perhaps more than once.
\<close>

definition scan_guarantee :: "'w platform \<Rightarrow> ('w \<Rightarrow> keyspace) \<Rightarrow> (string \<Rightarrow> string \<Rightarrow> bool) \<Rightarrow> bool" where
  "scan_guarantee pf view matches \<longleftrightarrow>
     (\<forall>w pat. \<exists>n. scan_cursor pf w pat (Suc n) = 0 \<and>
        (\<forall>i. 0 < i \<and> i \<le> n \<longrightarrow> scan_cursor pf w pat i \<noteq> 0) \<and>
        (\<Union>i\<in>{..n}. set (snd (rd_scan pf w (scan_cursor pf w pat i) pat))) =
          {k. view w k \<noteq> None \<and> matches pat k})"

definition redis_reads :: "'w platform \<Rightarrow> ('w \<Rightarrow> keyspace) \<Rightarrow> bool" where
  "redis_reads pf view \<longleftrightarrow>
     (\<forall>w k. view w k = None \<longrightarrow>
        rd_get pf w k = None \<and> rd_hgetall pf w k = [] \<and> rd_lrange pf w k = [] \<and>
        (\<forall>f. rd_hget pf w k f = None)) \<and>
     (\<forall>w k s. view w k = Some (RStr s) \<longrightarrow> rd_get pf w k = Some s) \<and>
     (\<forall>w k l. view w k = Some (RList l) \<longrightarrow> rd_lrange pf w k = l) \<and>
     (\<forall>w k h. view w k = Some (RHash h) \<longrightarrow>
        (\<forall>f. rd_hget pf w k f = map_of h f) \<and>
        distinct (map fst (rd_hgetall pf w k)) \<and>
        (\<forall>f. map_of (rd_hgetall pf w k) f = map_of h f)) \<and>
     (\<forall>w ks. rd_mget pf w ks =
        map (\<lambda>k. case view w k of Some (RStr s) \<Rightarrow> Some s | _ \<Rightarrow> None) ks)"

definition redis_server :: "'w platform \<Rightarrow> ('w \<Rightarrow> keyspace) \<Rightarrow> (string \<Rightarrow> string \<Rightarrow> bool) \<Rightarrow> bool" where
  "redis_server pf view matches \<longleftrightarrow>
     (\<forall>c w. view (rd_run pf c w) = cmd_effect c (view w)) \<and>
     redis_reads pf view \<and> scan_guarantee pf view matches"

text \<open>The property store of the device; it is not the registry.\<close>

definition property_store :: "'w platform \<Rightarrow> ('w \<Rightarrow> keyspace) \<Rightarrow> bool" where
  "property_store pf view \<longleftrightarrow>
     (\<forall>w k v q. pr_get pf (pr_set pf k v w) q = (if q = k then Some v else pr_get pf w q)) \<and>
     (\<forall>w k q. pr_get pf (pr_del pf k w) q = (if q = k then None else pr_get pf w q)) \<and>
     (\<forall>w p. smap_wf (pr_prefix pf w p) \<and>
        (\<forall>q. map_of (pr_prefix pf w p) q = (if starts_with p q then pr_get pf w q else None))) \<and>
     (\<forall>w k v. view (pr_set pf k v w) = view w \<and> view (pr_del pf k w) = view w) \<and>
     (\<forall>c w q. pr_get pf (rd_run pf c w) q = pr_get pf w q)"

lemma view_run: "redis_server pf view mt \<Longrightarrow> view (rd_run pf c w) = cmd_effect c (view w)"
  by (simp add: redis_server_def)

lemma view_pipe_exec:
  "redis_server pf view mt \<Longrightarrow> view (pipe_exec pf p w) = fold cmd_effect p (view w)"
  by (induction p arbitrary: w) (simp_all add: pipe_exec_def view_run)

lemma redis_reads: "redis_server pf view mt \<Longrightarrow> redis_reads pf view"
  by (simp add: redis_server_def)

lemma hget_hash:
  "redis_server pf view mt \<Longrightarrow> view w k = Some (RHash h) \<Longrightarrow> rd_hget pf w k f = map_of h f"
  by (simp add: redis_server_def redis_reads_def)

lemma hget_none:
  "redis_server pf view mt \<Longrightarrow> view w k = None \<Longrightarrow> rd_hget pf w k f = None"
  by (simp add: redis_server_def redis_reads_def)

lemma lrange_list:
  "redis_server pf view mt \<Longrightarrow> view w k = Some (RList l) \<Longrightarrow> rd_lrange pf w k = l"
  by (simp add: redis_server_def redis_reads_def)

lemma lrange_none:
  "redis_server pf view mt \<Longrightarrow> view w k = None \<Longrightarrow> rd_lrange pf w k = []"
  by (simp add: redis_server_def redis_reads_def)

lemma hgetall_hash:
  "redis_server pf view mt \<Longrightarrow> view w k = Some (RHash h) \<Longrightarrow>
     distinct (map fst (rd_hgetall pf w k)) \<and> map_of (rd_hgetall pf w k) = map_of h"
  by (simp add: redis_server_def redis_reads_def fun_eq_iff)

lemma map_of_hash_put: "map_of (hash_put fs h) f = (case map_of (rev fs) f of None \<Rightarrow> map_of h f | Some v \<Rightarrow> Some v)"
  unfolding hash_put_def
proof (induction fs arbitrary: h)
  case (Cons p fs)
  then show ?case by (cases p) (auto split: option.split)
qed simp

lemma map_of_rev_distinct: "distinct (map fst xs) \<Longrightarrow> map_of (rev xs) = map_of xs"
  by (subst map_of_inject_set) (simp_all add: rev_map [symmetric])

lemma map_of_hash_put_distinct:
  "distinct (map fst fs) \<Longrightarrow> map_of (hash_put fs []) = map_of fs"
  by (rule ext) (simp add: map_of_hash_put map_of_rev_distinct split: option.split)

lemma smap_wf_hash_put: "smap_wf h \<Longrightarrow> smap_wf (hash_put fs h)"
  unfolding hash_put_def by (rule std_map.wf_fold_put)

section \<open>A reference platform\<close>

text \<open>
  An instance in memory, with which the theorems about the program are applied to concrete
  inputs. Its patterns know the character \<^verbatim>\<open>*\<close> only; its option parser returns the options
  under their own text.
\<close>

record world =
  store :: "(string \<times> rvalue) list"
  props :: "string smap"
  canceled :: bool
  pauses :: nat

fun glob :: "string \<Rightarrow> string \<Rightarrow> bool" where
  "glob [] s \<longleftrightarrow> s = []"
| "glob (p # ps) [] \<longleftrightarrow> p = CHR ''*'' \<and> glob ps []"
| "glob (p # ps) (c # cs) \<longleftrightarrow>
     (if p = CHR ''*'' then glob ps (c # cs) \<or> glob (p # ps) cs else p = c \<and> glob ps cs)"

definition ref_view :: "'a world_scheme \<Rightarrow> keyspace" where
  "ref_view w = map_of (store w)"

definition store_set :: "string \<Rightarrow> rvalue option \<Rightarrow> (string \<times> rvalue) list \<Rightarrow> (string \<times> rvalue) list" where
  "store_set k v s =
     (case v of None \<Rightarrow> filter (\<lambda>(q, _). q \<noteq> k) s
      | Some x \<Rightarrow> (k, x) # filter (\<lambda>(q, _). q \<noteq> k) s)"

fun cmd_keys :: "redis_cmd \<Rightarrow> string list" where
  "cmd_keys (HSet k fs) = [k]"
| "cmd_keys (HDel k fs) = [k]"
| "cmd_keys (SetKey k v) = [k]"
| "cmd_keys (SetEx k t v) = [k]"
| "cmd_keys (RPush k vs) = [k]"
| "cmd_keys (Del ks) = ks"
| "cmd_keys (Expire k t) = []"
| "cmd_keys (Publish c v) = []"

definition ref_run :: "redis_cmd \<Rightarrow> 'a world_scheme \<Rightarrow> 'a world_scheme" where
  "ref_run c w =
     (let m = cmd_effect c (map_of (store w))
      in w\<lparr>store := fold (\<lambda>k s. store_set k (m k) s) (cmd_keys c) (store w)\<rparr>)"

fun ref_state_name :: "DeviceState \<Rightarrow> string" where
  "ref_state_name Undefined = ''UNDEFINED''"
| "ref_state_name Ok = ''OK''"
| "ref_state_name Error = ''ERROR''"
| "ref_state_name Idle = ''IDLE''"
| "ref_state_name InitializingDevice = ''INITIALIZING DEVICE''"
| "ref_state_name Initialized = ''INITIALIZED''"
| "ref_state_name Binding = ''BINDING''"
| "ref_state_name Bound = ''BOUND''"
| "ref_state_name Connecting = ''CONNECTING''"
| "ref_state_name DeviceReady = ''DEVICE READY''"
| "ref_state_name InitializingTask = ''INITIALIZING TASK''"
| "ref_state_name Ready = ''READY''"
| "ref_state_name Running = ''RUNNING''"
| "ref_state_name ResettingTask = ''RESETTING TASK''"
| "ref_state_name ResettingDevice = ''RESETTING DEVICE''"
| "ref_state_name Exiting = ''EXITING''"

definition ref_platform :: "'a world_scheme platform" where
  "ref_platform =
     \<lparr>rd_get = \<lambda>w k. (case map_of (store w) k of Some (RStr s) \<Rightarrow> Some s | _ \<Rightarrow> None),
      rd_mget = \<lambda>w ks. map (\<lambda>k. case map_of (store w) k of Some (RStr s) \<Rightarrow> Some s | _ \<Rightarrow> None) ks,
      rd_hget = \<lambda>w k f. (case map_of (store w) k of Some (RHash h) \<Rightarrow> map_of h f | _ \<Rightarrow> None),
      rd_hgetall = \<lambda>w k. (case map_of (store w) k of Some (RHash h) \<Rightarrow>
         map (\<lambda>f. (f, the (map_of h f))) (remdups (map fst h)) | _ \<Rightarrow> []),
      rd_lrange = \<lambda>w k. (case map_of (store w) k of Some (RList l) \<Rightarrow> l | _ \<Rightarrow> []),
      rd_scan = \<lambda>w c pat. (0, filter (glob pat) (map fst (store w))),
      rd_run = ref_run,
      pr_get = \<lambda>w k. map_of (props w) k,
      pr_get_list = \<lambda>w k. None,
      pr_prefix = \<lambda>w p. hash_put (rev (filter (\<lambda>(q, _). starts_with p q) (props w))) [],
      pr_set = \<lambda>k v w. w\<lparr>props := smap_put k v (props w)\<rparr>,
      pr_del = \<lambda>k w. w\<lparr>props := filter (\<lambda>(q, _). q \<noteq> k) (props w)\<rparr>,
      mq_subopt = \<lambda>opts service. Inr (fold (\<lambda>t. smap_put t t) opts []),
      mq_json = \<lambda>config dev. Inl (Failure ''json''),
      json_read = \<lambda>s. Inl (Failure ''json''),
      GetStateName = ref_state_name,
      is_canceled = canceled,
      pause = \<lambda>w. w\<lparr>pauses := Suc (pauses w)\<rparr>\<rparr>"

lemmas ref_sel = ref_platform_def platform.simps

lemma map_of_store_set [simp]: "map_of (store_set k v s) = (map_of s)(k := v)"
proof
  fix q
  have "map_of (filter (\<lambda>(q, _). q \<noteq> k) s) q = (if q = k then None else map_of s q)"
    by (induction s) auto
  then show "map_of (store_set k v s) q = ((map_of s)(k := v)) q"
    by (auto simp: store_set_def split: option.split)
qed

lemma fold_store_set:
  "map_of (fold (\<lambda>k s. store_set k (m k) s) ks s) q = (if q \<in> set ks then m q else map_of s q)"
  by (induction ks arbitrary: s) auto

lemma cmd_effect_frame: "q \<notin> set (cmd_keys c) \<Longrightarrow> cmd_effect c m q = m q"
  by (cases c) (auto simp: Let_def split: option.splits rvalue.splits)

lemma ref_view_run: "ref_view (ref_run c w) = cmd_effect c (ref_view w)"
  by (rule ext) (simp add: ref_view_def ref_run_def Let_def fold_store_set cmd_effect_frame)


lemma scan_cursor_ref: "scan_cursor ref_platform w pat i = 0"
  by (induction i) (simp_all add: ref_sel)

lemma map_of_filter_key: "map_of (filter (\<lambda>(q, _). P q) m) q = (if P q then map_of m q else None)"
  by (induction m) auto

lemma ref_redis_server: "redis_server ref_platform ref_view glob"
proof -
  have "scan_guarantee ref_platform ref_view glob"
    unfolding scan_guarantee_def
  proof (intro allI exI conjI)
    fix w pat
    show "scan_cursor ref_platform w pat (Suc 0) = 0" by (rule scan_cursor_ref)
    show "(\<Union>i\<in>{..0}. set (snd (rd_scan ref_platform w (scan_cursor ref_platform w pat i) pat))) =
        {k. ref_view w k \<noteq> None \<and> glob pat k}"
      by (auto simp: ref_sel ref_view_def map_of_eq_None_iff image_iff)
  qed auto
  moreover have "redis_reads ref_platform ref_view"
  proof -
    have "map_of (map (\<lambda>f. (f, the (map_of h f))) (remdups (map fst h))) f = map_of h f"
      for h :: "string smap" and f
    proof (cases "map_of h f")
      case None
      then have "f \<notin> fst ` set h" by (simp add: map_of_eq_None_iff)
      then have "map_of (map (\<lambda>f. (f, the (map_of h f))) (remdups (map fst h))) f = None"
        by (force simp: map_of_eq_None_iff)
      with None show ?thesis by simp
    next
      case (Some v)
      then have "f \<in> fst ` set h" by (metis image_eqI fst_conv map_of_SomeD)
      with Some show ?thesis by (auto intro!: map_of_is_SomeI simp: comp_def image_iff)
    qed
    then show ?thesis
      by (simp add: redis_reads_def ref_sel ref_view_def comp_def)
  qed
  ultimately show ?thesis
    by (simp add: redis_server_def ref_sel ref_view_run)
qed

lemma ref_property_store: "property_store ref_platform ref_view"
proof -
  have wf: "smap_wf (hash_put fs [])" for fs
    by (rule smap_wf_hash_put) (rule std_map.wf_empty)
  show ?thesis
    unfolding property_store_def
    by (auto simp: ref_sel wf map_of_hash_put map_of_filter_key ref_view_def ref_run_def Let_def
        split: option.split)
qed

end
