(* ===== verification/KeySpace.thy ===== *)
theory KeySpace
  imports Platform
begin

text \<open>
  The names of the registry's key space (\<^verbatim>\<open>plugins/Constants.h\<close>) and the two helpers every
  component addresses it with (\<^verbatim>\<open>plugins/Functions.h\<close>): \<open>join\<close> builds a key from its parts and
  \<open>scan\<close> collects the keys that match a pattern.
\<close>

section \<open>Constants\<close>

definition TopPrefix :: string where "TopPrefix = ''daq_service''"
definition PresencePrefix :: string where "PresencePrefix = ''presence''"
definition HealthPrefix :: string where "HealthPrefix = ''health''"
definition FairMQStatePrefix :: string where "FairMQStatePrefix = ''fair-mq-state''"
definition UpdateTimePrefix :: string where "UpdateTimePrefix = ''updatedTime''"
definition ProgOptionPrefix :: string where "ProgOptionPrefix = ''option''"
definition ServiceInstanceIndexPrefix :: string where
  "ServiceInstanceIndexPrefix = ''service-instance-index''"
definition RunInfoPrefix :: string where "RunInfoPrefix = ''run_info''"
definition RunNumber :: string where "RunNumber = ''run_number''"
definition StartTime :: string where "StartTime = ''start_time''"
definition StartTimeNS :: string where "StartTimeNS = ''start_time_ns''"
definition StopTime :: string where "StopTime = ''stop_time''"
definition StopTimeNS :: string where "StopTimeNS = ''stop_time_ns''"
definition CommandChannelName :: string where "CommandChannelName = ''daqctl''"

lemmas key_constants =
  TopPrefix_def PresencePrefix_def HealthPrefix_def FairMQStatePrefix_def UpdateTimePrefix_def
  ProgOptionPrefix_def ServiceInstanceIndexPrefix_def RunInfoPrefix_def RunNumber_def
  StartTime_def StartTimeNS_def StopTime_def StopTimeNS_def CommandChannelName_def

section \<open>Building keys\<close>

definition join :: "string list \<Rightarrow> string \<Rightarrow> string" where
  "join v separator = join_with separator v"

text \<open>
  Keys stay apart as long as no part contains the separator: a key determines its parts.
\<close>

definition plain :: "char \<Rightarrow> string \<Rightarrow> bool" where
  "plain c s \<longleftrightarrow> c \<notin> set s"

lemma join_inj:
  assumes "list_all (plain c) xs" and "list_all (plain c) ys" and "xs \<noteq> []" and "ys \<noteq> []"
  shows "join xs [c] = join ys [c] \<longleftrightarrow> xs = ys"
  using assms join_with_inj [of c xs ys] by (auto simp: join_def plain_def list_all_iff)

lemma split_key:
  assumes "list_all (plain c) xs" and "xs \<noteq> []"
  shows "split_on (\<lambda>d. d = c) (join xs [c]) = xs"
  using assms by (auto simp: join_def plain_def list_all_iff list_ex_iff intro!: split_join)

lemma join_snoc: "xs \<noteq> [] \<Longrightarrow> join (xs @ [y]) sep = join xs sep @ sep @ y"
  by (simp add: join_def join_with_append)

section \<open>Scanning\<close>

text \<open>
  The loop repeats the call with the returned cursor until the cursor is 0 and collects the
  keys in a set, here a list without repetitions in the order the set is iterated in.
\<close>

partial_function (option) scan_from ::
  "'w platform \<Rightarrow> 'w \<Rightarrow> string \<Rightarrow> int \<Rightarrow> string list \<Rightarrow> string list option" where
  "scan_from pf w pattern cursor keys =
     (let (c, batch) = rd_scan pf w cursor pattern;
          keys' = fold List.insert batch keys
      in if c = 0 then Some keys' else scan_from pf w pattern c keys')"

definition scan :: "'w platform \<Rightarrow> 'w \<Rightarrow> string \<Rightarrow> string list res" where
  "scan pf w pattern =
     (case scan_from pf w pattern 0 [] of None \<Rightarrow> Inl NoReturn | Some keys \<Rightarrow> Inr keys)"

definition scan_parts :: "'w platform \<Rightarrow> 'w \<Rightarrow> string list \<Rightarrow> string \<Rightarrow> string list res" where
  "scan_parts pf w v separator = scan pf w (join v separator)"

lemma set_fold_insert: "set (fold List.insert xs ys) = set xs \<union> set ys"
  by (induction xs arbitrary: ys) auto

lemma distinct_fold_insert: "distinct ys \<Longrightarrow> distinct (fold List.insert xs ys)"
  by (induction xs arbitrary: ys) auto

lemma scan_from_run:
  assumes "scan_cursor pf w pat (Suc n) = 0" and "i \<le> n" and "distinct ks"
    and "\<And>j. i < j \<Longrightarrow> j \<le> n \<Longrightarrow> scan_cursor pf w pat j \<noteq> 0"
  shows "\<exists>ks'. scan_from pf w pat (scan_cursor pf w pat i) ks = Some ks' \<and> distinct ks' \<and>
    set ks' = set ks \<union> (\<Union>j\<in>{i..n}. set (snd (rd_scan pf w (scan_cursor pf w pat j) pat)))"
  using assms
proof (induction "n - i" arbitrary: i ks)
  case 0
  then have [simp]: "i = n" by simp
  obtain c b where cb: "rd_scan pf w (scan_cursor pf w pat n) pat = (c, b)" by fastforce
  moreover have "c = 0" using 0 cb by simp
  ultimately show ?case
    using 0 by (subst scan_from.simps) (simp add: set_fold_insert distinct_fold_insert Un_commute)
next
  case (Suc d)
  obtain c b where cb: "rd_scan pf w (scan_cursor pf w pat i) pat = (c, b)" by fastforce
  have c: "c = scan_cursor pf w pat (Suc i)" using cb by simp
  have "Suc i \<le> n" using Suc.hyps(2) by simp
  then have "c \<noteq> 0" unfolding c by (intro Suc.prems(4)) simp_all
  have "\<exists>ks'. scan_from pf w pat c (fold List.insert b ks) = Some ks' \<and> distinct ks' \<and>
      set ks' = set (fold List.insert b ks) \<union>
        (\<Union>j\<in>{Suc i..n}. set (snd (rd_scan pf w (scan_cursor pf w pat j) pat)))"
    unfolding c using Suc.prems \<open>Suc i \<le> n\<close> Suc.hyps(2)
    by (intro Suc.hyps(1)) (auto intro: distinct_fold_insert)
  moreover have "{i..n} = insert i {Suc i..n}" using \<open>Suc i \<le> n\<close> by auto
  ultimately show ?case
    using cb \<open>c \<noteq> 0\<close> by (subst scan_from.simps) (auto simp: set_fold_insert)
qed

lemma scan_from_returns:
  assumes "scan_from pf w pat cur ks = Some r" and "cur = scan_cursor pf w pat i"
  shows "\<exists>n. scan_cursor pf w pat (Suc n) = 0"
proof -
  have "\<forall>i. cur = scan_cursor pf w pat i \<longrightarrow> (\<exists>n. scan_cursor pf w pat (Suc n) = 0)"
  proof (rule scan_from.raw_induct [where P = "\<lambda>pf w pat cur ks r.
      \<forall>i. cur = scan_cursor pf w pat i \<longrightarrow> (\<exists>n. scan_cursor pf w pat (Suc n) = 0)", OF _ assms(1)],
      intro allI impI)
    fix f :: "'a platform \<Rightarrow> 'a \<Rightarrow> string \<Rightarrow> int \<Rightarrow> string list \<Rightarrow> string list option"
      and pf w pat cur ks r i
    assume IH: "\<And>pf w pat cur ks r. f pf w pat cur ks = Some r \<Longrightarrow>
        \<forall>i. cur = scan_cursor pf w pat i \<longrightarrow> (\<exists>n. scan_cursor pf w pat (Suc n) = 0)"
      and eq: "(let (c, batch) = rd_scan pf w cur pat; keys' = fold List.insert batch ks
        in if c = 0 then Some keys' else f pf w pat c keys') = Some r"
      and cur: "cur = scan_cursor pf w pat i"
    obtain c b where cb: "rd_scan pf w cur pat = (c, b)" by fastforce
    then have c: "c = scan_cursor pf w pat (Suc i)" using cur by simp
    show "\<exists>n. scan_cursor pf w pat (Suc n) = 0"
    proof (cases "c = 0")
      case True
      with c show ?thesis by metis
    next
      case False
      with eq cb have "f pf w pat c (fold List.insert b ks) = Some r" by simp
      from IH [OF this] c show ?thesis by blast
    qed
  qed
  with assms(2) show ?thesis by blast
qed

subsection \<open>The contract of a scanner\<close>

text \<open>
  What the components rely on: a scan returns, without repetitions, the keys that are present
  and match the pattern.
\<close>

locale key_scanner =
  fixes scan_fn :: "'w \<Rightarrow> string \<Rightarrow> string list res"
    and present :: "'w \<Rightarrow> string \<Rightarrow> bool"
    and matches :: "string \<Rightarrow> string \<Rightarrow> bool"
  assumes scan_ok: "\<exists>ks. scan_fn w pat = Inr ks \<and> distinct ks \<and> set ks = {k. present w k \<and> matches pat k}"
begin

lemma scan_mem: "scan_fn w pat = Inr ks \<Longrightarrow> k \<in> set ks \<longleftrightarrow> present w k \<and> matches pat k"
  using scan_ok [of w pat] by auto

lemma scan_distinct: "scan_fn w pat = Inr ks \<Longrightarrow> distinct ks"
  using scan_ok [of w pat] by auto

lemma scan_empty: "scan_fn w pat = Inr [] \<longleftrightarrow> (\<forall>k. present w k \<longrightarrow> \<not> matches pat k)"
proof -
  obtain ks where "scan_fn w pat = Inr ks" "set ks = {k. present w k \<and> matches pat k}"
    using scan_ok by blast
  then show ?thesis by (cases ks) auto
qed

lemma scan_total: "\<exists>ks. scan_fn w pat = Inr ks"
  using scan_ok [of w pat] by blast

end

lemma scan_guarantee_complete:
  assumes "scan_guarantee pf view matches"
  shows "\<exists>ks. scan pf w pat = Inr ks \<and> distinct ks \<and> set ks = {k. view w k \<noteq> None \<and> matches pat k}"
proof -
  obtain n where n: "scan_cursor pf w pat (Suc n) = 0"
    "\<And>i. 0 < i \<Longrightarrow> i \<le> n \<Longrightarrow> scan_cursor pf w pat i \<noteq> 0"
    "(\<Union>i\<in>{..n}. set (snd (rd_scan pf w (scan_cursor pf w pat i) pat))) =
       {k. view w k \<noteq> None \<and> matches pat k}"
    using assms unfolding scan_guarantee_def by meson
  have "\<exists>ks'. scan_from pf w pat (scan_cursor pf w pat 0) [] = Some ks' \<and> distinct ks' \<and>
    set ks' = set [] \<union> (\<Union>j\<in>{0..n}. set (snd (rd_scan pf w (scan_cursor pf w pat j) pat)))"
    using n(1,2) by (intro scan_from_run) auto
  with n(3) show ?thesis by (auto simp: scan_def atLeast0AtMost)
qed

lemma key_scanner_scan:
  "redis_server pf view matches \<Longrightarrow> key_scanner (scan pf) (\<lambda>w k. view w k \<noteq> None) matches"
  by unfold_locales (rule scan_guarantee_complete, simp add: redis_server_def)

interpretation ref_scanner: key_scanner "scan ref_platform" "\<lambda>w k. ref_view w k \<noteq> None" glob
  by (rule key_scanner_scan) (rule ref_redis_server)

text \<open>
  \<^verbatim>\<open>for (const auto &k : patterns) stateKeys.merge(scan(client, k))\<close>, which the components that
  wait for the states of other devices share.
\<close>

fun scan_merge :: "'w platform \<Rightarrow> 'w \<Rightarrow> string list \<Rightarrow> string list \<Rightarrow> string list res" where
  "scan_merge pf w [] keys = Inr keys"
| "scan_merge pf w (p # ps) keys =
     bindR (scan pf w p) (\<lambda>s. scan_merge pf w ps (fold List.insert s keys))"

lemma scan_merge_ok:
  assumes "redis_server pf view matches" and "distinct keys"
  shows "\<exists>ks. scan_merge pf w ps keys = Inr ks \<and> distinct ks \<and>
    set ks = set keys \<union> {k. view w k \<noteq> None \<and> (\<exists>p\<in>set ps. matches p k)}"
  using assms(2)
proof (induction ps arbitrary: keys)
  case (Cons p ps)
  obtain s where s: "scan pf w p = Inr s" "set s = {k. view w k \<noteq> None \<and> matches p k}"
    using key_scanner.scan_ok [OF key_scanner_scan [OF assms(1)], of w p] by blast
  from Cons.IH [of "fold List.insert s keys"] Cons.prems s show ?case
    by (auto simp: set_fold_insert distinct_fold_insert)
qed simp

end
