(* ===== verification/SocketConfig.thy ===== *)
theory SocketConfig
  imports KeySpace "HOL-Library.Multiset"
begin

text \<open>
  The data of the topology (\<^verbatim>\<open>plugins/TopologyData.h\<close>) and the pure functions of
  \<^verbatim>\<open>plugins/TopologyConfig.cxx\<close> on it: the socket properties, their text form in a registry
  hash and in a FairMQ channel option, and the substitution of a wildcard host in an address.
\<close>

section \<open>Data\<close>

text \<open>
  \<^verbatim>\<open>int\<close> fields are integers; the predicate \<open>sp_int32\<close> says that they are 32-bit values.
\<close>

record SocketProperty =
  sp_name :: string
  sp_type :: string
  sp_method :: string
  sp_address :: string
  sp_transport :: string
  sndBufSize :: int
  rcvBufSize :: int
  sndKernelSize :: int
  rcvKernelSize :: int
  linger :: int
  rateLogging :: int
  portRangeMin :: int
  portRangeMax :: int
  autoBind :: bool
  numSockets :: int
  autoSubChannel :: bool
  bound :: bool
  waitForPeerConnection :: bool

definition default_SocketProperty :: SocketProperty where
  "default_SocketProperty =
     \<lparr>sp_name = [], sp_type = [], sp_method = [], sp_address = [], sp_transport = ''zeromq'',
      sndBufSize = 1000, rcvBufSize = 1000, sndKernelSize = 0, rcvKernelSize = 0, linger = 500,
      rateLogging = 1, portRangeMin = 22000, portRangeMax = 32000, autoBind = True,
      numSockets = 0, autoSubChannel = False, bound = False, waitForPeerConnection = True\<rparr>"

record LinkProperty =
  myService :: string
  myChannel :: string
  peerService :: string
  peerChannel :: string
  lp_options :: string

definition sp_int32 :: "SocketProperty \<Rightarrow> bool" where
  "sp_int32 sp \<longleftrightarrow>
     int32 (sndBufSize sp) \<and> int32 (rcvBufSize sp) \<and> int32 (sndKernelSize sp) \<and>
     int32 (rcvKernelSize sp) \<and> int32 (linger sp) \<and> int32 (rateLogging sp) \<and>
     int32 (portRangeMin sp) \<and> int32 (portRangeMax sp) \<and> int32 (numSockets sp)"

section \<open>Reading a hash: ToSocketProperty\<close>

definition set_int :: "(int \<Rightarrow> SocketProperty) \<Rightarrow> string \<Rightarrow> SocketProperty res" where
  "set_int upd value = bindR (stoi value) (\<lambda>i. Inr (upd i))"

definition set_field :: "SocketProperty \<Rightarrow> string \<Rightarrow> string \<Rightarrow> SocketProperty res" where
  "set_field sp field value =
     (if field = ''name'' then Inr (sp\<lparr>sp_name := value\<rparr>)
      else if field = ''type'' then Inr (sp\<lparr>sp_type := value\<rparr>)
      else if field = ''method'' then Inr (sp\<lparr>sp_method := value\<rparr>)
      else if field = ''address'' then Inr (sp\<lparr>sp_address := value\<rparr>)
      else if field = ''transport'' then Inr (sp\<lparr>sp_transport := value\<rparr>)
      else if field = ''sndBufSize'' then set_int (\<lambda>i. sp\<lparr>sndBufSize := i\<rparr>) value
      else if field = ''rcvBufSize'' then set_int (\<lambda>i. sp\<lparr>rcvBufSize := i\<rparr>) value
      else if field = ''sndKernelSize'' then set_int (\<lambda>i. sp\<lparr>sndKernelSize := i\<rparr>) value
      else if field = ''rcvKernelSize'' then set_int (\<lambda>i. sp\<lparr>rcvKernelSize := i\<rparr>) value
      else if field = ''linger'' then set_int (\<lambda>i. sp\<lparr>linger := i\<rparr>) value
      else if field = ''rateLogging'' then set_int (\<lambda>i. sp\<lparr>rateLogging := i\<rparr>) value
      else if field = ''portRangeMin'' then set_int (\<lambda>i. sp\<lparr>portRangeMin := i\<rparr>) value
      else if field = ''portRangeMax'' then set_int (\<lambda>i. sp\<lparr>portRangeMax := i\<rparr>) value
      else if field = ''autoBind'' then Inr (sp\<lparr>autoBind := parse_flag value\<rparr>)
      else if field = ''numSockets'' then set_int (\<lambda>i. sp\<lparr>numSockets := i\<rparr>) value
      else if field = ''autoSubChannel'' then Inr (sp\<lparr>autoSubChannel := parse_flag value\<rparr>)
      else if field = ''bound'' then Inr (sp\<lparr>bound := parse_flag value\<rparr>)
      else if field = ''waitForPeerConnection'' then Inr (sp\<lparr>waitForPeerConnection := parse_flag value\<rparr>)
      else Inr sp)"

fun read_fields :: "SocketProperty \<Rightarrow> (string \<times> string) list \<Rightarrow> SocketProperty res" where
  "read_fields sp [] = Inr sp"
| "read_fields sp ((field, value) # c) = bindR (set_field sp field value) (\<lambda>sp'. read_fields sp' c)"

definition ToSocketProperty :: "(string \<times> string) list \<Rightarrow> SocketProperty res" where
  "ToSocketProperty c = read_fields default_SocketProperty c"

text \<open>The pairs that \<^verbatim>\<open>WriteChannel\<close> stores for a channel.\<close>

definition channel_fields :: "SocketProperty \<Rightarrow> (string \<times> string) list" where
  "channel_fields sp =
     [(''name'', sp_name sp),
      (''type'', sp_type sp),
      (''method'', sp_method sp),
      (''address'', sp_address sp),
      (''transport'', sp_transport sp),
      (''sndBufSize'', show_int (sndBufSize sp)),
      (''rcvBufSize'', show_int (rcvBufSize sp)),
      (''sndKernelSize'', show_int (sndKernelSize sp)),
      (''rcvKernelSize'', show_int (rcvKernelSize sp)),
      (''linger'', show_int (linger sp)),
      (''rateLogging'', show_int (rateLogging sp)),
      (''portRangeMin'', show_int (portRangeMin sp)),
      (''portRangeMax'', show_int (portRangeMax sp)),
      (''autoBind'', show_bool (autoBind sp)),
      (''numSockets'', show_int (numSockets sp)),
      (''autoSubChannel'', show_bool (autoSubChannel sp)),
      (''bound'', show_bool (bound sp)),
      (''waitForPeerConnection'', show_bool (waitForPeerConnection sp))]"

section \<open>What a field of a hash determines\<close>

text \<open>
  Each field of the record has one key and one reader. A hash that is read successfully gives
  the field the value under its key, or leaves it alone; the order of the pairs, which the
  registry does not fix, has no influence.
\<close>

locale socket_field =
  fixes key :: string and get :: "SocketProperty \<Rightarrow> 'a" and dec :: "string \<Rightarrow> 'a res"
  assumes own: "set_field t key v = Inr t' \<Longrightarrow> dec v = Inr (get t')"
    and other: "set_field t k v = Inr t' \<Longrightarrow> k \<noteq> key \<Longrightarrow> get t' = get t"
begin

lemma read_absent:
  "read_fields t c = Inr r \<Longrightarrow> map_of c key = None \<Longrightarrow> get r = get t"
proof (induction c arbitrary: t)
  case (Cons p c)
  obtain k v where p: "p = (k, v)" by fastforce
  with Cons.prems obtain t' where t': "set_field t k v = Inr t'" "read_fields t' c = Inr r"
    by (auto simp: bindR_Inr_iff)
  with Cons p have "get r = get t'" by (auto split: if_splits)
  moreover have "k \<noteq> key" using Cons.prems p by (auto split: if_splits)
  ultimately show ?case using t' other by simp
qed simp

lemma read_present:
  "read_fields t c = Inr r \<Longrightarrow> distinct (map fst c) \<Longrightarrow> map_of c key = Some v \<Longrightarrow> dec v = Inr (get r)"
proof (induction c arbitrary: t)
  case (Cons p c)
  obtain k w where p: "p = (k, w)" by fastforce
  with Cons.prems obtain t' where t': "set_field t k w = Inr t'" "read_fields t' c = Inr r"
    by (auto simp: bindR_Inr_iff)
  show ?case
  proof (cases "k = key")
    case True
    then have "map_of c key = None" using Cons.prems(2) p by (auto simp: map_of_eq_None_iff)
    then have "get r = get t'" using t'(2) by (rule read_absent [rotated])
    moreover have "w = v" using True Cons.prems(3) p by simp
    ultimately show ?thesis using own t'(1) True by simp
  next
    case False
    with Cons t' p show ?thesis by auto
  qed
qed simp

lemma read_value:
  "read_fields t c = Inr r \<Longrightarrow> distinct (map fst c) \<Longrightarrow> map_of c key = Some v \<Longrightarrow> dec v = Inr x \<Longrightarrow>
     get r = x"
  using read_present by fastforce

end

lemmas set_field_cases = set_field_def set_int_def bindR_Inr_iff

interpretation name_field: socket_field "''name''" sp_name Inr
  by unfold_locales (auto simp: set_field_cases split: if_splits)
interpretation type_field: socket_field "''type''" sp_type Inr
  by unfold_locales (auto simp: set_field_cases split: if_splits)
interpretation method_field: socket_field "''method''" sp_method Inr
  by unfold_locales (auto simp: set_field_cases split: if_splits)
interpretation address_field: socket_field "''address''" sp_address Inr
  by unfold_locales (auto simp: set_field_cases split: if_splits)
interpretation transport_field: socket_field "''transport''" sp_transport Inr
  by unfold_locales (auto simp: set_field_cases split: if_splits)
interpretation sndBufSize_field: socket_field "''sndBufSize''" sndBufSize stoi
  by unfold_locales (auto simp: set_field_cases split: if_splits)
interpretation rcvBufSize_field: socket_field "''rcvBufSize''" rcvBufSize stoi
  by unfold_locales (auto simp: set_field_cases split: if_splits)
interpretation sndKernelSize_field: socket_field "''sndKernelSize''" sndKernelSize stoi
  by unfold_locales (auto simp: set_field_cases split: if_splits)
interpretation rcvKernelSize_field: socket_field "''rcvKernelSize''" rcvKernelSize stoi
  by unfold_locales (auto simp: set_field_cases split: if_splits)
interpretation linger_field: socket_field "''linger''" linger stoi
  by unfold_locales (auto simp: set_field_cases split: if_splits)
interpretation rateLogging_field: socket_field "''rateLogging''" rateLogging stoi
  by unfold_locales (auto simp: set_field_cases split: if_splits)
interpretation portRangeMin_field: socket_field "''portRangeMin''" portRangeMin stoi
  by unfold_locales (auto simp: set_field_cases split: if_splits)
interpretation portRangeMax_field: socket_field "''portRangeMax''" portRangeMax stoi
  by unfold_locales (auto simp: set_field_cases split: if_splits)
interpretation autoBind_field: socket_field "''autoBind''" autoBind "\<lambda>s. Inr (parse_flag s)"
  by unfold_locales (auto simp: set_field_cases split: if_splits)
interpretation numSockets_field: socket_field "''numSockets''" numSockets stoi
  by unfold_locales (auto simp: set_field_cases split: if_splits)
interpretation autoSubChannel_field: socket_field "''autoSubChannel''" autoSubChannel "\<lambda>s. Inr (parse_flag s)"
  by unfold_locales (auto simp: set_field_cases split: if_splits)
interpretation bound_field: socket_field "''bound''" bound "\<lambda>s. Inr (parse_flag s)"
  by unfold_locales (auto simp: set_field_cases split: if_splits)
interpretation waitForPeerConnection_field:
  socket_field "''waitForPeerConnection''" waitForPeerConnection "\<lambda>s. Inr (parse_flag s)"
  by unfold_locales (auto simp: set_field_cases split: if_splits)

definition int_fields :: "string list" where
  "int_fields = [''sndBufSize'', ''rcvBufSize'', ''sndKernelSize'', ''rcvKernelSize'', ''linger'',
     ''rateLogging'', ''portRangeMin'', ''portRangeMax'', ''numSockets'']"

lemma set_field_ok:
  "(\<exists>t'. set_field t k v = Inr t') \<longleftrightarrow> (k \<in> set int_fields \<longrightarrow> (\<exists>i. stoi v = Inr i))"
  by (simp add: set_field_def set_int_def bindR_Inr_iff int_fields_def)

lemma set_field_fault: "set_field t k v = Inl e \<Longrightarrow> stoi v = Inl e"
  by (auto simp: set_field_def set_int_def bindR_Inl_iff split: if_splits)

lemma read_fields_ok:
  "(\<exists>r. read_fields t c = Inr r) \<longleftrightarrow>
     (\<forall>(k, v)\<in>set c. k \<in> set int_fields \<longrightarrow> (\<exists>i. stoi v = Inr i))"
proof (induction c arbitrary: t)
  case (Cons p c)
  obtain k v where p: "p = (k, v)" by fastforce
  show ?case
  proof (cases "\<exists>t'. set_field t k v = Inr t'")
    case True
    then obtain t' where "set_field t k v = Inr t'" by blast
    moreover have "k \<in> set int_fields \<longrightarrow> (\<exists>i. stoi v = Inr i)"
      using True set_field_ok by blast
    ultimately show ?thesis using p Cons.IH [of t'] by simp
  next
    case False
    then have "\<not> (k \<in> set int_fields \<longrightarrow> (\<exists>i. stoi v = Inr i))" by (simp add: set_field_ok)
    moreover obtain e where "set_field t k v = Inl e" using False by (cases "set_field t k v") auto
    ultimately show ?thesis using p by simp
  qed
qed simp


lemma distinct_channel_fields: "distinct (map fst (channel_fields sp))"
  by (simp add: channel_fields_def)

text \<open>The reader gives back the property the writer stored, whatever the order of the hash.\<close>

lemma read_channel_fields:
  assumes "sp_int32 sp" and "distinct (map fst c)" and "map_of c = map_of (channel_fields sp)"
  shows "ToSocketProperty c = Inr sp"
proof -
  have "\<forall>(k, v)\<in>set c. k \<in> set int_fields \<longrightarrow> (\<exists>i. stoi v = Inr i)"
  proof (intro ballI, clarify)
    fix k v assume kv: "(k, v) \<in> set c" "k \<in> set int_fields"
    then have "map_of (channel_fields sp) k = Some v"
      using assms(2,3) by (metis map_of_is_SomeI)
    then show "\<exists>i. stoi v = Inr i"
      using assms(1) kv(2)
      by (auto simp: int_fields_def channel_fields_def sp_int32_def stoi_show_int)
  qed
  then obtain r where r: "read_fields default_SocketProperty c = Inr r"
    using read_fields_ok by blast
  have vals:
    "map_of c ''name'' = Some (sp_name sp)"
    "map_of c ''type'' = Some (sp_type sp)"
    "map_of c ''method'' = Some (sp_method sp)"
    "map_of c ''address'' = Some (sp_address sp)"
    "map_of c ''transport'' = Some (sp_transport sp)"
    "map_of c ''sndBufSize'' = Some (show_int (sndBufSize sp))"
    "map_of c ''rcvBufSize'' = Some (show_int (rcvBufSize sp))"
    "map_of c ''sndKernelSize'' = Some (show_int (sndKernelSize sp))"
    "map_of c ''rcvKernelSize'' = Some (show_int (rcvKernelSize sp))"
    "map_of c ''linger'' = Some (show_int (linger sp))"
    "map_of c ''rateLogging'' = Some (show_int (rateLogging sp))"
    "map_of c ''portRangeMin'' = Some (show_int (portRangeMin sp))"
    "map_of c ''portRangeMax'' = Some (show_int (portRangeMax sp))"
    "map_of c ''autoBind'' = Some (show_bool (autoBind sp))"
    "map_of c ''numSockets'' = Some (show_int (numSockets sp))"
    "map_of c ''autoSubChannel'' = Some (show_bool (autoSubChannel sp))"
    "map_of c ''bound'' = Some (show_bool (bound sp))"
    "map_of c ''waitForPeerConnection'' = Some (show_bool (waitForPeerConnection sp))"
    by (simp_all add: assms(3) channel_fields_def)
  note fld = socket_field.read_value [OF _ r assms(2)]
  have "r = sp"
  proof (rule SocketProperty.equality)
    show "sp_name r = sp_name sp"
      by (rule fld [OF name_field.socket_field_axioms vals(1)]) simp
    show "sp_type r = sp_type sp"
      by (rule fld [OF type_field.socket_field_axioms vals(2)]) simp
    show "sp_method r = sp_method sp"
      by (rule fld [OF method_field.socket_field_axioms vals(3)]) simp
    show "sp_address r = sp_address sp"
      by (rule fld [OF address_field.socket_field_axioms vals(4)]) simp
    show "sp_transport r = sp_transport sp"
      by (rule fld [OF transport_field.socket_field_axioms vals(5)]) simp
    show "sndBufSize r = sndBufSize sp"
      by (rule fld [OF sndBufSize_field.socket_field_axioms vals(6)]) (use assms(1) in \<open>simp add: sp_int32_def stoi_show_int\<close>)
    show "rcvBufSize r = rcvBufSize sp"
      by (rule fld [OF rcvBufSize_field.socket_field_axioms vals(7)]) (use assms(1) in \<open>simp add: sp_int32_def stoi_show_int\<close>)
    show "sndKernelSize r = sndKernelSize sp"
      by (rule fld [OF sndKernelSize_field.socket_field_axioms vals(8)]) (use assms(1) in \<open>simp add: sp_int32_def stoi_show_int\<close>)
    show "rcvKernelSize r = rcvKernelSize sp"
      by (rule fld [OF rcvKernelSize_field.socket_field_axioms vals(9)]) (use assms(1) in \<open>simp add: sp_int32_def stoi_show_int\<close>)
    show "linger r = linger sp"
      by (rule fld [OF linger_field.socket_field_axioms vals(10)]) (use assms(1) in \<open>simp add: sp_int32_def stoi_show_int\<close>)
    show "rateLogging r = rateLogging sp"
      by (rule fld [OF rateLogging_field.socket_field_axioms vals(11)]) (use assms(1) in \<open>simp add: sp_int32_def stoi_show_int\<close>)
    show "portRangeMin r = portRangeMin sp"
      by (rule fld [OF portRangeMin_field.socket_field_axioms vals(12)]) (use assms(1) in \<open>simp add: sp_int32_def stoi_show_int\<close>)
    show "portRangeMax r = portRangeMax sp"
      by (rule fld [OF portRangeMax_field.socket_field_axioms vals(13)]) (use assms(1) in \<open>simp add: sp_int32_def stoi_show_int\<close>)
    show "autoBind r = autoBind sp"
      by (rule fld [OF autoBind_field.socket_field_axioms vals(14)]) simp
    show "numSockets r = numSockets sp"
      by (rule fld [OF numSockets_field.socket_field_axioms vals(15)]) (use assms(1) in \<open>simp add: sp_int32_def stoi_show_int\<close>)
    show "autoSubChannel r = autoSubChannel sp"
      by (rule fld [OF autoSubChannel_field.socket_field_axioms vals(16)]) simp
    show "bound r = bound sp"
      by (rule fld [OF bound_field.socket_field_axioms vals(17)]) simp
    show "waitForPeerConnection r = waitForPeerConnection sp"
      by (rule fld [OF waitForPeerConnection_field.socket_field_axioms vals(18)]) simp
  qed simp
  with r show ?thesis by (simp add: ToSocketProperty_def)
qed

section \<open>Addresses\<close>

text \<open>\<^verbatim>\<open>MakeAddress\<close> puts the host of the peer in the place of a wildcard host.\<close>

definition MakeAddress :: "string \<Rightarrow> string \<Rightarrow> string res" where
  "MakeAddress address peerIP =
     (let posPort = find_last_of address '':'';
          posStar = find_str address ''*'';
          pos0000 = find_str address ''0.0.0.0''
      in if find_str address ''tcp://'' = 0 then
           if posStar \<noteq> npos \<or> pos0000 \<noteq> npos then
             bindR (substr address 0 6) (\<lambda>scheme.
             bindR (substr_from address posPort) (\<lambda>port.
               Inr (scheme @ peerIP @ port)))
           else Inr address
         else Inr address)"

definition contains :: "string \<Rightarrow> string \<Rightarrow> bool" where
  "contains t s \<longleftrightarrow> find_opt t s \<noteq> None"

lemma contains_iff: "contains t s \<longleftrightarrow> (\<exists>u v. s = u @ t @ v)"
  by (simp only: contains_def find_opt_None not_not)

lemma find_str_contains: "fits s \<Longrightarrow> find_str s t \<noteq> npos \<longleftrightarrow> contains t s"
  using find_str_npos [of s t] contains_iff [of t s] by blast

lemma MakeAddress_cases:
  assumes "fits address"
  shows "MakeAddress address ip =
    (if starts_with ''tcp://'' address \<and> (contains ''*'' address \<or> contains ''0.0.0.0'' address)
     then Inr (''tcp://'' @ ip @ drop (find_last_of address '':'') address)
     else Inr address)"
proof (cases "starts_with ''tcp://'' address")
  case True
  then obtain rest where a: "address = ''tcp://'' @ rest" by (auto simp: starts_with_Cons)
  then have "list_ex (\<lambda>c. c \<in> set '':'') address" by simp
  then have "find_last_of address '':'' < length address"
    unfolding find_last_of_def by (rule last_index_le)
  then have sub: "substr_from address (find_last_of address '':'') =
      Inr (drop (find_last_of address '':'') address)"
    by (intro substr_from_Inr assms) (rule less_imp_le)
  have "take 6 address = ''tcp://''" using a by simp
  then have "substr address 0 6 = Inr ''tcp://''" by simp
  moreover have "find_str address ''tcp://'' = 0" using True by (simp only: find_str_0)
  ultimately show ?thesis
    using True by (simp only: MakeAddress_def Let_def find_str_contains [OF assms] sub bindR_simps
        if_True simp_thms append_assoc)
next
  case False
  then show ?thesis by (simp add: MakeAddress_def Let_def)
qed

section \<open>Channel options: ToChannelConfig\<close>

text \<open>
  The comparison \<^verbatim>\<open>res.size() < p.numSockets\<close> converts a negative number of sockets to a huge
  unsigned one: the loop then appends until memory is exhausted. \<^verbatim>\<open>p.numSockets - 1\<close>
  overflows for the least \<^verbatim>\<open>int\<close>.
\<close>

definition channel_address :: "SocketProperty \<Rightarrow> string res" where
  "channel_address p =
     (if numSockets p = - 2147483648 \<and>
         \<not> (sp_address p \<noteq> [] \<and> sp_address p \<noteq> ''unspecified'' \<and> find_str (sp_address p) '','' = npos)
      then Inl UndefinedBehaviour
      else
        let address =
              (if sp_address p \<noteq> [] \<and> sp_address p \<noteq> ''unspecified'' \<and> find_str (sp_address p) '','' = npos
               then sp_address p
               else ''unspecified'' @ concat (replicate (nat (numSockets p - 1)) '',address=unspecified''))
        in if find_str (sp_address p) '','' \<noteq> npos then
             let res = split_on (\<lambda>c. c \<in> set '','') (sp_address p)
             in if numSockets p < 0 then Inl OutOfMemory
                else Inr (join_with '',address=''
                       (res @ replicate (nat (numSockets p) - length res) ''unspecified''))
           else Inr address)"

definition ToChannelConfig :: "SocketProperty \<Rightarrow> string res" where
  "ToChannelConfig p =
     bindR (channel_address p) (\<lambda>address. Inr (
         ''name='' @ sp_name p
       @ '',type='' @ sp_type p
       @ '',method='' @ sp_method p
       @ '',address='' @ address
       @ '',transport='' @ sp_transport p
       @ '',rcvBufSize='' @ show_int (rcvBufSize p)
       @ '',sndBufSize='' @ show_int (sndBufSize p)
       @ '',rcvKernelSize='' @ show_int (rcvKernelSize p)
       @ '',sndKernelSize='' @ show_int (sndKernelSize p)
       @ '',linger='' @ show_int (linger p)
       @ '',rateLogging='' @ show_int (rateLogging p)
       @ '',portRangeMin='' @ show_int (portRangeMin p)
       @ '',portRangeMax='' @ show_int (portRangeMax p)
       @ '',autoBind='' @ show_bool (autoBind p)))"

text \<open>The addresses, one per sub-socket, that the option is meant to list.\<close>

definition channel_addresses :: "SocketProperty \<Rightarrow> string list" where
  "channel_addresses p =
     (if sp_address p = [] \<or> sp_address p = ''unspecified''
      then replicate (max 1 (nat (numSockets p))) ''unspecified''
      else if contains '','' (sp_address p)
      then (let res = split_on (\<lambda>c. c = CHR '','') (sp_address p)
            in res @ replicate (nat (numSockets p) - length res) ''unspecified'')
      else [sp_address p])"


definition opt :: "string \<Rightarrow> string \<Rightarrow> string" where "opt k v = k @ ''='' @ v"

definition channel_options :: "SocketProperty \<Rightarrow> string list" where
  "channel_options p =
     [opt ''name'' (sp_name p), opt ''type'' (sp_type p), opt ''method'' (sp_method p)] @
     map (opt ''address'') (channel_addresses p) @
     [opt ''transport'' (sp_transport p),
      opt ''rcvBufSize'' (show_int (rcvBufSize p)),
      opt ''sndBufSize'' (show_int (sndBufSize p)),
      opt ''rcvKernelSize'' (show_int (rcvKernelSize p)),
      opt ''sndKernelSize'' (show_int (sndKernelSize p)),
      opt ''linger'' (show_int (linger p)),
      opt ''rateLogging'' (show_int (rateLogging p)),
      opt ''portRangeMin'' (show_int (portRangeMin p)),
      opt ''portRangeMax'' (show_int (portRangeMax p)),
      opt ''autoBind'' (show_bool (autoBind p))]"

lemma join_map_prefix:
  "xs \<noteq> [] \<Longrightarrow> join_with sep (map (\<lambda>a. pre @ a) xs) = pre @ join_with (sep @ pre) xs"
proof (induction xs rule: list_nonempty_induct)
  case (cons x xs)
  then show ?case by (cases xs) simp_all
qed simp

lemma join_replicate: "join_with sep (replicate (Suc n) x) = x @ concat (replicate n (sep @ x))"
  by (induction n) (simp_all)

lemma contains_char: "contains [c] s \<longleftrightarrow> c \<in> set s"
  by (auto simp: contains_iff in_set_conv_decomp)

lemma channel_addresses_nonempty [simp]: "channel_addresses p \<noteq> []"
  by (auto simp: channel_addresses_def Let_def)

lemma unspecified_join:
  "''unspecified'' @ concat (replicate (nat (n - 1)) '',address=unspecified'') =
     join_with '',address='' (replicate (max 1 (nat n)) ''unspecified'')"
proof -
  have "max 1 (nat n) = Suc (nat (n - 1))" by linarith
  then show ?thesis by (simp only: join_replicate) simp
qed

lemma channel_address_ok:
  assumes "fits (sp_address p)" and "0 \<le> numSockets p"
  shows "channel_address p = Inr (join_with '',address='' (channel_addresses p))"
proof -
  have [simp]: "find_str (sp_address p) '','' = npos \<longleftrightarrow> \<not> contains '','' (sp_address p)"
    using find_str_contains [OF assms(1)] by blast
  have [simp]: "\<not> contains '','' ''unspecified''" "\<not> contains '','' []"
    by (simp_all add: contains_char)
  have [simp]: "(\<lambda>c. c \<in> set '','') = (\<lambda>c. c = CHR '','')" by auto
  show ?thesis
    using assms(2) unfolding channel_address_def channel_addresses_def Let_def unspecified_join
    by auto
qed

lemma opt_append:
  "opt ''name'' v @ w = ''name='' @ v @ w"
  "'','' @ opt ''type'' v @ w = '',type='' @ v @ w"
  "'','' @ opt ''method'' v @ w = '',method='' @ v @ w"
  "'','' @ opt ''transport'' v @ w = '',transport='' @ v @ w"
  "'','' @ opt ''rcvBufSize'' v @ w = '',rcvBufSize='' @ v @ w"
  "'','' @ opt ''sndBufSize'' v @ w = '',sndBufSize='' @ v @ w"
  "'','' @ opt ''rcvKernelSize'' v @ w = '',rcvKernelSize='' @ v @ w"
  "'','' @ opt ''sndKernelSize'' v @ w = '',sndKernelSize='' @ v @ w"
  "'','' @ opt ''linger'' v @ w = '',linger='' @ v @ w"
  "'','' @ opt ''rateLogging'' v @ w = '',rateLogging='' @ v @ w"
  "'','' @ opt ''portRangeMin'' v @ w = '',portRangeMin='' @ v @ w"
  "'','' @ opt ''portRangeMax'' v @ w = '',portRangeMax='' @ v @ w"
  "'','' @ opt ''autoBind'' v = '',autoBind='' @ v"
  "'','' @ ''address='' @ w = '',address='' @ w"
  by (simp_all add: opt_def)

lemma ToChannelConfig_join:
  assumes "fits (sp_address p)" and "0 \<le> numSockets p"
  shows "ToChannelConfig p = Inr (join_with '','' (channel_options p))"
proof -
  have "opt ''address'' = (\<lambda>a. ''address='' @ a)" by (simp add: opt_def fun_eq_iff)
  then have a: "join_with '','' (map (opt ''address'') (channel_addresses p)) =
      ''address='' @ join_with ('','' @ ''address='') (channel_addresses p)"
    by (simp only:) (rule join_map_prefix, simp)
  have sep: "'','' @ ''address='' = '',address=''" by simp
  have ne: "map (opt ''address'') (channel_addresses p) \<noteq> []" by simp
  show ?thesis
    unfolding ToChannelConfig_def channel_options_def channel_address_ok [OF assms] bindR_simps
    by (simp only: join_with_append join_with.simps append_assoc list.distinct ne a sep opt_append
        append_is_Nil_conv simp_thms)
qed

lemma comma_free_show [simp]: "CHR '','' \<notin> set (show_int i)" "CHR '','' \<notin> set (show_bool b)"
  by (auto simp: show_bool_def is_digit_def dest: show_int_chars)

lemma channel_addresses_comma_free:
  assumes "a \<in> set (channel_addresses p)"
  shows "CHR '','' \<notin> set a"
proof -
  have "\<And>w. w \<in> set (split_on (\<lambda>c. c = CHR '','') (sp_address p)) \<Longrightarrow> CHR '','' \<notin> set w"
    using split_on_tokens [of _ "\<lambda>c. c = CHR '',''"] by (auto simp: list_ex_iff)
  then show ?thesis
    using assms by (auto simp: channel_addresses_def Let_def contains_char split: if_splits)
qed

lemma channel_options_split:
  assumes "list_all (plain (CHR '','')) [sp_name p, sp_type p, sp_method p, sp_transport p]"
  shows "split_on (\<lambda>c. c = CHR '','') (join_with '','' (channel_options p)) = channel_options p"
proof (rule split_join)
  have free: "CHR '','' \<notin> set (opt k v) \<longleftrightarrow> CHR '','' \<notin> set k \<and> CHR '','' \<notin> set v" for k v
    by (simp add: opt_def)
  have "list_all (\<lambda>x. CHR '','' \<notin> set x) (map (opt ''address'') (channel_addresses p))"
    by (auto simp: list_all_iff free dest: channel_addresses_comma_free)
  then have "list_all (\<lambda>x. CHR '','' \<notin> set x) (channel_options p)"
    using assms unfolding channel_options_def list_all_append
    by (simp add: plain_def free)
  then show "\<And>x. x \<in> set (channel_options p) \<Longrightarrow> \<not> list_ex (\<lambda>c. c = CHR '','') x"
    by (auto simp: list_all_iff list_ex_iff)
qed (simp_all add: channel_options_def)

section \<open>Properties\<close>

text \<open>
  What \<^verbatim>\<open>WriteChannel\<close> stores in the registry for a channel is read back by
  \<^verbatim>\<open>ToSocketProperty\<close> as the same socket property, for all 32-bit values of its integer fields
  and in whatever order the registry returns the fields of the hash.
\<close>

theorem socket_property_roundtrip:
  assumes "sp_int32 sp" and "mset c = mset (channel_fields sp)"
  shows "ToSocketProperty c = Inr sp"
proof (rule read_channel_fields [OF assms(1)])
  have "mset (map fst c) = mset (map fst (channel_fields sp))" using assms(2) by simp
  then show d: "distinct (map fst c)"
    using distinct_channel_fields by (metis mset_eq_imp_distinct_iff)
  show "map_of c = map_of (channel_fields sp)"
    by (rule map_of_inject_set [OF d distinct_channel_fields, THEN iffD2]) (rule mset_eq_setD [OF assms(2)])
qed

theorem socket_property_roundtrip_witness:
  "ToSocketProperty (rev (channel_fields (default_SocketProperty\<lparr>sp_name := ''in'', numSockets := 2\<rparr>))) =
     Inr (default_SocketProperty\<lparr>sp_name := ''in'', numSockets := 2\<rparr>)"
  by (rule socket_property_roundtrip)
     (simp_all add: sp_int32_def int32_def default_SocketProperty_def)

text \<open>
  \<^verbatim>\<open>ToSocketProperty\<close> throws exactly when some integer field of the hash holds a text that
  \<^verbatim>\<open>std::stoi\<close> rejects, whatever the other fields and the unknown fields hold.
\<close>

theorem to_socket_property_throws:
  "(\<exists>e. ToSocketProperty c = Inl e) =
     (\<exists>(k, v)\<in>set c. k \<in> set int_fields \<and> (stoi v = Inl InvalidArgument \<or> stoi v = Inl OutOfRange))"
proof -
  have stoi_Inl: "(\<nexists>i. stoi v = Inr i) \<longleftrightarrow> stoi v = Inl InvalidArgument \<or> stoi v = Inl OutOfRange" for v
    by (auto simp: stoi_def split: option.splits)
  have "(\<exists>e. ToSocketProperty c = Inl e) \<longleftrightarrow> \<not> (\<exists>r. read_fields default_SocketProperty c = Inr r)"
    by (cases "read_fields default_SocketProperty c") (simp_all add: ToSocketProperty_def)
  then show ?thesis
    by (auto simp: read_fields_ok stoi_Inl [symmetric])
qed

text \<open>
  For a non-negative number of sockets and names without a comma, \<^verbatim>\<open>ToChannelConfig\<close>
  produces an option that, cut at the commas, lists the parameters in the fixed order with one
  \<^verbatim>\<open>address=\<close> entry per sub-socket: \<^verbatim>\<open>unspecified\<close> for every socket without an address, the
  listed addresses padded with \<^verbatim>\<open>unspecified\<close>, or the single address.
\<close>

theorem channel_config_lists_addresses:
  assumes "fits (sp_address p)" and "0 \<le> numSockets p"
    and "list_all (plain (CHR '','')) [sp_name p, sp_type p, sp_method p, sp_transport p]"
  shows "\<exists>s. ToChannelConfig p = Inr s \<and> split_on (\<lambda>c. c = CHR '','') s =
     [opt ''name'' (sp_name p), opt ''type'' (sp_type p), opt ''method'' (sp_method p)] @
     map (opt ''address'') (channel_addresses p) @
     [opt ''transport'' (sp_transport p),
      opt ''rcvBufSize'' (show_int (rcvBufSize p)), opt ''sndBufSize'' (show_int (sndBufSize p)),
      opt ''rcvKernelSize'' (show_int (rcvKernelSize p)), opt ''sndKernelSize'' (show_int (sndKernelSize p)),
      opt ''linger'' (show_int (linger p)), opt ''rateLogging'' (show_int (rateLogging p)),
      opt ''portRangeMin'' (show_int (portRangeMin p)), opt ''portRangeMax'' (show_int (portRangeMax p)),
      opt ''autoBind'' (show_bool (autoBind p))]"
  using ToChannelConfig_join [OF assms(1,2)] channel_options_split [OF assms(3)]
  unfolding channel_options_def by blast

definition sample_channel :: SocketProperty where
  "sample_channel = default_SocketProperty\<lparr>sp_name := ''out'', sp_type := ''push'', sp_method := ''bind'',
     sp_address := ''tcp://*:1,tcp://*:2'', numSockets := 3\<rparr>"

theorem channel_config_lists_addresses_witness:
  "\<exists>s. ToChannelConfig sample_channel = Inr s \<and>
     set (map (opt ''address'') [''tcp://*:1'', ''tcp://*:2'', ''unspecified'']) \<subseteq> set (split_on (\<lambda>c. c = CHR '','') s)"
proof -
  have addrs: "channel_addresses sample_channel = [''tcp://*:1'', ''tcp://*:2'', ''unspecified'']"
    by (simp add: channel_addresses_def sample_channel_def default_SocketProperty_def contains_char eval_nat_numeral)
  have "fits (sp_address sample_channel)" "0 \<le> numSockets sample_channel"
    "list_all (plain (CHR '','')) [sp_name sample_channel, sp_type sample_channel, sp_method sample_channel,
       sp_transport sample_channel]"
    by (simp_all add: sample_channel_def default_SocketProperty_def fits_def npos_def size_max_def plain_def)
  from channel_config_lists_addresses [OF this] show ?thesis
    unfolding addrs by fastforce
qed

text \<open>
  An address that lists several sub-sockets together with a negative number of sockets (which
  the registry can hold, since \<^verbatim>\<open>numSockets\<close> is read with \<^verbatim>\<open>std::stoi\<close>) makes
  \<^verbatim>\<open>ToChannelConfig\<close> append until memory is exhausted, because the comparison with the size of
  the list is made on unsigned numbers.
\<close>

theorem channel_config_negative_sockets:
  assumes "fits (sp_address p)" and "CHR '','' \<in> set (sp_address p)"
    and "numSockets p < 0" and "numSockets p \<noteq> - 2147483648"
  shows "ToChannelConfig p = Inl OutOfMemory"
proof -
  have "find_str (sp_address p) '','' \<noteq> npos"
    using find_str_contains [OF assms(1)] assms(2) by (simp add: contains_char)
  then have "channel_address p = Inl OutOfMemory"
    using assms(3,4) by (simp add: channel_address_def Let_def)
  then show ?thesis by (simp add: ToChannelConfig_def)
qed

theorem channel_config_negative_sockets_witness:
  "ToChannelConfig (sample_channel\<lparr>numSockets := -1\<rparr>) = Inl OutOfMemory"
  by (rule channel_config_negative_sockets)
     (simp_all add: sample_channel_def default_SocketProperty_def fits_def npos_def size_max_def)

text \<open>
  \<^verbatim>\<open>MakeAddress\<close> never throws; on a TCP address with a wildcard host it puts the given host
  between the scheme and the port, and every other address is returned as it is.
\<close>

theorem make_address_substitutes:
  assumes "fits (''tcp://'' @ host @ '':'' @ port)" and "CHR '':'' \<notin> set port"
  shows "MakeAddress (''tcp://'' @ host @ '':'' @ port) ip =
    (if contains ''*'' (host @ '':'' @ port) \<or> contains ''0.0.0.0'' (''tcp://'' @ host @ '':'' @ port)
     then Inr (''tcp://'' @ ip @ '':'' @ port)
     else Inr (''tcp://'' @ host @ '':'' @ port))"
proof -
  let ?a = "''tcp://'' @ host @ '':'' @ port"
  have "find_last_of ((''tcp://'' @ host) @ CHR '':'' # port) '':'' = length (''tcp://'' @ host)"
    unfolding find_last_of_def using assms(2) by (intro last_index_append) (auto simp: list_ex_iff)
  then have "drop (find_last_of ?a '':'') ?a = '':'' @ port" by simp
  moreover have "contains ''*'' ?a \<longleftrightarrow> contains ''*'' (host @ '':'' @ port)"
    by (simp add: contains_char)
  moreover have "starts_with ''tcp://'' ?a" by (rule starts_with_append)
  ultimately show ?thesis
    unfolding MakeAddress_cases [OF assms(1)] by (simp only: simp_thms if_True)
qed

theorem make_address_substitutes_witness:
  "MakeAddress ''tcp://*:5000'' ''10.0.0.7'' = Inr ''tcp://10.0.0.7:5000''"
  using make_address_substitutes [of "''*''" "''5000''" "''10.0.0.7''"]
  by (simp add: fits_def npos_def size_max_def contains_char)

end
