(* ===== verification/Links.thy ===== *)
theory Links
  imports SocketConfig
begin

text \<open>
  The endpoints and links of the topology in the registry (\<^verbatim>\<open>plugins/TopologyConfig.cxx\<close>:
  \<open>ReadEndpoints\<close>, \<open>ReadEndpointProperty\<close>, \<open>ReadLinks\<close>, \<open>ReadLinkProperty\<close> and the loop of
  \<open>Initialize\<close> that collects the links). A link is the key
  \<^verbatim>\<open>...:topology:link:service0:channel0,service1:channel1\<close>.
\<close>

definition topology_Prefix :: string where "topology_Prefix = ''topology''"
definition EndpointPrefix :: string where "EndpointPrefix = ''endpoint''"
definition LinkPrefix :: string where "LinkPrefix = ''link''"
definition ChannelPrefix :: string where "ChannelPrefix = ''channel''"
definition PeerPrefix :: string where "PeerPrefix = ''peer''"
definition SocketPrefix :: string where "SocketPrefix = ''socket''"

lemmas topology_constants =
  topology_Prefix_def EndpointPrefix_def LinkPrefix_def ChannelPrefix_def PeerPrefix_def SocketPrefix_def

section \<open>Reading a link\<close>

text \<open>
  The positions are \<^verbatim>\<open>size_t\<close> values: where no separator is found, \<^verbatim>\<open>firstSep + 1\<close> is 0.
\<close>

definition parse_link :: "string \<Rightarrow> string \<Rightarrow> (string \<times> string \<times> string \<times> string) res" where
  "parse_link fSeparator socketPairName =
     (let comma = find_first_of socketPairName '','';
          firstSep = find_last_of_upto socketPairName fSeparator comma;
          secondSep = find_last_of socketPairName fSeparator
      in bindR (substr socketPairName 0 firstSep) (\<lambda>serviceL.
         bindR (substr socketPairName (sz_add firstSep 1) (sz_sub comma (sz_add firstSep 1))) (\<lambda>channelL.
         bindR (substr socketPairName (sz_add comma 1) (sz_sub secondSep (sz_add comma 1))) (\<lambda>serviceR.
         bindR (substr_from socketPairName (sz_add secondSep 1)) (\<lambda>channelR.
           Inr (serviceL, channelL, serviceR, channelR))))))"

text \<open>The two conditionals of the source, in its order: the second one assigns all four fields.\<close>

definition empty_LinkProperty :: LinkProperty where
  "empty_LinkProperty = \<lparr>myService = [], myChannel = [], peerService = [], peerChannel = [], lp_options = []\<rparr>"

definition orient_link :: "string \<Rightarrow> string \<times> string \<times> string \<times> string \<Rightarrow> LinkProperty" where
  "orient_link fServiceName parts =
     (case parts of (serviceL, channelL, serviceR, channelR) \<Rightarrow>
        let lp = empty_LinkProperty;
            lp = (if serviceL = serviceR then
                    (if channelL < channelR
                     then lp\<lparr>myService := serviceL, peerService := serviceR,
                             myChannel := channelL, peerChannel := channelR\<rparr>
                     else lp\<lparr>myService := serviceL, peerService := serviceR,
                             myChannel := channelR, peerChannel := channelL\<rparr>)
                  else lp)
        in if serviceL = fServiceName
           then lp\<lparr>myService := serviceL, myChannel := channelL,
                   peerService := serviceR, peerChannel := channelR\<rparr>
           else lp\<lparr>myService := serviceR, myChannel := channelR,
                   peerService := serviceL, peerChannel := channelL\<rparr>)"

definition ReadLinkProperty ::
  "'w platform \<Rightarrow> 'w \<Rightarrow> string \<Rightarrow> string \<Rightarrow> string \<Rightarrow> string \<Rightarrow> LinkProperty res" where
  "ReadLinkProperty pf w fTopPrefix fServiceName fSeparator key =
     (let val = rd_get pf w key;
          prefix = join [fTopPrefix, topology_Prefix, LinkPrefix, []] fSeparator
      in bindR (substr_from key (length prefix)) (\<lambda>socketPairName.
         bindR (parse_link fSeparator socketPairName) (\<lambda>parts.
           let lp = orient_link fServiceName parts
           in case val of None \<Rightarrow> Inl UndefinedBehaviour
              | Some options \<Rightarrow> Inr (lp\<lparr>lp_options := options\<rparr>))))"

text \<open>The name that \<open>parse_link\<close> takes apart.\<close>

definition link_name :: "char \<Rightarrow> string \<times> string \<times> string \<times> string \<Rightarrow> string" where
  "link_name c parts =
     (case parts of (serviceL, channelL, serviceR, channelR) \<Rightarrow>
        serviceL @ [c] @ channelL @ '','' @ serviceR @ [c] @ channelR)"

definition link_part :: "char \<Rightarrow> string \<Rightarrow> bool" where
  "link_part c s \<longleftrightarrow> plain c s \<and> plain (CHR '','') s"

lemma parse_link_name:
  assumes parts: "link_part c sL" "link_part c cL" "link_part c sR" "link_part c cR"
    and c: "c \<noteq> CHR '',''" and fits: "fits (link_name c (sL, cL, sR, cR))"
  shows "parse_link [c] (link_name c (sL, cL, sR, cR)) = Inr (sL, cL, sR, cR)"
proof -
  let ?s = "link_name c (sL, cL, sR, cR)"
  let ?comma = "length sL + 1 + length cL"
  have l: "length ?s = length sL + length cL + length sR + length cR + 3"
    by (simp add: link_name_def)
  have small: "length ?s < size_max" using fits by (simp add: fits_def npos_def)
  have comma: "find_first_of ?s '','' = ?comma"
  proof -
    have "find_first_of ((sL @ [c] @ cL) @ CHR '','' # sR @ [c] @ cR) '','' = length (sL @ [c] @ cL)"
      unfolding find_first_of_def using parts c
      by (intro first_index_append) (auto simp: list_ex_iff link_part_def plain_def)
    then show ?thesis by (simp add: link_name_def)
  qed
  have first: "find_last_of_upto ?s [c] ?comma = length sL"
  proof -
    have "take (Suc ?comma) ?s = sL @ c # cL @ '',''" by (simp add: link_name_def)
    moreover have "last_index (\<lambda>d. d \<in> set [c]) (sL @ c # cL @ '','') = length sL"
      using parts c by (intro last_index_append) (auto simp: list_ex_iff link_part_def plain_def)
    ultimately show ?thesis by (simp only: find_last_of_upto_def)
  qed
  have second: "find_last_of ?s [c] = ?comma + 1 + length sR"
  proof -
    have "find_last_of ((sL @ [c] @ cL @ '','' @ sR) @ c # cR) [c] = length (sL @ [c] @ cL @ '','' @ sR)"
      unfolding find_last_of_def using parts
      by (intro last_index_append) (auto simp: list_ex_iff link_part_def plain_def)
    then show ?thesis by (simp add: link_name_def)
  qed
  have pos: "sz_add (length sL) 1 = length sL + 1" "sz_sub ?comma (length sL + 1) = length cL"
    "sz_add ?comma 1 = ?comma + 1" "sz_sub (?comma + 1 + length sR) (?comma + 1) = length sR"
    "sz_add (?comma + 1 + length sR) 1 = ?comma + length sR + 2"
    using l small by simp_all
  have sub: "substr ?s 0 (length sL) = Inr sL"
    "substr ?s (length sL + 1) (length cL) = Inr cL"
    "substr ?s (?comma + 1) (length sR) = Inr sR"
    by (simp_all add: substr_def link_name_def)
  let ?A = "sL @ [c] @ cL @ '','' @ sR @ [c]"
  have s: "?s = ?A @ cR" by (simp add: link_name_def)
  have len: "?comma + length sR + 2 = length ?A" by simp
  have "fits (?A @ cR)" using fits by (simp only: s)
  then have last: "substr_from ?s (?comma + length sR + 2) = Inr cR"
    unfolding s len by (rule substr_from_append)
  show ?thesis
    unfolding parse_link_def Let_def comma first second pos sub last bindR_simps ..
qed


section \<open>Collecting the endpoints and the links\<close>

definition ReadEndpoints :: "'w platform \<Rightarrow> 'w \<Rightarrow> string \<Rightarrow> string \<Rightarrow> string \<Rightarrow> string list res" where
  "ReadEndpoints pf w fTopPrefix fServiceName fSeparator =
     scan_parts pf w [fTopPrefix, topology_Prefix, EndpointPrefix, fServiceName, ''*''] fSeparator"

definition ReadEndpointProperty ::
  "'w platform \<Rightarrow> 'w \<Rightarrow> string \<Rightarrow> string \<Rightarrow> string \<Rightarrow> string \<Rightarrow> SocketProperty res" where
  "ReadEndpointProperty pf w fTopPrefix fServiceName fSeparator key =
     (let prefix = join [fTopPrefix, topology_Prefix, EndpointPrefix, fServiceName, []] fSeparator
      in bindR (substr_from key (length prefix)) (\<lambda>channelName.
         bindR (ToSocketProperty (rd_hgetall pf w key)) (\<lambda>sp.
           Inr (sp\<lparr>sp_name := channelName\<rparr>))))"

text \<open>The first pattern has no separator after the name of the service.\<close>

definition ReadLinks :: "'w platform \<Rightarrow> 'w \<Rightarrow> string \<Rightarrow> string \<Rightarrow> string \<Rightarrow> string list res" where
  "ReadLinks pf w fTopPrefix fServiceName fSeparator =
     bindR (scan_parts pf w [fTopPrefix, topology_Prefix, LinkPrefix, fServiceName @ ''*,*'', ''*''] fSeparator)
       (\<lambda>keys. bindR (scan_parts pf w
           [fTopPrefix, topology_Prefix, LinkPrefix, ''*'', ''*,'' @ fServiceName, ''*''] fSeparator)
         (\<lambda>more. Inr (fold List.insert more keys)))"

definition link_key :: "string \<Rightarrow> LinkProperty \<Rightarrow> string" where
  "link_key fSeparator lp =
     myService lp @ fSeparator @ myChannel lp @ '','' @ peerService lp @ fSeparator @ peerChannel lp"

definition add_link :: "string \<Rightarrow> LinkProperty \<Rightarrow> LinkProperty smap \<Rightarrow> LinkProperty smap" where
  "add_link fSeparator lp fLinks =
     (let kk = link_key fSeparator lp
      in case map_of fLinks kk of
           Some l \<Rightarrow> smap_put kk (l\<lparr>lp_options := lp_options l @ '','' @ lp_options lp\<rparr>) fLinks
         | None \<Rightarrow> smap_put kk lp fLinks)"

lemma smap_wf_add_link: "smap_wf m \<Longrightarrow> smap_wf (add_link sep lp m)"
  by (auto simp: add_link_def Let_def split: option.split)

lemma map_of_add_link_other:
  "k \<noteq> link_key sep lp \<Longrightarrow> map_of (add_link sep lp m) k = map_of m k"
  by (auto simp: add_link_def Let_def split: option.split)

section \<open>Properties\<close>

definition link_registry_key :: "string \<Rightarrow> char \<Rightarrow> string \<times> string \<times> string \<times> string \<Rightarrow> string" where
  "link_registry_key fTopPrefix c parts = join [fTopPrefix, topology_Prefix, LinkPrefix, link_name c parts] [c]"

text \<open>
  A link key \<^verbatim>\<open>...:link:sL:cL,sR:cR\<close> whose parts contain neither the separator nor a comma
  is read back as these parts, seen from the reading service: its own end is \<^verbatim>\<open>my\<close>, the other
  end is \<^verbatim>\<open>peer\<close>, and the value of the key is the options.
\<close>

theorem read_link_property:
  assumes "link_part c sL" "link_part c cL" "link_part c sR" "link_part c cR" and "c \<noteq> CHR '',''"
    and "fits (link_registry_key tp c (sL, cL, sR, cR))"
    and "rd_get pf w (link_registry_key tp c (sL, cL, sR, cR)) = Some options"
  shows "ReadLinkProperty pf w tp fServiceName [c] (link_registry_key tp c (sL, cL, sR, cR)) =
    Inr (if sL = fServiceName
         then \<lparr>myService = sL, myChannel = cL, peerService = sR, peerChannel = cR, lp_options = options\<rparr>
         else \<lparr>myService = sR, myChannel = cR, peerService = sL, peerChannel = cL, lp_options = options\<rparr>)"
proof -
  let ?pre = "join [tp, topology_Prefix, LinkPrefix, []] [c]"
  let ?name = "link_name c (sL, cL, sR, cR)"
  have key: "link_registry_key tp c (sL, cL, sR, cR) = ?pre @ ?name"
    by (simp add: link_registry_key_def join_def)
  then have "fits ?name" and f: "fits (?pre @ ?name)" using assms(6) by (auto simp: fits_def)
  then have p: "parse_link [c] ?name = Inr (sL, cL, sR, cR)"
    using assms by (intro parse_link_name)
  have sub: "substr_from (?pre @ ?name) (length ?pre) = Inr ?name"
    by (rule substr_from_append [OF f])
  show ?thesis
    using assms(7) unfolding key ReadLinkProperty_def Let_def sub bindR_simps p
    by (simp add: orient_link_def empty_LinkProperty_def Let_def)
qed

theorem read_link_property_witness:
  "ReadLinkProperty ref_platform
     \<lparr>store = [(''daq_service:topology:link:Sampler:out,Sink:in'', RStr ''opt'')], props = [],
      canceled = False, pauses = 0\<rparr>
     TopPrefix ''Sink'' '':'' ''daq_service:topology:link:Sampler:out,Sink:in'' =
   Inr \<lparr>myService = ''Sink'', myChannel = ''in'', peerService = ''Sampler'', peerChannel = ''out'',
        lp_options = ''opt''\<rparr>"
  using read_link_property [of "CHR '':''" "''Sampler''" "''out''" "''Sink''" "''in''" TopPrefix ref_platform
      "\<lparr>store = [(''daq_service:topology:link:Sampler:out,Sink:in'', RStr ''opt'')], props = [],
      canceled = False, pauses = 0\<rparr>" "''opt''" "''Sink''"]
  by (simp add: link_part_def plain_def link_registry_key_def join_def link_name_def topology_constants
      TopPrefix_def fits_def npos_def size_max_def ref_sel)

text \<open>
  The first conditional of \<^verbatim>\<open>ReadLinkProperty\<close> orders the two channels of a link between two
  channels of one service, so that both spellings of the link become one; its result is
  overwritten by the second conditional, and the two spellings stay different.
\<close>

theorem self_link_not_canonical:
  "orient_link s (s, a, s, b) = orient_link s (s, b, s, a) \<longleftrightarrow> a = b"
  by (auto simp: orient_link_def empty_LinkProperty_def Let_def)

text \<open>
  A link that is collected a second time, as every further \<^verbatim>\<open>INIT DEVICE\<close> does (\<^verbatim>\<open>Reset\<close> does
  not clear \<^verbatim>\<open>fLinks\<close>), keeps its ends and gets its options appended to themselves.
\<close>

theorem add_link_twice_duplicates_options:
  assumes "map_of m (link_key sep lp) = None"
  shows "map_of (add_link sep lp (add_link sep lp m)) (link_key sep lp) =
    Some (lp\<lparr>lp_options := lp_options lp @ '','' @ lp_options lp\<rparr>)"
  using assms by (simp add: add_link_def Let_def)

theorem add_link_twice_duplicates_options_witness:
  "map_of (add_link '':'' \<lparr>myService = ''a'', myChannel = ''x'', peerService = ''b'', peerChannel = ''y'',
       lp_options = ''o''\<rparr> (add_link '':'' \<lparr>myService = ''a'', myChannel = ''x'', peerService = ''b'',
       peerChannel = ''y'', lp_options = ''o''\<rparr> [])) ''a:x,b:y'' =
     Some \<lparr>myService = ''a'', myChannel = ''x'', peerService = ''b'', peerChannel = ''y'', lp_options = ''o,o''\<rparr>"
  using add_link_twice_duplicates_options [of "[]" "'':''" "\<lparr>myService = ''a'', myChannel = ''x'',
      peerService = ''b'', peerChannel = ''y'', lp_options = ''o''\<rparr>"]
  by (simp add: link_key_def)

end
