(* ===== verification/Topology.thy ===== *)
theory Topology
  imports Links
begin

text \<open>
  The state of \<^verbatim>\<open>TopologyConfig\<close> (\<^verbatim>\<open>plugins/TopologyConfig.h\<close>) and the operations of
  \<^verbatim>\<open>plugins/TopologyConfig.cxx\<close> that configure the channels of the device and publish them in
  the registry: \<open>Initialize\<close>, \<open>WriteChannel\<close>, \<open>WriteAddress\<close>, \<open>WriteBindAddress\<close>,
  \<open>WriteConnectAddress\<close>, \<open>ResetTtl\<close>, \<open>Unregister\<close> and \<open>Reset\<close>.
\<close>

section \<open>State\<close>

text \<open>
  The fields of the class, in its order; \<open>fHostIp\<close> is the address that the plugin keeps in its
  health record, \<open>world\<close> the state of the services.
\<close>

record 'w topo =
  fServiceName :: string
  fId :: string
  fSeparator :: string
  fTopPrefix :: string
  fMaxTtl :: int
  fEnableUds :: bool
  fConnectConfig :: string
  fMaxRetryToResolveAddress :: int
  fDefaultChannelProperties :: "string smap"
  fCustomChannelProperties :: "string smap"
  fBindChannels :: "SocketProperty smap"
  fConnectChannels :: "SocketProperty smap"
  fLinks :: "LinkProperty smap"
  fRegisteredKeys :: "string list"
  fHostIp :: string
  world :: 'w

definition on_world :: "('w \<Rightarrow> 'w) \<Rightarrow> ('w topo, unit) opn" where
  "on_world f = modify (\<lambda>t. t\<lparr>world := f (world t)\<rparr>)"

definition my_key :: "'w topo \<Rightarrow> string list \<Rightarrow> string" where
  "my_key t parts = join ([fTopPrefix t, fServiceName t, fId t] @ parts) (fSeparator t)"

section \<open>Publishing a channel: WriteChannel\<close>

definition WriteChannel :: "'w platform \<Rightarrow> SocketProperty \<Rightarrow> string list \<Rightarrow> ('w topo, unit) opn" where
  "WriteChannel pf sp peers =
     (if peers = [] then ret ()
      else
        bindM (gets (\<lambda>t. (my_key t [ChannelPrefix, sp_name sp], fSeparator t, fMaxTtl t))) (\<lambda>(key, sep, ttl).
        let listKey = join [key, PeerPrefix] sep;
            pipe = [HSet key (channel_fields sp), Expire key ttl, RPush listKey peers, Expire listKey ttl]
        in seqM (on_world (pr_set pf (''n-peers:'' @ sp_name sp) (show_nat (length peers))))
          (seqM (on_world (pipe_exec pf pipe))
            (modify (\<lambda>t. t\<lparr>fRegisteredKeys := fRegisteredKeys t @ [key, listKey]\<rparr>)))))"

section \<open>Publishing the addresses: WriteAddress\<close>

text \<open>
  The loop over the sub-channels of a channel asks the property store for the properties whose
  name starts with \<^verbatim>\<open>chans.<name>.<index>\<close> and stops at the first index without any.
\<close>

partial_function (option) sub_channels ::
  "'w platform \<Rightarrow> 'w \<Rightarrow> string \<Rightarrow> nat \<Rightarrow> (string \<times> (string \<times> string) list) list option" where
  "sub_channels pf w localKeyPrefix index =
     (let localKey = localKeyPrefix @ show_nat index; chans = pr_prefix pf w localKey
      in if chans = [] then Some []
         else Option.bind (sub_channels pf w localKeyPrefix (Suc index))
                (\<lambda>rest. Some ((localKey, chans) # rest)))"

text \<open>\<^verbatim>\<open>k.substr(k.find_last_of(".") + 1)\<close> cannot throw: the position is at most the size.\<close>

definition last_component :: "string \<Rightarrow> string" where
  "last_component k = drop (sz_add (find_last_of k ''.'') 1) k"

definition socket_hash :: "SocketProperty \<Rightarrow> (string \<times> string) list \<Rightarrow> string smap" where
  "socket_hash sp chans =
     (let h = fold (\<lambda>(k, v). smap_put (last_component k) v) chans []
      in smap_put ''autoSubChannel'' (show_bool (autoSubChannel sp))
           (smap_put ''numSockets'' (show_int (numSockets sp)) h))"

definition socket_key :: "'w topo \<Rightarrow> string \<Rightarrow> string" where
  "socket_key t localKey = my_key t [SocketPrefix, localKey]"

definition write_socket_cmds :: "'w topo \<Rightarrow> SocketProperty \<Rightarrow> string \<times> (string \<times> string) list \<Rightarrow> pipeline" where
  "write_socket_cmds t sp sub =
     (case sub of (localKey, chans) \<Rightarrow>
        [HSet (socket_key t localKey) (socket_hash sp chans), Expire (socket_key t localKey) (fMaxTtl t)])"

definition local_key_prefix :: "SocketProperty \<Rightarrow> string" where
  "local_key_prefix sp = ''chans.'' @ sp_name sp @ ''.''"

definition WriteAddress ::
  "'w platform \<Rightarrow> SocketProperty smap \<Rightarrow> ('w topo \<Rightarrow> string \<Rightarrow> pipeline) \<Rightarrow> ('w topo, unit) opn" where
  "WriteAddress pf channels f =
     try_log (bindM (map_each channels (\<lambda>(name, sp).
         bindM (asks (\<lambda>t. case sub_channels pf (world t) (local_key_prefix sp) 0 of
                  None \<Rightarrow> Inl NoReturn | Some subs \<Rightarrow> Inr subs)) (\<lambda>subs.
         seqM (modify (\<lambda>t. t\<lparr>fRegisteredKeys := fRegisteredKeys t @ map (socket_key t \<circ> fst) subs\<rparr>))
           (gets (\<lambda>t. concat (map (write_socket_cmds t sp) subs) @ f t name)))))
       (\<lambda>pipes. on_world (pipe_exec pf (concat pipes))))"

definition channel_bound_cmds :: "'w topo \<Rightarrow> string \<Rightarrow> pipeline" where
  "channel_bound_cmds t name = [HSet (my_key t [ChannelPrefix, name]) [(''bound'', ''1'')]]"

definition WriteBindAddress :: "'w platform \<Rightarrow> ('w topo, unit) opn" where
  "WriteBindAddress pf =
     bindM (gets fBindChannels) (\<lambda>channels.
       if channels = [] then ret () else WriteAddress pf channels channel_bound_cmds)"

definition WriteConnectAddress :: "'w platform \<Rightarrow> ('w topo, unit) opn" where
  "WriteConnectAddress pf =
     bindM (gets fConnectChannels) (\<lambda>channels.
       if channels = [] then ret () else WriteAddress pf channels (\<lambda>_ _. []))"

section \<open>Refreshing and withdrawing\<close>

definition topo_ResetTtl :: "'w topo \<Rightarrow> pipeline \<Rightarrow> pipeline" where
  "topo_ResetTtl t pipe = pipe @ map (\<lambda>key. Expire key (fMaxTtl t)) (fRegisteredKeys t)"

definition topo_Unregister :: "'w platform \<Rightarrow> ('w topo, unit) opn" where
  "topo_Unregister pf =
     bindM (gets fRegisteredKeys) (\<lambda>keys.
       only_if (keys \<noteq> [])
         (seqM (on_world (rd_run pf (Del keys))) (modify (\<lambda>t. t\<lparr>fRegisteredKeys := []\<rparr>))))"

definition Reset :: "'w platform \<Rightarrow> ('w topo, unit) opn" where
  "Reset pf =
     seqM (modify (\<lambda>t. t\<lparr>fBindChannels := [], fConnectChannels := []\<rparr>))
    (seqM (bindM (gets fCustomChannelProperties) (\<lambda>custom. on_world (fold (\<lambda>(k, v). pr_del pf k) custom)))
    (seqM (modify (\<lambda>t. t\<lparr>fCustomChannelProperties := []\<rparr>))
          (topo_Unregister pf)))"

section \<open>Configuring the channels: Initialize\<close>

definition put_defaults :: "string smap \<Rightarrow> ('w topo, unit) opn" where
  "put_defaults properties =
     modify (\<lambda>t. t\<lparr>fDefaultChannelProperties :=
       fold (\<lambda>(k, v). smap_put k v) properties (fDefaultChannelProperties t)\<rparr>)"

definition InitializeDefaultChannelProperties :: "'w platform \<Rightarrow> ('w topo, unit) opn" where
  "InitializeDefaultChannelProperties pf =
     bindM (gets world) (\<lambda>w.
       let idForParser = (case pr_get pf w ''config-key'' of Some k \<Rightarrow> k
                          | None \<Rightarrow> (case pr_get pf w ''id'' of Some i \<Rightarrow> i | None \<Rightarrow> []))
       in only_if (idForParser \<noteq> []) (try_log
            (case pr_get pf w ''mq-config'' of
               Some config \<Rightarrow> bindM (lift_res (mq_json pf config idForParser)) put_defaults
             | None \<Rightarrow>
                 (case pr_get_list pf w ''channel-config'' of
                    Some options \<Rightarrow> bindM (lift_res (mq_subopt pf options idForParser)) put_defaults
                  | None \<Rightarrow> ret ()))))"

definition connect_option_keys :: "string list" where
  "connect_option_keys =
     [''type'', ''transport'', ''sndBufSize'', ''rcvBufSize'', ''sndKernelSize'', ''rcvKernelSize'',
      ''linger'', ''rateLogging'', ''numSockets'', ''autoSubChannel'']"

definition connect_channel :: "string \<times> ptree \<Rightarrow> SocketProperty res" where
  "connect_channel child =
     (case child of (myChannelName, pt) \<Rightarrow>
        let cont = List.map_filter (\<lambda>k. map_option (Pair k) (ptree_get pt k)) connect_option_keys
        in bindR (ToSocketProperty cont)
             (\<lambda>sp. Inr (sp\<lparr>sp_name := myChannelName, sp_method := ''connect''\<rparr>)))"

definition add_connect_channel :: "SocketProperty \<Rightarrow> ('w topo, unit) opn" where
  "add_connect_channel sp =
     modify (\<lambda>t. t\<lparr>fConnectChannels := smap_emplace (sp_name sp) sp (fConnectChannels t)\<rparr>)"

definition read_connect_config :: "'w platform \<Rightarrow> ('w topo, unit) opn" where
  "read_connect_config pf =
     bindM (gets fConnectConfig) (\<lambda>config.
       only_if (config \<noteq> [])
         (bindM (lift_res (json_read pf config)) (\<lambda>pt.
            for_each (pt_children pt) (\<lambda>child.
              bindM (lift_res (connect_channel child)) add_connect_channel))))"

definition add_endpoint :: "'w platform \<Rightarrow> string \<Rightarrow> ('w topo, unit) opn" where
  "add_endpoint pf k =
     bindM (asks (\<lambda>t. ReadEndpointProperty pf (world t) (fTopPrefix t) (fServiceName t) (fSeparator t) k)) (\<lambda>sp.
       if sp_method sp = ''bind''
       then modify (\<lambda>t. t\<lparr>fBindChannels := smap_emplace (sp_name sp) sp (fBindChannels t)\<rparr>)
       else if sp_method sp = ''connect'' then add_connect_channel sp
       else ret ())"

definition collect_link :: "'w platform \<Rightarrow> string \<Rightarrow> ('w topo, unit) opn" where
  "collect_link pf k =
     bindM (asks (\<lambda>t. ReadLinkProperty pf (world t) (fTopPrefix t) (fServiceName t) (fSeparator t) k)) (\<lambda>lp.
       modify (\<lambda>t. t\<lparr>fLinks := add_link (fSeparator t) lp (fLinks t)\<rparr>))"

subsection \<open>The peers of a channel\<close>

text \<open>\<^verbatim>\<open>a.substr(0, a.find_last_of(sep))\<close>: a presence key without its last part.\<close>

definition instance_key :: "string \<Rightarrow> string \<Rightarrow> string" where
  "instance_key sep a = take (find_last_of a sep) a"

text \<open>\<^verbatim>\<open>int += size_t\<close>: the sum is reduced to 32 bits.\<close>

definition add_size :: "int \<Rightarrow> nat \<Rightarrow> int" where
  "add_size i n = signed_take_bit 31 (i + int n)"

definition link_concerns :: "LinkProperty \<Rightarrow> string \<Rightarrow> bool" where
  "link_concerns l name \<longleftrightarrow> \<not> (myService l \<noteq> peerService l \<and> myChannel l \<noteq> name)"

definition link_far_end :: "LinkProperty \<Rightarrow> string \<Rightarrow> string \<times> string" where
  "link_far_end l name =
     (let useL = (myService l = peerService l \<and> peerChannel l = name)
      in (if useL then myService l else peerService l, if useL then myChannel l else peerChannel l))"

fun link_peers ::
  "'w platform \<Rightarrow> 'w topo \<Rightarrow> LinkProperty smap \<Rightarrow> SocketProperty \<Rightarrow> string list \<Rightarrow> (SocketProperty \<times> string list) res" where
  "link_peers pf t [] sp peers = Inr (sp, peers)"
| "link_peers pf t ((pairName, l) # ls) sp peers =
     (if \<not> link_concerns l (sp_name sp) then link_peers pf t ls sp peers
      else
        let (peerService, peerChannel) = link_far_end l (sp_name sp)
        in bindR (scan_parts pf (world t) [fTopPrefix t, peerService, ''*'', PresencePrefix] (fSeparator t)) (\<lambda>keys.
             link_peers pf t ls
               (if autoSubChannel sp then sp\<lparr>numSockets := add_size (numSockets sp) (length keys)\<rparr> else sp)
               (peers @ map (\<lambda>a. join [instance_key (fSeparator t) a, ChannelPrefix, peerChannel] (fSeparator t)) keys)))"

definition ReadPeerIP :: "'w platform \<Rightarrow> 'w \<Rightarrow> string \<Rightarrow> string \<Rightarrow> string" where
  "ReadPeerIP pf w sep peer =
     (let peerInstanceKey = take (find_str peer (sep @ ChannelPrefix)) peer;
          peerHealthKey = join [peerInstanceKey, HealthPrefix] sep
      in case rd_hget pf w peerHealthKey ''hostIp'' of None \<Rightarrow> [] | Some ip \<Rightarrow> ip)"

definition IsUdsAvailable :: "'w platform \<Rightarrow> 'w topo \<Rightarrow> string list \<Rightarrow> bool" where
  "IsUdsAvailable pf t peers = list_all (\<lambda>x. fHostIp t = ReadPeerIP pf (world t) (fSeparator t) x) peers"

definition uds_path :: "'w topo \<Rightarrow> string \<Rightarrow> string \<Rightarrow> string" where
  "uds_path t name i =
     ''ipc://@/tmp/nestdaq/'' @ ''/'' @ fServiceName t @ ''/'' @ fId t @ ''/'' @ name @ ''['' @ i @ '']''"

definition uds_address :: "'w topo \<Rightarrow> SocketProperty \<Rightarrow> string" where
  "uds_address t sp =
     sp_address sp @ uds_path t (sp_name sp) ''0'' @
     concat (map (\<lambda>i. '','' @ uds_path t (sp_name sp) (show_nat i)) [1..<nat (numSockets sp)])"

definition unique_sorted :: "string list \<Rightarrow> string list" where
  "unique_sorted peers = remdups_adj (sort peers)"

definition channels_of :: "bool \<Rightarrow> 'w topo \<Rightarrow> SocketProperty smap" where
  "channels_of binds t = (if binds then fBindChannels t else fConnectChannels t)"

definition put_channel :: "bool \<Rightarrow> string \<Rightarrow> SocketProperty \<Rightarrow> ('w topo, unit) opn" where
  "put_channel binds k sp =
     modify (\<lambda>t. if binds then t\<lparr>fBindChannels := smap_put k sp (fBindChannels t)\<rparr>
                 else t\<lparr>fConnectChannels := smap_put k sp (fConnectChannels t)\<rparr>)"

text \<open>
  The body of the loop over the channels, which changes the channel in its map through a
  pointer; it yields the option of the channel.
\<close>

definition configure_channel :: "'w platform \<Rightarrow> bool \<times> string \<Rightarrow> ('w topo, string) opn" where
  "configure_channel pf p =
     (case p of (binds, k) \<Rightarrow>
        bindM (asks (\<lambda>t. case map_of (channels_of binds t) k of
                       None \<Rightarrow> Inl UndefinedBehaviour
                     | Some sp \<Rightarrow> link_peers pf t (fLinks t) sp [])) (\<lambda>(sp, found).
        let peers = unique_sorted found
        in bindM (gets (\<lambda>t. if IsUdsAvailable pf t peers \<and> fEnableUds t \<and> sp_method sp = ''bind'' \<and>
                              sp_transport sp = ''zeromq''
                           then sp\<lparr>sp_address := uds_address t sp\<rparr> else sp)) (\<lambda>sp.
           seqM (put_channel binds k sp)
             (bindM (lift_res (ToChannelConfig sp)) (\<lambda>option.
                seqM (WriteChannel pf sp peers) (ret option))))))"

definition set_channel_properties :: "'w platform \<Rightarrow> string smap \<Rightarrow> ('w topo, unit) opn" where
  "set_channel_properties pf properties =
     seqM (modify (\<lambda>t. t\<lparr>fCustomChannelProperties :=
              fold (\<lambda>(k, v). smap_put k v) properties (fCustomChannelProperties t)\<rparr>))
          (on_world (fold (\<lambda>(k, v). pr_set pf k v) properties))"

definition apply_channel_options :: "'w platform \<Rightarrow> string list \<Rightarrow> ('w topo, unit) opn" where
  "apply_channel_options pf channelConfigOptions =
     try_log (bindM (asks (\<lambda>t. mq_subopt pf channelConfigOptions (fServiceName t))) (\<lambda>properties.
       bindM (gets fDefaultChannelProperties) (\<lambda>defaults.
         set_channel_properties pf (filter (\<lambda>(k, v). map_of defaults k = None) properties))))"

definition channel_list :: "'w topo \<Rightarrow> (bool \<times> string) list" where
  "channel_list t = map (\<lambda>(k, v). (True, k)) (fBindChannels t) @ map (\<lambda>(k, v). (False, k)) (fConnectChannels t)"

definition Initialize :: "'w platform \<Rightarrow> ('w topo, unit) opn" where
  "Initialize pf =
     seqM (bindM (gets fDefaultChannelProperties)
             (\<lambda>d. only_if (d = []) (InitializeDefaultChannelProperties pf)))
    (seqM (read_connect_config pf)
    (bindM (asks (\<lambda>t. ReadEndpoints pf (world t) (fTopPrefix t) (fServiceName t) (fSeparator t))) (\<lambda>endpoints.
     seqM (for_each endpoints (add_endpoint pf))
    (bindM (asks (\<lambda>t. ReadLinks pf (world t) (fTopPrefix t) (fServiceName t) (fSeparator t))) (\<lambda>links.
     seqM (for_each links (collect_link pf))
    (bindM (gets channel_list) (\<lambda>channelList.
     bindM (map_each channelList (configure_channel pf)) (\<lambda>options.
       apply_channel_options pf options))))))))"

section \<open>Every key is tracked\<close>

text \<open>
  The keys that are present in the registry are those of the others, \<open>B\<close>, and those the device
  has noted for refreshing and for withdrawal.
\<close>

definition present :: "('w \<Rightarrow> keyspace) \<Rightarrow> 'w topo \<Rightarrow> string set" where
  "present view t = {k. view (world t) k \<noteq> None}"

definition tracked :: "('w \<Rightarrow> keyspace) \<Rightarrow> string set \<Rightarrow> 'w topo \<Rightarrow> bool" where
  "tracked view B t \<longleftrightarrow> present view t \<subseteq> B \<union> set (fRegisteredKeys t)"

definition writes :: "redis_cmd \<Rightarrow> string set" where
  "writes c = (case c of HSet k fs \<Rightarrow> {k} | SetKey k v \<Rightarrow> {k} | SetEx k n v \<Rightarrow> {k} | RPush k vs \<Rightarrow> {k} | _ \<Rightarrow> {})"

lemma cmd_effect_dom: "dom (cmd_effect c m) \<subseteq> dom m \<union> writes c"
  by (cases c) (auto simp: writes_def Let_def split: option.splits rvalue.splits if_splits)

lemma pipe_effect_dom: "dom (fold cmd_effect p m) \<subseteq> dom m \<union> (\<Union>c\<in>set p. writes c)"
proof (induction p arbitrary: m)
  case (Cons c p)
  have "dom (fold cmd_effect p (cmd_effect c m)) \<subseteq> dom (cmd_effect c m) \<union> (\<Union>c\<in>set p. writes c)"
    by (rule Cons)
  then have "dom (fold cmd_effect p (cmd_effect c m)) \<subseteq> dom m \<union> (writes c \<union> (\<Union>c\<in>set p. writes c))"
    using cmd_effect_dom [of c m] by blast
  then show ?case by simp
qed simp

lemma present_dom: "present view t = dom (view (world t))"
  by (auto simp: present_def)

lemma tracked_cong: "view (world t) = view (world u) \<Longrightarrow> set (fRegisteredKeys u) \<subseteq> set (fRegisteredKeys t) \<Longrightarrow>
    tracked view B u \<Longrightarrow> tracked view B t"
  by (auto simp: tracked_def present_def)

lemma tracked_pipe:
  assumes "redis_server pf view mt" and "tracked view B t"
    and "(\<Union>c\<in>set p. writes c) \<subseteq> B \<union> set ks"
  shows "tracked view B (t\<lparr>world := pipe_exec pf p (world t), fRegisteredKeys := fRegisteredKeys t @ ks\<rparr>)"
proof -
  have "dom (fold cmd_effect p (view (world t))) \<subseteq> B \<union> set (fRegisteredKeys t) \<union> set ks"
  proof -
    have "dom (view (world t)) \<subseteq> B \<union> set (fRegisteredKeys t)"
      using assms(2) by (simp add: tracked_def present_dom)
    then have "dom (view (world t)) \<union> (\<Union>c\<in>set p. writes c) \<subseteq> B \<union> set (fRegisteredKeys t) \<union> set ks"
      using assms(3) by auto
    with pipe_effect_dom [of p "view (world t)"] show ?thesis by (rule subset_trans)
  qed
  then show ?thesis by (simp add: tracked_def present_dom view_pipe_exec [OF assms(1)] Un_assoc)
qed

text \<open>Operations that change neither the registry nor the list of keys.\<close>

definition silent :: "('w \<Rightarrow> keyspace) \<Rightarrow> ('w topo, 'a) opn \<Rightarrow> bool" where
  "silent view m \<longleftrightarrow> (\<forall>t. view (world (snd (m t))) = view (world t) \<and>
     fRegisteredKeys (snd (m t)) = fRegisteredKeys t)"

lemma silent_keeps: "silent view m \<Longrightarrow> keeps (tracked view B) m"
  by (simp add: silent_def keeps_def tracked_def present_def)

lemma silent_simple [simp]:
  "silent view (ret a)" "silent view (lift_res r)" "silent view (gets f)" "silent view (asks g)"
  by (simp_all add: silent_def op_simps)

lemma silent_modify:
  "(\<And>t. world (f t) = world t \<and> fRegisteredKeys (f t) = fRegisteredKeys t) \<Longrightarrow> silent view (modify f)"
  by (simp add: silent_def op_simps)

lemma silent_bindM: "silent view m \<Longrightarrow> (\<And>a. silent view (f a)) \<Longrightarrow> silent view (bindM m f)"
proof -
  assume m: "silent view m" and f: "\<And>a. silent view (f a)"
  have "view (world (snd (bindM m f t))) = view (world t) \<and>
      fRegisteredKeys (snd (bindM m f t)) = fRegisteredKeys t" for t
  proof -
    obtain r u where u: "m t = (r, u)" by fastforce
    then have "view (world u) = view (world t)" "fRegisteredKeys u = fRegisteredKeys t"
      using m unfolding silent_def by (metis snd_conv)+
    with u f show ?thesis by (cases r) (simp_all add: bindM_def silent_def)
  qed
  then show ?thesis by (simp add: silent_def)
qed

lemma silent_seqM: "silent view m \<Longrightarrow> silent view n \<Longrightarrow> silent view (seqM m n)"
  by (simp add: seqM_def silent_bindM)

lemma silent_only_if: "silent view m \<Longrightarrow> silent view (only_if b m)"
  by (simp add: only_if_def)

lemma silent_try_log: "silent view m \<Longrightarrow> silent view (try_log m)"
  by (simp add: silent_def)

lemma silent_for_each: "(\<And>x. silent view (body x)) \<Longrightarrow> silent view (for_each xs body)"
  by (induction xs) (simp_all add: silent_seqM)

lemmas silent_intros = silent_simple silent_bindM silent_seqM silent_only_if silent_try_log silent_for_each
  silent_modify

lemma fold_pr_set: "property_store pf view \<Longrightarrow> view (fold (\<lambda>(k, v). pr_set pf k v) ps w) = view w"
  by (induction ps arbitrary: w) (auto simp: property_store_def)

lemma fold_pr_del: "property_store pf view \<Longrightarrow> view (fold (\<lambda>(k, v). pr_del pf k) ps w) = view w"
  by (induction ps arbitrary: w) (auto simp: property_store_def)

lemma silent_on_world: "(\<And>w. view (f w) = view w) \<Longrightarrow> silent view (on_world f)"
  by (simp add: silent_def on_world_def op_simps)

lemma silent_put [simp]:
  "silent view (put_defaults m)" "silent view (add_connect_channel sp)" "silent view (put_channel b n sp)"
  unfolding put_defaults_def add_connect_channel_def put_channel_def
  by (rule silent_modify, simp)+

lemma silent_if: "silent view m \<Longrightarrow> silent view n \<Longrightarrow> silent view (if b then m else n)"
  by simp

lemma silent_collect:
  "silent view (add_endpoint pf k)" "silent view (collect_link pf k)" "silent view (read_connect_config pf)"
  unfolding add_endpoint_def collect_link_def read_connect_config_def
  by (intro silent_if silent_intros; simp)+

lemma silent_defaults: "silent view (InitializeDefaultChannelProperties pf)"
  unfolding InitializeDefaultChannelProperties_def Let_def
  by (intro silent_bindM silent_only_if silent_try_log) (auto intro!: silent_bindM split: option.split)

lemma silent_options:
  "property_store pf view \<Longrightarrow> silent view (apply_channel_options pf os)"
  by (auto simp: apply_channel_options_def set_channel_properties_def fold_pr_set
      intro!: silent_intros silent_on_world)

lemma pr_set_view: "property_store pf view \<Longrightarrow> view (pr_set pf k v w) = view w"
  by (simp add: property_store_def)

lemma tracked_WriteChannel:
  assumes "redis_server pf view mt" and "property_store pf view"
  shows "keeps (tracked view B) (WriteChannel pf sp peers)"
  unfolding keeps_def
proof (intro allI impI)
  fix t :: "'a topo" assume t: "tracked view B t"
  let ?key = "my_key t [ChannelPrefix, sp_name sp]"
  let ?list = "join [?key, PeerPrefix] (fSeparator t)"
  let ?w = "pr_set pf (''n-peers:'' @ sp_name sp) (show_nat (length peers)) (world t)"
  let ?pipe = "[HSet ?key (channel_fields sp), Expire ?key (fMaxTtl t), RPush ?list peers, Expire ?list (fMaxTtl t)]"
  have "tracked view B (t\<lparr>world := ?w\<rparr>)"
    using t by (simp add: tracked_def present_def pr_set_view [OF assms(2)])
  then have "tracked view B ((t\<lparr>world := ?w\<rparr>)\<lparr>world := pipe_exec pf ?pipe (world (t\<lparr>world := ?w\<rparr>)),
      fRegisteredKeys := fRegisteredKeys (t\<lparr>world := ?w\<rparr>) @ [?key, ?list]\<rparr>)"
    by (rule tracked_pipe [OF assms(1)]) (auto simp: writes_def)
  with t show "tracked view B (snd (WriteChannel pf sp peers t))"
    by (simp add: WriteChannel_def on_world_def op_simps Let_def)
qed

text \<open>\<open>WriteAddress\<close> registers what it writes, apart from the keys of the callback.\<close>

lemma write_socket_keys:
  "(\<Union>c\<in>set (concat (map (write_socket_cmds t sp) subs)). writes c) = set (map (socket_key t \<circ> fst) subs)"
  by (induction subs) (auto simp: write_socket_cmds_def writes_def)

definition with_keys :: "'w topo \<Rightarrow> string list \<Rightarrow> 'w topo" where
  "with_keys t ks = t\<lparr>fRegisteredKeys := fRegisteredKeys t @ ks\<rparr>"

text \<open>A callback of \<open>WriteAddress\<close> that does not depend on the registered keys and writes the keys \<open>K\<close>.\<close>

definition callback_keys :: "('w topo \<Rightarrow> string \<Rightarrow> pipeline) \<Rightarrow> 'w topo \<Rightarrow> string list \<Rightarrow> string set \<Rightarrow> bool" where
  "callback_keys f t names K \<longleftrightarrow>
     (\<forall>n\<in>set names. \<forall>ks. \<forall>c\<in>set (f (with_keys t ks) n). writes c \<subseteq> K)"

lemma with_keys_simps [simp]:
  "fRegisteredKeys (with_keys t ks) = fRegisteredKeys t @ ks" "world (with_keys t ks) = world t"
  "fMaxTtl (with_keys t ks) = fMaxTtl t" "my_key (with_keys t ks) p = my_key t p"
  "with_keys (with_keys t ks) js = with_keys t (ks @ js)" "with_keys t [] = t"
  "socket_key (with_keys t ks) = socket_key t"
  by (simp_all add: with_keys_def my_key_def socket_key_def fun_eq_iff)

lemma write_socket_cmds_with_keys [simp]: "write_socket_cmds (with_keys t ks) = write_socket_cmds t"
  by (simp add: write_socket_cmds_def fun_eq_iff split: prod.split)

definition address_step :: "'w platform \<Rightarrow> ('w topo \<Rightarrow> string \<Rightarrow> pipeline) \<Rightarrow> string \<times> SocketProperty \<Rightarrow> ('w topo, pipeline) opn" where
  "address_step pf f = (\<lambda>(name, sp).
     bindM (asks (\<lambda>t. case sub_channels pf (world t) (local_key_prefix sp) 0 of
              None \<Rightarrow> Inl NoReturn | Some subs \<Rightarrow> Inr subs)) (\<lambda>subs.
     seqM (modify (\<lambda>t. t\<lparr>fRegisteredKeys := fRegisteredKeys t @ map (socket_key t \<circ> fst) subs\<rparr>))
       (gets (\<lambda>t. concat (map (write_socket_cmds t sp) subs) @ f t name))))"

lemma address_loop:
  assumes "callback_keys f t (map fst channels) K"
  shows "\<exists>ks r. map_each channels (address_step pf f) t = (r, with_keys t ks) \<and>
    (\<forall>pipes. r = Inr pipes \<longrightarrow> (\<Union>c\<in>set (concat pipes). writes c) \<subseteq> K \<union> set ks)"
  using assms
proof (induction channels arbitrary: t)
  case Nil
  show ?case by (rule exI [of _ "[]"]) (simp add: op_simps)
next
  case (Cons p channels)
  obtain name sp where p: "p = (name, sp)" by fastforce
  show ?case
  proof (cases "sub_channels pf (world t) (local_key_prefix sp) 0")
    case None
    with p have "map_each (p # channels) (address_step pf f) t = (Inl NoReturn, with_keys t [])"
      by (simp add: address_step_def bindM_def op_simps)
    then show ?thesis by blast
  next
    case (Some subs)
    let ?ks = "map (socket_key t \<circ> fst) subs" and ?t = "with_keys t (map (socket_key t \<circ> fst) subs)"
    let ?p = "concat (map (write_socket_cmds t sp) subs) @ f ?t name"
    have step: "address_step pf f p t = (Inr ?p, ?t)"
      using p Some by (simp add: address_step_def bindM_def seqM_def op_simps with_keys_def [symmetric])
    have "callback_keys f ?t (map fst channels) K"
      using Cons.prems by (simp add: callback_keys_def)
    from Cons.IH [OF this] obtain ks r where
      r: "map_each channels (address_step pf f) ?t = (r, with_keys ?t ks)"
        "\<And>pipes. r = Inr pipes \<Longrightarrow> (\<Union>c\<in>set (concat pipes). writes c) \<subseteq> K \<union> set ks"
      by blast
    have "(\<Union>c\<in>set (f ?t name). writes c) \<subseteq> K"
      using Cons.prems unfolding callback_keys_def p by (intro UN_least) (simp del: with_keys_simps)
    then have first: "(\<Union>c\<in>set ?p. writes c) \<subseteq> K \<union> set ?ks"
      unfolding set_append UN_Un write_socket_keys by blast
    show ?thesis
    proof (cases r)
      case (Inl e)
      then have "map_each (p # channels) (address_step pf f) t = (Inl e, with_keys t (?ks @ ks))"
        using r(1) by (simp add: bindM_def step)
      then show ?thesis by blast
    next
      case (Inr pipes)
      then have "map_each (p # channels) (address_step pf f) t = (Inr (?p # pipes), with_keys t (?ks @ ks))"
        using r(1) by (simp add: bindM_def step op_simps)
      moreover have "(\<Union>c\<in>set (concat (?p # pipes)). writes c) \<subseteq> K \<union> set (?ks @ ks)"
        using first r(2) [OF Inr] unfolding concat.simps set_append UN_Un by blast
      ultimately show ?thesis by blast
    qed
  qed
qed

lemma WriteAddress_step: "WriteAddress pf channels f =
    try_log (bindM (map_each channels (address_step pf f)) (\<lambda>pipes. on_world (pipe_exec pf (concat pipes))))"
  by (simp add: WriteAddress_def address_step_def)

lemma tracked_WriteAddress:
  assumes "redis_server pf view mt" and "tracked view B t" and "K \<subseteq> B"
    and "callback_keys f t (map fst channels) K"
  shows "tracked view B (snd (WriteAddress pf channels f t))"
proof -
  obtain ks r where r: "map_each channels (address_step pf f) t = (r, with_keys t ks)"
    "\<And>pipes. r = Inr pipes \<Longrightarrow> (\<Union>c\<in>set (concat pipes). writes c) \<subseteq> K \<union> set ks"
    using address_loop [OF assms(4)] by blast
  show ?thesis
  proof (cases r)
    case (Inl e)
    with r(1) assms(2) show ?thesis
      by (auto simp: WriteAddress_step bindM_def tracked_def present_def)
  next
    case (Inr pipes)
    have "tracked view B (t\<lparr>world := pipe_exec pf (concat pipes) (world t), fRegisteredKeys := fRegisteredKeys t @ ks\<rparr>)"
      using r(2) [OF Inr] assms(3) by (intro tracked_pipe [OF assms(1,2)]) blast
    with r(1) Inr show ?thesis
      by (simp add: WriteAddress_step bindM_def on_world_def op_simps with_keys_def tracked_def present_def)
  qed
qed

text \<open>The operations of a device on its topology, in the orders the state machine calls them in.\<close>

datatype topo_op = Op_Initialize | Op_WriteBind | Op_WriteConnect | Op_Reset

fun topo_run :: "'w platform \<Rightarrow> topo_op \<Rightarrow> 'w topo \<Rightarrow> 'w topo" where
  "topo_run pf Op_Initialize t = snd (Initialize pf t)"
| "topo_run pf Op_WriteBind t = snd (WriteBindAddress pf t)"
| "topo_run pf Op_WriteConnect t = snd (WriteConnectAddress pf t)"
| "topo_run pf Op_Reset t = snd (Reset pf t)"

text \<open>The identity of the device, which no operation changes.\<close>

definition identity :: "'w topo \<Rightarrow> string \<times> string \<times> string \<times> string" where
  "identity t = (fTopPrefix t, fServiceName t, fId t, fSeparator t)"

definition bound_keys :: "'w topo \<Rightarrow> string set" where
  "bound_keys t = {my_key t [ChannelPrefix, n] | n. True}"

lemma bound_keys_identity: "identity t = identity u \<Longrightarrow> bound_keys t = bound_keys u"
  by (simp add: bound_keys_def identity_def my_key_def)

lemma tracked_mono: "tracked view B t \<Longrightarrow> B \<subseteq> C \<Longrightarrow> tracked view C t"
  by (auto simp: tracked_def)

lemma tracked_configure:
  assumes "redis_server pf view mt" and "property_store pf view"
  shows "keeps (tracked view B) (configure_channel pf p)"
  unfolding configure_channel_def Let_def case_prod_beta
  by (intro keeps_bindM keeps_seqM keeps_asks keeps_gets keeps_lift_res keeps_ret
      tracked_WriteChannel [OF assms] silent_keeps [OF silent_put(3)])

lemma tracked_Initialize:
  assumes "redis_server pf view mt" and "property_store pf view"
  shows "keeps (tracked view B) (Initialize pf)"
  unfolding Initialize_def
  by (intro keeps_bindM keeps_seqM keeps_map_each tracked_configure [OF assms]
      silent_keeps silent_options [OF assms(2)] silent_for_each silent_collect silent_only_if silent_defaults
      silent_simple)

lemma tracked_Unregister:
  assumes "redis_server pf view mt" and "tracked view B t"
  shows "present view (snd (topo_Unregister pf t)) \<subseteq> B" "fRegisteredKeys (snd (topo_Unregister pf t)) = []"
  using assms(2)
  by (auto simp: topo_Unregister_def only_if_def on_world_def op_simps tracked_def present_def
      view_run [OF assms(1)] split: if_splits)

lemma Reset_outcome:
  assumes "redis_server pf view mt" and "property_store pf view" and "tracked view B t"
  shows "present view (snd (Reset pf t)) \<subseteq> B \<and> fRegisteredKeys (snd (Reset pf t)) = [] \<and>
    fBindChannels (snd (Reset pf t)) = [] \<and> fConnectChannels (snd (Reset pf t)) = [] \<and>
    fCustomChannelProperties (snd (Reset pf t)) = []"
proof -
  let ?t = "t\<lparr>fBindChannels := [], fConnectChannels := [],
    world := fold (\<lambda>(k, v). pr_del pf k) (fCustomChannelProperties t) (world t), fCustomChannelProperties := []\<rparr>"
  have R: "Reset pf t = topo_Unregister pf ?t"
    by (simp add: Reset_def on_world_def seqM_def bindM_def gets_def modify_def)
  have "tracked view B ?t"
    using assms(3) by (simp add: tracked_def present_def fold_pr_del [OF assms(2)])
  from tracked_Unregister [OF assms(1) this] show ?thesis
    unfolding R by (simp add: topo_Unregister_def only_if_def on_world_def op_simps)
qed

section \<open>The identity is never changed\<close>

definition same_identity :: "string \<times> string \<times> string \<times> string \<Rightarrow> 'w topo \<Rightarrow> bool" where
  "same_identity i t \<longleftrightarrow> identity t = i"

lemma id_modify:
  "(\<And>t. identity (f t) = identity t) \<Longrightarrow> keeps (same_identity i) (modify f)"
  unfolding same_identity_def by (rule keeps_modify) simp

lemma id_on_world: "keeps (same_identity i) (on_world f)"
  unfolding on_world_def by (rule id_modify) (simp add: identity_def)

lemma id_steps:
  "keeps (same_identity i) (put_defaults m)" "keeps (same_identity i) (add_connect_channel sp)"
  "keeps (same_identity i) (put_channel b n sp)" "keeps (same_identity i) (collect_link pf k)"
  "keeps (same_identity i) (add_endpoint pf k)"
  unfolding put_defaults_def add_connect_channel_def put_channel_def collect_link_def add_endpoint_def
  by (auto intro!: keeps_bindM id_modify simp: identity_def)

lemma id_WriteChannel: "keeps (same_identity i) (WriteChannel pf sp peers)"
  unfolding WriteChannel_def Let_def case_prod_beta
  by (auto intro!: keeps_bindM keeps_seqM id_on_world id_modify simp: identity_def)

lemma id_Initialize: "keeps (same_identity i) (Initialize pf)"
proof -
  have "keeps (same_identity i) (configure_channel pf p)" for p
    unfolding configure_channel_def Let_def case_prod_beta
    by (intro keeps_bindM keeps_seqM keeps_asks keeps_gets keeps_lift_res keeps_ret id_WriteChannel id_steps)
  moreover have "keeps (same_identity i) (apply_channel_options pf os)" for os
    unfolding apply_channel_options_def set_channel_properties_def
    by (auto intro!: keeps_try_log keeps_bindM keeps_seqM id_on_world id_modify simp: identity_def)
  moreover have "keeps (same_identity i) (InitializeDefaultChannelProperties pf)"
    unfolding InitializeDefaultChannelProperties_def Let_def
    by (intro keeps_bindM keeps_gets keeps_only_if keeps_try_log)
      (auto intro!: keeps_bindM id_steps split: option.split)
  moreover have "keeps (same_identity i) (read_connect_config pf)"
    unfolding read_connect_config_def by (intro keeps_bindM keeps_only_if keeps_for_each id_steps) auto
  ultimately show ?thesis
    unfolding Initialize_def
    by (intro keeps_bindM keeps_seqM keeps_for_each keeps_map_each keeps_gets keeps_asks keeps_only_if id_steps)
qed

lemma id_WriteAddress: "keeps (same_identity i) (WriteAddress pf channels f)"
  unfolding WriteAddress_def case_prod_beta
  by (auto intro!: keeps_try_log keeps_bindM keeps_seqM keeps_map_each id_on_world id_modify simp: identity_def)

lemma id_Reset: "keeps (same_identity i) (Reset pf)"
  unfolding Reset_def topo_Unregister_def
  by (auto intro!: keeps_bindM keeps_seqM keeps_only_if id_on_world id_modify simp: identity_def)

lemma identity_run: "identity (topo_run pf c t) = identity t"
  using keepsD [OF id_Initialize, of "identity t" t pf] keepsD [OF id_Reset, of "identity t" t pf]
    keepsD [OF id_WriteAddress, of "identity t" t]
  by (cases c) (auto simp: same_identity_def WriteBindAddress_def WriteConnectAddress_def op_simps)

text \<open>What one operation leaves in the registry.\<close>

lemma tracked_run:
  assumes "redis_server pf view mt" and "property_store pf view" and "tracked view B t"
    and "c = Op_WriteBind \<Longrightarrow> bound_keys t \<subseteq> B"
  shows "tracked view B (topo_run pf c t)"
proof (cases c)
  case Op_Initialize
  with tracked_Initialize [OF assms(1,2)] assms(3) show ?thesis by (simp add: keepsD)
next
  case Op_WriteBind
  have "callback_keys channel_bound_cmds t (map fst (fBindChannels t)) (bound_keys t)"
    by (auto simp: callback_keys_def channel_bound_cmds_def writes_def bound_keys_def)
  with Op_WriteBind assms(4) tracked_WriteAddress [OF assms(1,3)] assms(3) show ?thesis
    by (simp add: WriteBindAddress_def op_simps)
next
  case Op_WriteConnect
  have "callback_keys (\<lambda>_ _. []) t (map fst (fConnectChannels t)) {}"
    by (simp add: callback_keys_def)
  from tracked_WriteAddress [OF assms(1,3) _ this] Op_WriteConnect assms(3) show ?thesis
    by (simp add: WriteConnectAddress_def op_simps)
next
  case Op_Reset
  with Reset_outcome [OF assms(1-3)] show ?thesis by (simp add: tracked_def)
qed

lemma tracked_session:
  assumes "redis_server pf view mt" and "property_store pf view" and "tracked view B t"
    and "Op_WriteBind \<in> set ops \<Longrightarrow> bound_keys t \<subseteq> B"
  shows "tracked view B (fold (topo_run pf) ops t)"
  using assms(3,4)
proof (induction ops arbitrary: t)
  case (Cons c ops)
  have "tracked view B (topo_run pf c t)"
    using Cons.prems by (intro tracked_run [OF assms(1,2)]) auto
  moreover have "bound_keys (topo_run pf c t) = bound_keys t"
    by (rule bound_keys_identity) (rule identity_run)
  ultimately show ?case using Cons by simp
qed simp

section \<open>The sub-channels of a channel\<close>

lemma show_nat_inj [simp]: "show_nat m = show_nat n \<longleftrightarrow> m = n"
  by (metis read_show_nat)

lemma pr_prefix_mem:
  assumes "property_store pf view" and "(k, v) \<in> set (pr_prefix pf w p)"
  shows "starts_with p k" "pr_get pf w k = Some v"
proof -
  have "smap_wf (pr_prefix pf w p)"
    and m: "map_of (pr_prefix pf w p) k = (if starts_with p k then pr_get pf w k else None)"
    using assms(1) by (auto simp: property_store_def)
  with assms(2) have "map_of (pr_prefix pf w p) k = Some v"
    by (simp add: map_of_is_SomeI smap_wf_distinct)
  with m show "starts_with p k" "pr_get pf w k = Some v" by (auto split: if_splits)
qed

lemma pr_prefix_memI:
  assumes "property_store pf view" and "starts_with p k" and "pr_get pf w k = Some v"
  shows "(k, v) \<in> set (pr_prefix pf w p)"
  using assms by (auto simp: property_store_def dest: spec [of _ w] intro!: map_of_SomeD)

text \<open>Only finitely many indices can have properties, so the loop over the sub-channels ends.\<close>

lemma sub_channel_stop:
  assumes "property_store pf view"
  shows "\<exists>j\<ge>i. pr_prefix pf w (p @ show_nat j) = []"
proof (rule ccontr)
  assume none: "\<not> ?thesis"
  let ?K = "fst ` set (pr_prefix pf w [])"
  have "\<forall>j\<in>{i..}. \<exists>k\<in>?K. starts_with (p @ show_nat j) k"
  proof
    fix j assume "j \<in> {i..}"
    with none have "pr_prefix pf w (p @ show_nat j) \<noteq> []" by auto
    then obtain k v where kv: "(k, v) \<in> set (pr_prefix pf w (p @ show_nat j))"
      by (metis last_in_set surj_pair)
    have "(k, v) \<in> set (pr_prefix pf w [])"
      by (rule pr_prefix_memI [OF assms]) (use pr_prefix_mem [OF assms kv] in \<open>simp_all add: starts_with_def\<close>)
    with pr_prefix_mem(1) [OF assms kv] show "\<exists>k\<in>?K. starts_with (p @ show_nat j) k" by force
  qed
  moreover have "infinite {i..}" by (rule infinite_Ici)
  ultimately obtain k where "infinite {j \<in> {i..}. starts_with (p @ show_nat j) k}"
    using pigeonhole_infinite_rel [of "{i..}" ?K "\<lambda>j k. starts_with (p @ show_nat j) k"] by auto
  moreover have "show_nat ` {j \<in> {i..}. starts_with (p @ show_nat j) k} \<subseteq>
      (\<lambda>n. take n (drop (length p) k)) ` {..length k}"
  proof
    fix x assume "x \<in> show_nat ` {j \<in> {i..}. starts_with (p @ show_nat j) k}"
    then obtain j u where "x = show_nat j" "k = p @ show_nat j @ u" by (auto simp: starts_with_Cons)
    then show "x \<in> (\<lambda>n. take n (drop (length p) k)) ` {..length k}"
      by (intro image_eqI [of _ _ "length x"]) auto
  qed
  then have "finite (show_nat ` {j \<in> {i..}. starts_with (p @ show_nat j) k})"
    by (rule finite_subset) simp
  then have "finite {j \<in> {i..}. starts_with (p @ show_nat j) k}"
    by (rule finite_imageD) (simp add: inj_on_def)
  ultimately show False by contradiction
qed

definition sub_channel :: "'w platform \<Rightarrow> 'w \<Rightarrow> string \<Rightarrow> nat \<Rightarrow> string \<times> (string \<times> string) list" where
  "sub_channel pf w p j = (p @ show_nat j, pr_prefix pf w (p @ show_nat j))"

lemma sub_channels_upto:
  assumes "i \<le> n" and "pr_prefix pf w (p @ show_nat n) = []"
    and "\<And>j. i \<le> j \<Longrightarrow> j < n \<Longrightarrow> pr_prefix pf w (p @ show_nat j) \<noteq> []"
  shows "sub_channels pf w p i = Some (map (sub_channel pf w p) [i..<n])"
  using assms
proof (induction "n - i" arbitrary: i)
  case 0
  then show ?case by (subst sub_channels.simps) (simp add: Let_def)
next
  case (Suc d)
  then have "i < n" by simp
  moreover have "sub_channels pf w p (Suc i) = Some (map (sub_channel pf w p) [Suc i..<n])"
    using Suc.prems Suc.hyps(2) by (intro Suc.hyps(1)) auto
  moreover have "pr_prefix pf w (p @ show_nat i) \<noteq> []" using Suc.prems(3) \<open>i < n\<close> by blast
  ultimately show ?case
    by (subst sub_channels.simps) (simp add: Let_def sub_channel_def upt_conv_Cons)
qed

lemma sub_channels_total:
  assumes "property_store pf view"
  obtains n where "sub_channels pf w p i = Some (map (sub_channel pf w p) [i..<n])"
    and "i \<le> n" and "pr_prefix pf w (p @ show_nat n) = []"
    and "\<And>j. i \<le> j \<Longrightarrow> j < n \<Longrightarrow> pr_prefix pf w (p @ show_nat j) \<noteq> []"
proof -
  let ?P = "\<lambda>j. i \<le> j \<and> pr_prefix pf w (p @ show_nat j) = []"
  have "\<exists>j. ?P j" using sub_channel_stop [OF assms, of i w p] by blast
  then obtain n where n: "?P n" "\<And>j. j < n \<Longrightarrow> \<not> ?P j"
    using exists_least_iff [of ?P] by auto
  then have "sub_channels pf w p i = Some (map (sub_channel pf w p) [i..<n])"
    by (intro sub_channels_upto) auto
  with n that show thesis by blast
qed

text \<open>The hash of a sub-channel keeps, for each last component, the property with the greatest name.\<close>

lemma map_of_fold_put:
  "map_of (fold (\<lambda>(k, v). smap_put (g k) v) chans h) f =
     (case map_of (rev (map (\<lambda>(k, v). (g k, v)) chans)) f of None \<Rightarrow> map_of h f | Some v \<Rightarrow> Some v)"
proof (induction chans arbitrary: h)
  case (Cons p chans)
  then show ?case by (cases p) (auto split: option.split)
qed simp

lemma map_of_socket_hash:
  "f \<noteq> ''numSockets'' \<Longrightarrow> f \<noteq> ''autoSubChannel'' \<Longrightarrow>
   map_of (socket_hash sp chans) f = map_of (rev (map (\<lambda>(k, v). (last_component k, v)) chans)) f"
  by (simp add: socket_hash_def Let_def map_of_fold_put split: option.split)

lemma last_entry:
  assumes "smap_wf m" and "(k, v) \<in> set m" and "g k = f"
    and "\<And>k' v'. (k', v') \<in> set m \<Longrightarrow> g k' = f \<Longrightarrow> k' \<le> k"
  shows "map_of (rev (map (\<lambda>(k, v). (g k, v)) m)) f = Some v"
proof -
  obtain xs ys where m: "m = xs @ (k, v) # ys" using assms(2) by (meson split_list)
  have "g k' \<noteq> f" if "(k', v') \<in> set ys" for k' v'
  proof
    assume "g k' = f"
    moreover have "k < k'" using assms(1) that m by (fastforce simp: smap_wf_def sorted_wrt_append)
    ultimately show False using assms(4) [of k' v'] that m by (simp add: leD)
  qed
  then have "map_of (rev (map (\<lambda>(k, v). (g k, v)) ys)) f = None"
    by (fastforce simp: map_of_eq_None_iff)
  with m assms(3) show ?thesis by (simp add: map_add_def)
qed

lemma last_component_dot:
  assumes "fits (u @ ''.'' @ c)" and "CHR ''.'' \<notin> set c"
  shows "last_component (u @ ''.'' @ c) = c"
proof -
  have "find_last_of (u @ ''.'' @ c) ''.'' = length u"
    using assms(2) by (simp add: find_last_of_def last_index_append list_ex_iff)
  moreover have "length u + 1 < size_max"
    using assms(1) by (simp add: fits_def npos_def size_max_def)
  ultimately show ?thesis by (simp add: last_component_def)
qed

section \<open>The peers of a channel\<close>

text \<open>The presence keys of the services at the far end of a link.\<close>

definition far_instances ::
  "('w \<Rightarrow> keyspace) \<Rightarrow> (string \<Rightarrow> string \<Rightarrow> bool) \<Rightarrow> 'w topo \<Rightarrow> LinkProperty \<Rightarrow> string \<Rightarrow> string set" where
  "far_instances view matches t l name =
     {a. view (world t) a \<noteq> None \<and>
         matches (join [fTopPrefix t, fst (link_far_end l name), ''*'', PresencePrefix] (fSeparator t)) a}"

definition peer_key :: "'w topo \<Rightarrow> LinkProperty \<Rightarrow> string \<Rightarrow> string \<Rightarrow> string" where
  "peer_key t l name a = join [instance_key (fSeparator t) a, ChannelPrefix, snd (link_far_end l name)] (fSeparator t)"

definition channel_peers ::
  "('w \<Rightarrow> keyspace) \<Rightarrow> (string \<Rightarrow> string \<Rightarrow> bool) \<Rightarrow> 'w topo \<Rightarrow> LinkProperty smap \<Rightarrow> string \<Rightarrow> string set" where
  "channel_peers view matches t links name =
     (\<Union>(n, l)\<in>{(n, l) \<in> set links. link_concerns l name}. peer_key t l name ` far_instances view matches t l name)"

definition peer_count ::
  "('w \<Rightarrow> keyspace) \<Rightarrow> (string \<Rightarrow> string \<Rightarrow> bool) \<Rightarrow> 'w topo \<Rightarrow> LinkProperty smap \<Rightarrow> string \<Rightarrow> nat" where
  "peer_count view matches t links name =
     sum_list (map (\<lambda>(n, l). if link_concerns l name then card (far_instances view matches t l name) else 0) links)"

lemma add_size_add_size: "add_size (add_size i m) n = add_size i (m + n)"
proof -
  have "signed_take_bit 31 (signed_take_bit 31 (i + int m) + int n) =
      signed_take_bit 31 (signed_take_bit 31 (signed_take_bit 31 (i + int m)) + signed_take_bit 31 (int n))"
    by (rule signed_take_bit_add [symmetric])
  also have "\<dots> = signed_take_bit 31 (signed_take_bit 31 (i + int m) + signed_take_bit 31 (int n))"
    by (simp only: signed_take_bit_signed_take_bit min.idem)
  also have "\<dots> = signed_take_bit 31 (i + int m + int n)" by (rule signed_take_bit_add)
  finally show ?thesis by (simp add: add_size_def add.assoc)
qed

lemma add_size_0: "int32 i \<Longrightarrow> add_size i 0 = i"
  by (simp add: add_size_def int32_def signed_take_bit_int_eq_self_iff)

lemma int32_add_size [simp]: "int32 (add_size i n)"
  using signed_take_bit_int_less_exp [of 31 "i + int n"] signed_take_bit_int_greater_eq_minus_exp [of 31 "i + int n"]
  by (simp add: add_size_def int32_def)

lemma scan_instances:
  assumes "redis_server pf view matches"
  obtains keys where
    "scan_parts pf (world t) [fTopPrefix t, fst (link_far_end l name), ''*'', PresencePrefix] (fSeparator t) = Inr keys"
    "distinct keys" "set keys = far_instances view matches t l name"
    "length keys = card (far_instances view matches t l name)"
  using key_scanner.scan_ok [OF key_scanner_scan [OF assms], of "world t"
      "join [fTopPrefix t, fst (link_far_end l name), ''*'', PresencePrefix] (fSeparator t)"]
  by (auto simp: scan_parts_def far_instances_def distinct_card [symmetric])

lemma link_peers_result:
  assumes "redis_server pf view matches" and "sp_name sp = name" and "int32 (numSockets sp)"
  shows "\<exists>found. link_peers pf t links sp peers =
    Inr (if autoSubChannel sp
         then sp\<lparr>numSockets := add_size (numSockets sp) (peer_count view matches t links name)\<rparr> else sp, found) \<and>
    set found = set peers \<union> channel_peers view matches t links name"
  using assms(2,3)
proof (induction links arbitrary: sp peers)
  case Nil
  then show ?case by (simp add: channel_peers_def peer_count_def add_size_0)
next
  case (Cons p links)
  obtain n l where p: "p = (n, l)" by fastforce
  show ?case
  proof (cases "link_concerns l name")
    case False
    then have e: "channel_peers view matches t (p # links) name = channel_peers view matches t links name"
      "peer_count view matches t (p # links) name = peer_count view matches t links name"
      "link_peers pf t (p # links) sp peers = link_peers pf t links sp peers"
      using p Cons.prems(1) by (auto simp: channel_peers_def peer_count_def)
    from Cons.IH [of sp peers, OF Cons.prems] show ?thesis unfolding e .
  next
    case True
    obtain svc ch where far: "link_far_end l name = (svc, ch)" by fastforce
    obtain keys where keys:
      "scan_parts pf (world t) [fTopPrefix t, svc, ''*'', PresencePrefix] (fSeparator t) = Inr keys"
      "set keys = far_instances view matches t l name" "length keys = card (far_instances view matches t l name)"
      by (rule scan_instances [OF assms(1), of t l name]) (simp add: far)
    let ?sp = "if autoSubChannel sp then sp\<lparr>numSockets := add_size (numSockets sp) (length keys)\<rparr> else sp"
    let ?peers = "peers @ map (peer_key t l name) keys"
    have "channel_peers view matches t (p # links) name =
        peer_key t l name ` set keys \<union> channel_peers view matches t links name"
      using True p keys(2) by (auto simp: channel_peers_def)
    moreover have "link_peers pf t (p # links) sp peers = link_peers pf t links ?sp ?peers"
      using True p keys(1) far Cons.prems(1) by (simp add: peer_key_def [abs_def] Let_def)
    moreover have "peer_count view matches t (p # links) name = length keys + peer_count view matches t links name"
      using True p keys(3) by (simp add: peer_count_def)
    ultimately show ?thesis
      using Cons.IH [of ?sp ?peers] Cons.prems by (auto simp: add_size_add_size Un_assoc)
  qed
qed

lemma sorted_remdups_strict: "sorted (xs :: string list) \<Longrightarrow> sorted_wrt (<) (remdups_adj xs)"
proof (induction xs rule: remdups_adj.induct)
  case (3 x y xs)
  show ?case
  proof (cases "x = y")
    case False
    with 3 have "\<forall>z\<in>set (y # xs). x < z" by (auto simp: order.strict_iff_order dest: order_trans)
    with 3 False show ?thesis by simp
  qed (use 3 in simp)
qed simp_all

lemma unique_sorted_strict: "sorted_wrt (<) (unique_sorted peers)" "set (unique_sorted peers) = set peers"
  by (simp_all add: unique_sorted_def sorted_remdups_strict)

section \<open>Publishing a channel\<close>

lemma my_key_append: "join [my_key t ps, q] (fSeparator t) = my_key t (ps @ [q])"
  by (simp add: my_key_def join_def join_with_append [where ys = "[q]"] flip: append_Cons append_assoc)

lemma list_key_neq [simp]: "join [k, PeerPrefix] sep \<noteq> k" "k \<noteq> join [k, PeerPrefix] sep"
  by (simp_all add: join_def PeerPrefix_def)

definition channel_key :: "'w topo \<Rightarrow> string \<Rightarrow> string" where
  "channel_key t name = my_key t [ChannelPrefix, name]"

definition peer_list_key :: "'w topo \<Rightarrow> string \<Rightarrow> string" where
  "peer_list_key t name = join [channel_key t name, PeerPrefix] (fSeparator t)"

lemma WriteChannel_effect:
  assumes "redis_server pf view mt" and "property_store pf view" and "peers \<noteq> []"
    and "view (world t) (channel_key t (sp_name sp)) = None"
    and "view (world t) (peer_list_key t (sp_name sp)) = None"
    and "t' = snd (WriteChannel pf sp peers t)"
  shows "fst (WriteChannel pf sp peers t) = Inr ()"
    and "view (world t') = (view (world t))(channel_key t (sp_name sp) \<mapsto> RHash (hash_put (channel_fields sp) []),
           peer_list_key t (sp_name sp) \<mapsto> RList peers)"
    and "fRegisteredKeys t' = fRegisteredKeys t @ [channel_key t (sp_name sp), peer_list_key t (sp_name sp)]"
    and "pr_get pf (world t') (''n-peers:'' @ sp_name sp) = Some (show_nat (length peers))"
proof -
  have pr: "pr_get pf (pipe_exec pf p w) q = pr_get pf w q" for p w q
    using assms(2) by (induction p arbitrary: w) (simp_all add: pipe_exec_def property_store_def)
  note defs = WriteChannel_def on_world_def op_simps Let_def assms(3)
    channel_key_def [symmetric] peer_list_key_def [symmetric]
  show "fst (WriteChannel pf sp peers t) = Inr ()"
    and "fRegisteredKeys t' = fRegisteredKeys t @ [channel_key t (sp_name sp), peer_list_key t (sp_name sp)]"
    unfolding assms(6) by (simp_all add: defs)
  show "pr_get pf (world t') (''n-peers:'' @ sp_name sp) = Some (show_nat (length peers))"
    using assms(2) unfolding assms(6) by (simp add: defs pr) (simp add: property_store_def)
  show "view (world t') = (view (world t))(channel_key t (sp_name sp) \<mapsto> RHash (hash_put (channel_fields sp) []),
           peer_list_key t (sp_name sp) \<mapsto> RList peers)"
    using assms(4,5) unfolding assms(6)
    by (simp add: defs view_pipe_exec [OF assms(1)] pr_set_view [OF assms(2)])
      (simp add: peer_list_key_def fun_upd_def fun_eq_iff)
qed

text \<open>What \<open>WriteAddress\<close> sends and registers, given a property store.\<close>

definition sub_channels_of :: "'w platform \<Rightarrow> 'w topo \<Rightarrow> SocketProperty \<Rightarrow> (string \<times> (string \<times> string) list) list" where
  "sub_channels_of pf t sp = the (sub_channels pf (world t) (local_key_prefix sp) 0)"

lemma sub_channels_of:
  "property_store pf view \<Longrightarrow>
     sub_channels pf (world t) (local_key_prefix sp) 0 = Some (sub_channels_of pf t sp)"
  by (rule sub_channels_total [of pf view "world t" "local_key_prefix sp" 0])
    (simp_all add: sub_channels_of_def)

lemma sub_channels_of_with_keys [simp]: "sub_channels_of pf (with_keys t ks) = sub_channels_of pf t"
  by (simp add: sub_channels_of_def fun_eq_iff)

definition channel_pipe ::
  "'w platform \<Rightarrow> 'w topo \<Rightarrow> ('w topo \<Rightarrow> string \<Rightarrow> pipeline) \<Rightarrow> string \<times> SocketProperty \<Rightarrow> pipeline" where
  "channel_pipe pf t f = (\<lambda>(name, sp). concat (map (write_socket_cmds t sp) (sub_channels_of pf t sp)) @ f t name)"

definition channel_sockets :: "'w platform \<Rightarrow> 'w topo \<Rightarrow> string \<times> SocketProperty \<Rightarrow> string list" where
  "channel_sockets pf t = (\<lambda>(name, sp). map (socket_key t \<circ> fst) (sub_channels_of pf t sp))"

lemma address_loop_exact:
  assumes "property_store pf view" and "\<And>ks. f (with_keys t ks) = f t"
  shows "map_each channels (address_step pf f) t =
    (Inr (map (channel_pipe pf t f) channels), with_keys t (concat (map (channel_sockets pf t) channels)))"
  using assms(2)
proof (induction channels arbitrary: t)
  case (Cons p channels)
  obtain name sp where p: "p = (name, sp)" by fastforce
  let ?t = "with_keys t (channel_sockets pf t p)"
  have f: "f (with_keys t ks) = f t" for ks by (rule Cons.prems)
  have "address_step pf f p t = (Inr (channel_pipe pf t f p), ?t)"
    by (simp add: address_step_def channel_pipe_def channel_sockets_def p bindM_def seqM_def op_simps
        sub_channels_of [OF assms(1)] f flip: with_keys_def)
  moreover have "channel_pipe pf ?t f = channel_pipe pf t f" "channel_sockets pf ?t = channel_sockets pf t"
    by (simp_all add: channel_pipe_def channel_sockets_def f)
  moreover have "f (with_keys ?t ks) = f ?t" for ks by (simp add: f)
  from Cons.IH [OF this] have "map_each channels (address_step pf f) ?t =
    (Inr (map (channel_pipe pf ?t f) channels), with_keys ?t (concat (map (channel_sockets pf ?t) channels)))" .
  ultimately show ?case by (simp add: bindM_def op_simps)
qed (simp add: op_simps)

lemma WriteAddress_exact:
  assumes "property_store pf view" and "\<And>ks. f (with_keys t ks) = f t"
  shows "WriteAddress pf channels f t =
    (Inr (), t\<lparr>fRegisteredKeys := fRegisteredKeys t @ concat (map (channel_sockets pf t) channels),
             world := pipe_exec pf (concat (map (channel_pipe pf t f) channels)) (world t)\<rparr>)"
  by (simp add: WriteAddress_step try_log_def bindM_def address_loop_exact [OF assms] on_world_def modify_apply)
    (simp add: with_keys_def)

lemma my_key_neq:
  assumes "\<not> starts_with p q" and "\<not> starts_with q p"
  shows "my_key t [p, a] \<noteq> my_key t [q, b]"
proof
  assume "my_key t [p, a] = my_key t [q, b]"
  then have "p @ fSeparator t @ a = q @ fSeparator t @ b" by (simp add: my_key_def join_def)
  then obtain u where "p = q @ u \<or> p @ u = q"
    unfolding append_eq_append_conv2 by blast
  with assms show False by (elim disjE) auto
qed

lemma socket_key_neq: "socket_key t k \<noteq> channel_key t n"
  unfolding socket_key_def channel_key_def
  by (rule my_key_neq) (simp_all add: topology_constants starts_with_def)

definition bound_hash :: "string smap" where "bound_hash = [(''bound'', ''1'')]"

lemma fold_bound:
  assumes "\<And>c m. c \<in> set p \<Longrightarrow> cmd_effect c m k = m k \<or> c = HSet k bound_hash"
    and "m k = Some (RHash bound_hash) \<or> m k = None \<and> HSet k bound_hash \<in> set p"
  shows "fold cmd_effect p m k = Some (RHash bound_hash)"
  using assms
proof (induction p arbitrary: m)
  case (Cons c p)
  consider "c = HSet k bound_hash" | "cmd_effect c m k = m k" "c \<noteq> HSet k bound_hash"
    using Cons.prems(1) [of c m] by auto
  then show ?case
  proof cases
    case 1
    then have "cmd_effect c m k = Some (RHash bound_hash)"
      using Cons.prems(2) by (auto simp: hash_put_def bound_hash_def)
    then show ?thesis using Cons.prems(1) by (simp add: Cons.IH)
  next
    case 2
    then show ?thesis using Cons.prems by (auto intro!: Cons.IH)
  qed
qed simp

section \<open>Properties\<close>

definition sample_topo :: "world topo" where
  "sample_topo =
     \<lparr>fServiceName = ''Sink'', fId = ''Sink-0'', fSeparator = '':'', fTopPrefix = TopPrefix, fMaxTtl = 5,
      fEnableUds = True, fConnectConfig = [], fMaxRetryToResolveAddress = 10,
      fDefaultChannelProperties = [], fCustomChannelProperties = [],
      fBindChannels = [(''in'', default_SocketProperty\<lparr>sp_name := ''in'', sp_method := ''bind''\<rparr>)],
      fConnectChannels = [],
      fLinks = [(''Sink:in,Sampler:out'',
        \<lparr>myService = ''Sink'', myChannel = ''in'', peerService = ''Sampler'', peerChannel = ''out'', lp_options = []\<rparr>)],
      fRegisteredKeys = [], fHostIp = [],
      world = \<lparr>store = [(''daq_service:Sampler:Sampler-0:presence'', RStr [])], props = [],
               canceled = False, pauses = 0\<rparr>\<rparr>"

text \<open>
  The exception is real: the \<^verbatim>\<open>bound\<close> flag of a bind channel whose key the device has not
  registered (\<^verbatim>\<open>WriteChannel\<close> returns early for a channel without peers) is written without a time
  to live, and is still in the registry after the reset.
\<close>

theorem bound_flag_outlives_reset:
  assumes "redis_server pf view matches" and "property_store pf view"
    and "(n, sp) \<in> set (fBindChannels t)" and "channel_key t n \<notin> set (fRegisteredKeys t)"
    and "view (world t) (channel_key t n) = None"
  shows "view (world (topo_run pf Op_Reset (topo_run pf Op_WriteBind t))) (channel_key t n) = Some (RHash bound_hash)"
proof -
  let ?k = "channel_key t n"
  let ?pipe = "concat (map (channel_pipe pf t channel_bound_cmds) (fBindChannels t))"
  let ?ks = "fRegisteredKeys t @ concat (map (channel_sockets pf t) (fBindChannels t))"
  let ?t = "t\<lparr>fRegisteredKeys := ?ks, world := pipe_exec pf ?pipe (world t)\<rparr>"
  have f: "channel_bound_cmds (with_keys t ks) = channel_bound_cmds t" for ks
    by (simp add: channel_bound_cmds_def fun_eq_iff)
  have run: "topo_run pf Op_WriteBind t = ?t"
    using assms(3) by (auto simp: WriteBindAddress_def op_simps WriteAddress_exact [OF assms(2) f])
  have "fold cmd_effect ?pipe (view (world t)) ?k = Some (RHash bound_hash)"
  proof (rule fold_bound)
    show "cmd_effect c m ?k = m ?k \<or> c = HSet ?k bound_hash" if "c \<in> set ?pipe" for c m
    proof -
      have "c = HSet ?k bound_hash \<or> ?k \<notin> set (cmd_keys c)"
        using that by (auto simp: channel_pipe_def write_socket_cmds_def channel_bound_cmds_def
            bound_hash_def socket_key_neq [symmetric] channel_key_def [symmetric])
      then show ?thesis using cmd_effect_frame by blast
    qed
    show "view (world t) ?k = Some (RHash bound_hash) \<or> view (world t) ?k = None \<and> HSet ?k bound_hash \<in> set ?pipe"
      using assms(3,5) by (force simp: channel_pipe_def channel_bound_cmds_def bound_hash_def channel_key_def)
  qed
  moreover have "?k \<notin> set ?ks"
    using assms(4) by (auto simp: channel_sockets_def socket_key_neq [symmetric])
  ultimately show ?thesis
    unfolding run
    by (simp add: Reset_def topo_Unregister_def only_if_def on_world_def seqM_def bindM_def gets_def modify_def
        ret_def fold_pr_del [OF assms(2)] view_run [OF assms(1)] view_pipe_exec [OF assms(1)])
qed

theorem bound_flag_outlives_reset_witness:
  "ref_view (world (topo_run ref_platform Op_Reset (topo_run ref_platform Op_WriteBind sample_topo)))
     ''daq_service:Sink:Sink-0:channel:in'' = Some (RHash [(''bound'', ''1'')])"
  using bound_flag_outlives_reset [OF ref_redis_server ref_property_store,
      of "''in''" "default_SocketProperty\<lparr>sp_name := ''in'', sp_method := ''bind''\<rparr>" sample_topo]
  by (simp add: sample_topo_def channel_key_def my_key_def join_def topology_constants TopPrefix_def
      ref_view_def bound_hash_def)

text \<open>
  C10. \<^verbatim>\<open>WriteChannel\<close> publishes a channel with peers under a key of its own and the peers under a
  list next to it; both are registered, and a device that reads them gets back the socket
  properties and the peers, in order.
\<close>

theorem write_channel_publishes:
  assumes "redis_server pf view matches" and "property_store pf view" and "peers \<noteq> []" and "sp_int32 sp"
    and "view (world t) (channel_key t (sp_name sp)) = None"
    and "view (world t) (peer_list_key t (sp_name sp)) = None"
    and "t' = snd (WriteChannel pf sp peers t)"
  shows "ToSocketProperty (rd_hgetall pf (world t') (channel_key t (sp_name sp))) = Inr sp \<and>
    rd_lrange pf (world t') (peer_list_key t (sp_name sp)) = peers \<and>
    pr_get pf (world t') (''n-peers:'' @ sp_name sp) = Some (show_nat (length peers)) \<and>
    {channel_key t (sp_name sp), peer_list_key t (sp_name sp)} \<subseteq> set (fRegisteredKeys t')"
proof -
  note eff = WriteChannel_effect [OF assms(1-3,5-7)]
  have "view (world t') (channel_key t (sp_name sp)) = Some (RHash (hash_put (channel_fields sp) []))"
    by (simp add: eff(2) peer_list_key_def)
  moreover have "map_of (hash_put (channel_fields sp) []) = map_of (channel_fields sp)"
    by (rule map_of_hash_put_distinct) (rule distinct_channel_fields)
  ultimately have "ToSocketProperty (rd_hgetall pf (world t') (channel_key t (sp_name sp))) = Inr sp"
    using hgetall_hash [OF assms(1)] by (metis read_channel_fields [OF assms(4)])
  moreover have "rd_lrange pf (world t') (peer_list_key t (sp_name sp)) = peers"
    by (rule lrange_list [OF assms(1)]) (simp add: eff(2))
  moreover note eff(4)
  ultimately show ?thesis by (simp add: eff(3))
qed

theorem write_channel_publishes_witness:
  "ToSocketProperty (rd_hgetall ref_platform (world (snd (WriteChannel ref_platform
       (default_SocketProperty\<lparr>sp_name := ''in''\<rparr>) [''p''] sample_topo))) ''daq_service:Sink:Sink-0:channel:in'') =
     Inr (default_SocketProperty\<lparr>sp_name := ''in''\<rparr>)"
  using write_channel_publishes [OF ref_redis_server ref_property_store,
      of "[''p'']" "default_SocketProperty\<lparr>sp_name := ''in''\<rparr>" sample_topo]
  by (simp add: sample_topo_def channel_key_def peer_list_key_def my_key_def join_def topology_constants
      TopPrefix_def ref_view_def sp_int32_def int32_def default_SocketProperty_def)



text \<open>
  The search for the sub-channels of a channel ends, and finds the sub-channels
  \<^verbatim>\<open>0, 1, ..., n-1\<close> up to the first index without any property.
\<close>

theorem sub_channels_complete:
  assumes "property_store pf view"
  shows "\<exists>n. sub_channels pf w p 0 = Some (map (\<lambda>j. (p @ show_nat j, pr_prefix pf w (p @ show_nat j))) [0..<n]) \<and>
    pr_prefix pf w (p @ show_nat n) = [] \<and> (\<forall>j<n. pr_prefix pf w (p @ show_nat j) \<noteq> [])"
proof -
  obtain n where "sub_channels pf w p 0 = Some (map (sub_channel pf w p) [0..<n])"
    "pr_prefix pf w (p @ show_nat n) = []" "\<And>j. 0 \<le> j \<Longrightarrow> j < n \<Longrightarrow> pr_prefix pf w (p @ show_nat j) \<noteq> []"
    using sub_channels_total [OF assms, of w p 0] by metis
  then show ?thesis by (auto simp: sub_channel_def [abs_def])
qed

definition sample_props :: world where
  "sample_props =
     \<lparr>store = [], props = [(''chans.out.0.address'', ''a0''), (''chans.out.1.address'', ''a1''),
        (''chans.out.10.address'', ''a10'')], canceled = False, pauses = 0\<rparr>"

theorem sub_channels_complete_witness:
  "\<exists>n. pr_prefix ref_platform sample_props (''chans.out.'' @ show_nat n) = []"
  using sub_channels_complete [OF ref_property_store, of sample_props "''chans.out.''"] by blast

text \<open>
  With more than ten sub-channels the hash that is published for sub-channel 1 does not hold
  its own property: the prefix \<^verbatim>\<open>chans.<name>.1\<close> matches \<^verbatim>\<open>chans.<name>.10\<close> as well, and the property
  with the greatest name wins.
\<close>

theorem sub_channel_1_shadowed:
  assumes "property_store pf view"
    and "pr_get pf w (local_key_prefix sp @ ''10.'' @ f) = Some v10"
    and "f \<noteq> ''numSockets''" and "f \<noteq> ''autoSubChannel''" and "CHR ''.'' \<notin> set f"
    and "\<And>k. pr_get pf w k \<noteq> None \<Longrightarrow> fits k"
  shows "\<exists>k v. local_key_prefix sp @ ''1.'' @ f < k \<and> pr_get pf w k = Some v \<and>
    map_of (socket_hash sp (pr_prefix pf w (local_key_prefix sp @ ''1''))) f = Some v"
proof -
  let ?p = "local_key_prefix sp" let ?k10 = "?p @ ''10.'' @ f"
  let ?m = "pr_prefix pf w (?p @ ''1'')"
  let ?C = "{k \<in> fst ` set ?m. last_component k = f}"
  have wf: "smap_wf ?m" using assms(1) by (simp add: property_store_def)
  have last: "last_component ?k10 = f"
    using last_component_dot [of "?p @ ''10''" f] assms(2,5,6) by fastforce
  have "(?k10, v10) \<in> set ?m"
    by (rule pr_prefix_memI [OF assms(1) _ assms(2)]) (auto simp: starts_with_Cons)
  then have "?k10 \<in> fst ` set ?m" by (rule rev_image_eqI) simp
  with last have mem: "?k10 \<in> ?C" by blast
  define k where "k = Max ?C"
  have "finite ?C" by simp
  then have "k \<in> ?C" unfolding k_def using mem Max_in by blast
  then obtain v where v: "(k, v) \<in> set ?m" "last_component k = f" by force
  have "map_of (rev (map (\<lambda>(k, v). (last_component k, v)) ?m)) f = Some v"
    by (rule last_entry [where g = last_component, OF wf v]) (force simp: k_def intro!: Max_ge)
  moreover have "?p @ ''1.'' @ f < ?k10"
    unfolding list_less_def by (rule lexord_append_leftI) (simp add: less_char_def)
  ultimately have hash: "map_of (socket_hash sp ?m) f = Some v" "?p @ ''1.'' @ f < ?k10"
    by (simp_all only: map_of_socket_hash [OF assms(3,4)])
  have "?k10 \<le> k" unfolding k_def using mem by (intro Max_ge) auto
  with hash(2) have "?p @ ''1.'' @ f < k" by (rule less_le_trans)
  moreover have "pr_get pf w k = Some v" by (rule pr_prefix_mem(2) [OF assms(1) v(1)])
  ultimately show ?thesis using hash(1) by blast
qed

theorem sub_channel_1_shadowed_witness:
  "\<exists>k v. ''chans.out.1.address'' < k \<and> pr_get ref_platform sample_props k = Some v \<and>
     map_of (socket_hash (default_SocketProperty\<lparr>sp_name := ''out''\<rparr>)
       (pr_prefix ref_platform sample_props ''chans.out.1'')) ''address'' = Some v"
proof -
  let ?sp = "default_SocketProperty\<lparr>sp_name := ''out''\<rparr>"
  have key: "local_key_prefix ?sp @ ''10.'' @ ''address'' = ''chans.out.10.address''"
    "local_key_prefix ?sp @ ''1.'' @ ''address'' = ''chans.out.1.address''"
    "local_key_prefix ?sp @ ''1'' = ''chans.out.1''"
    by (simp_all add: local_key_prefix_def)
  have "pr_get ref_platform sample_props ''chans.out.10.address'' = Some ''a10''"
    by (simp add: ref_sel sample_props_def)
  moreover have "fits k" if "pr_get ref_platform sample_props k \<noteq> None" for k
    using that by (auto simp: ref_sel sample_props_def fits_def npos_def size_max_def split: if_splits)
  ultimately show ?thesis
    using sub_channel_1_shadowed [OF ref_property_store, of sample_props ?sp "''address''" "''a10''"]
    unfolding key by simp
qed

end
