(* ===== verification/Connect.thy ===== *)
theory Connect
  imports Topology
begin

text \<open>
  The part of \<^verbatim>\<open>plugins/TopologyConfig.cxx\<close> that deals with the peers of a device: waiting until
  their channels are bound, resolving the addresses the device connects to (from the registry,
  \<open>ResolveConnectAddress\<close>, or from the option \<^verbatim>\<open>connect-config\<close>, \<open>ConfigConnect\<close>), waiting until the
  peers are ready, and the handler \<open>OnDeviceStateChange\<close> that calls all of it.
\<close>

section \<open>Waiting with the world\<close>

definition wait_op :: "('w \<Rightarrow> ('a res \<times> 'w) option) \<Rightarrow> ('w topo, 'a) opn" where
  "wait_op f t = (case f (world t) of None \<Rightarrow> (Inl NoReturn, t) | Some (r, w) \<Rightarrow> (r, t\<lparr>world := w\<rparr>))"

text \<open>
  The loop that asks for the address of a sub-channel, sleeping between the attempts, until it
  is there, the device is canceled or the number of retries is exceeded; \<open>nRetry\<close> is a 32-bit
  integer.
\<close>

function retry_address :: "'w platform \<Rightarrow> int \<Rightarrow> string \<Rightarrow> int \<Rightarrow> 'w \<Rightarrow> string option res \<times> 'w" where
  "retry_address pf max_retry k nRetry w =
     (case rd_hget pf w k ''address'' of
        Some a \<Rightarrow> (Inr (Some a), w)
      | None \<Rightarrow>
          if is_canceled pf w \<or> max_retry < nRetry then (Inr None, w)
          else if nRetry = 2147483647 then (Inl UndefinedBehaviour, pause pf w)
          else retry_address pf max_retry k (nRetry + 1) (pause pf w))"
  by auto

termination by (relation "measure (\<lambda>(pf, m, k, n, w). nat (m + 1 - n))") auto

declare retry_address.simps [simp del]

definition find_hash_address :: "'w platform \<Rightarrow> string \<Rightarrow> ('w topo, string option) opn" where
  "find_hash_address pf k =
     bindM (gets fMaxRetryToResolveAddress) (\<lambda>m. wait_op (\<lambda>w. Some (retry_address pf m k 0 w)))"

section \<open>The address of a peer: ReadPeerAddress\<close>

definition ReadPeerAddress :: "'w platform \<Rightarrow> string \<Rightarrow> ('w topo, string list) opn" where
  "ReadPeerAddress pf peer =
     bindM (gets fSeparator) (\<lambda>sep.
       let peerInstanceKey = take (find_str peer (sep @ ChannelPrefix)) peer;
           peerHealthKey = join [peerInstanceKey, HealthPrefix] sep;
           peerChan = drop (sz_add (find_last_of peer sep) 1) peer;
           scanPattern = join [peerInstanceKey, SocketPrefix, ''chans.'' @ peerChan @ ''.*''] sep
       in bindM (gets (\<lambda>t. rd_hget pf (world t) peerHealthKey ''hostIp'')) (\<lambda>peerIP.
          bindM (asks (\<lambda>t. scan pf (world t) scanPattern)) (\<lambda>subSocketKeys.
            map_each (sort subSocketKeys) (\<lambda>k.
              bindM (find_hash_address pf k) (\<lambda>a.
                case a of None \<Rightarrow> ret []
                | Some address \<Rightarrow>
                    (case peerIP of None \<Rightarrow> raise UndefinedBehaviour
                     | Some ip \<Rightarrow> lift_res (MakeAddress address ip)))))))"

section \<open>Matching the peers: ResolveConnectAddress\<close>

text \<open>\<^verbatim>\<open>address[i]\<close>; the assertions on the size are not compiled into a release build.\<close>

definition at :: "'a list \<Rightarrow> nat \<Rightarrow> 'a res" where
  "at xs i = (if i < length xs then Inr (xs ! i) else Inl UndefinedBehaviour)"

definition index_of :: "string \<Rightarrow> string list \<Rightarrow> nat" where
  "index_of x xs = length (takeWhile (\<lambda>y. y \<noteq> x) xs)"

definition append_address :: "SocketProperty \<Rightarrow> string \<Rightarrow> SocketProperty" where
  "append_address sp a = sp\<lparr>sp_address := sp_address sp @ (if sp_address sp = [] then a else '','' @ a)\<rparr>"

text \<open>
  The body of the loop over the peers after the address has been read: the new result, the new
  \<open>is1to1\<close>, and whether the loop goes on.
\<close>

definition match_address ::
  "SocketProperty \<Rightarrow> SocketProperty \<Rightarrow> nat \<Rightarrow> nat \<Rightarrow> nat \<Rightarrow> string list \<Rightarrow> bool \<Rightarrow> SocketProperty \<Rightarrow>
   (SocketProperty \<times> bool \<times> bool) res" where
  "match_address sp peerProperty n_peers myIndex peerIndex address is1to1 r =
     (if numSockets sp \<le> 1 \<and> numSockets peerProperty \<le> 1 then
        (if myIndex = peerIndex \<or> n_peers = 1
         then bindR (at address 0) (\<lambda>a. Inr (r\<lparr>sp_address := a\<rparr>, True, False))
         else Inr (r, True, True))
      else if numSockets sp \<le> 1 then
        bindR (at address myIndex) (\<lambda>a. Inr (r\<lparr>sp_address := a\<rparr>, is1to1, True))
      else if numSockets peerProperty \<le> 1 then
        bindR (at address 0) (\<lambda>a. Inr (append_address r a, is1to1, True))
      else
        bindR (at address myIndex) (\<lambda>a. Inr (append_address r a, is1to1, True)))"

fun resolve_peers ::
  "'w platform \<Rightarrow> SocketProperty \<Rightarrow> string \<Rightarrow> nat \<Rightarrow> string list \<Rightarrow> nat \<Rightarrow> bool \<Rightarrow> SocketProperty \<Rightarrow>
   ('w topo, SocketProperty) opn" where
  "resolve_peers pf sp myChannelKey n_peers [] peerIndex is1to1 r = ret r"
| "resolve_peers pf sp myChannelKey n_peers (p # ps) peerIndex is1to1 r =
     bindM (gets (\<lambda>t. index_of myChannelKey (rd_lrange pf (world t) (join [p, PeerPrefix] (fSeparator t))))) (\<lambda>myIndex.
       if is1to1 \<and> myIndex \<noteq> peerIndex
       then resolve_peers pf sp myChannelKey n_peers ps (Suc peerIndex) is1to1 r
       else
         bindM (asks (\<lambda>t. ToSocketProperty (rd_hgetall pf (world t) p))) (\<lambda>peerProperty.
         bindM (ReadPeerAddress pf p) (\<lambda>address.
         bindM (lift_res (match_address sp peerProperty n_peers myIndex peerIndex address is1to1 r)) (\<lambda>(r, is1to1, go_on).
           if go_on then resolve_peers pf sp myChannelKey n_peers ps (Suc peerIndex) is1to1 r else ret r))))"

definition resolve_channel :: "'w platform \<Rightarrow> string \<times> SocketProperty \<Rightarrow> ('w topo, (string \<times> string) option) opn" where
  "resolve_channel pf = (\<lambda>(name, sp).
     if sp_address sp \<noteq> [] \<and> sp_address sp \<noteq> ''unspecified'' then ret None
     else
       bindM (gets (\<lambda>t. my_key t [ChannelPrefix, sp_name sp])) (\<lambda>myChannelKey.
       bindM (gets (\<lambda>t. rd_lrange pf (world t) (join [myChannelKey, PeerPrefix] (fSeparator t)))) (\<lambda>peers.
       bindM (resolve_peers pf sp myChannelKey (length peers) peers 0 False sp) (\<lambda>r.
       bindM (lift_res (ToChannelConfig r)) (\<lambda>option. ret (Some (sp_name r, option)))))))"

definition add_option :: "string \<times> string \<Rightarrow> string list smap \<Rightarrow> string list smap" where
  "add_option = (\<lambda>(n, option) m.
     smap_put n ((case map_of m n of None \<Rightarrow> [] | Some os \<Rightarrow> os) @ [option]) m)"

definition ResolveConnectAddress :: "'w platform \<Rightarrow> ('w topo, unit) opn" where
  "ResolveConnectAddress pf =
     bindM (gets fConnectChannels) (\<lambda>channels.
       if channels = [] then ret ()
       else
         bindM (map_each channels (resolve_channel pf)) (\<lambda>found.
           let options = fold add_option (List.map_filter (\<lambda>x. x) found) []
           in only_if (options \<noteq> [])
             (try_log (for_each options (\<lambda>(name, channelConfig).
                bindM (asks (\<lambda>t. mq_subopt pf channelConfig (fServiceName t))) (set_channel_properties pf))))))"

section \<open>Waiting for the peers\<close>

text \<open>The far end of a link of a channel, from the side this service is on.\<close>

definition peer_of :: "'w topo \<Rightarrow> SocketProperty \<Rightarrow> LinkProperty \<Rightarrow> (string \<times> string) option" where
  "peer_of t sp lp =
     (if fServiceName t = myService lp \<and> sp_name sp = myChannel lp then Some (peerService lp, peerChannel lp)
      else if fServiceName t = peerService lp \<and> sp_name sp = peerChannel lp then Some (myService lp, myChannel lp)
      else None)"

definition channel_links :: "'w topo \<Rightarrow> SocketProperty smap \<Rightarrow> (SocketProperty \<times> LinkProperty) list" where
  "channel_links t channels = List.product (map snd channels) (map snd (fLinks t))"

subsection \<open>WaitBindAddress\<close>

fun peer_channels ::
  "'w platform \<Rightarrow> 'w topo \<Rightarrow> (SocketProperty \<times> LinkProperty) list \<Rightarrow> string list \<Rightarrow> string list res" where
  "peer_channels pf t [] channels = Inr channels"
| "peer_channels pf t ((sp, lp) # ps) channels =
     (case peer_of t sp lp of
        None \<Rightarrow> peer_channels pf t ps channels
      | Some (service, channel) \<Rightarrow>
          bindR (scan_parts pf (world t) [fTopPrefix t, service, ''*'', PresencePrefix] (fSeparator t)) (\<lambda>presenceKeys.
            peer_channels pf t ps
              (fold List.insert
                (map (\<lambda>a. join [instance_key (fSeparator t) a, ChannelPrefix, channel] (fSeparator t)) presenceKeys)
                channels)))"

definition is_bound :: "'w platform \<Rightarrow> string \<Rightarrow> 'w \<Rightarrow> bool" where
  "is_bound pf c w = (case rd_hget pf w c ''bound'' of None \<Rightarrow> False | Some v \<Rightarrow> parse_flag v)"

definition bound_verdict :: "'w platform \<Rightarrow> string \<Rightarrow> 'w \<Rightarrow> bool option" where
  "bound_verdict pf c w =
     (if is_bound pf c w then Some True else if is_canceled pf w then Some False else None)"

fun wait_channels :: "'w platform \<Rightarrow> string list \<Rightarrow> 'w \<Rightarrow> (unit res \<times> 'w) option" where
  "wait_channels pf [] w = Some (Inr (), w)"
| "wait_channels pf (c # cs) w =
     (case poll (bound_verdict pf c) (pause pf) w of
        None \<Rightarrow> None
      | Some (True, v) \<Rightarrow> wait_channels pf cs v
      | Some (False, v) \<Rightarrow> Some (Inr (), v))"

definition WaitBindAddress :: "'w platform \<Rightarrow> ('w topo, unit) opn" where
  "WaitBindAddress pf =
     bindM (gets fConnectChannels) (\<lambda>connect.
       if connect = [] then ret ()
       else bindM (asks (\<lambda>t. peer_channels pf t (channel_links t connect) [])) (\<lambda>cs. wait_op (wait_channels pf cs)))"

subsection \<open>WaitForPeerConnection and GetPeerState\<close>

definition peer_keys :: "'w topo \<Rightarrow> SocketProperty smap \<Rightarrow> string list" where
  "peer_keys t channels =
     fold List.insert
       (map (\<lambda>(service, channel). join [fTopPrefix t, service, ''*''] (fSeparator t))
         (List.map_filter (\<lambda>(sp, lp). peer_of t sp lp) (channel_links t channels))) []"

definition state_patterns :: "string \<Rightarrow> string list \<Rightarrow> string list" where
  "state_patterns sep peerKeys = map (\<lambda>k. join [k, FairMQStatePrefix] sep) peerKeys"

definition GetPeerState :: "'w platform \<Rightarrow> 'w topo \<Rightarrow> SocketProperty smap \<Rightarrow> string smap res" where
  "GetPeerState pf t channels =
     bindR (scan_merge pf (world t) (state_patterns (fSeparator t) (peer_keys t channels)) []) (\<lambda>stateKeys.
       if stateKeys = [] then Inr []
       else Inr (fold (\<lambda>(k, v) result.
              case v of None \<Rightarrow> result
              | Some s \<Rightarrow> smap_emplace (take (find_last_of k '':'') k) s result)
            (zip stateKeys (rd_mget pf (world t) stateKeys)) []))"

definition WaitDeviceReadyTargets :: "'w platform \<Rightarrow> string list" where
  "WaitDeviceReadyTargets pf = map (GetStateName pf) [DeviceReady, Ready, Running]"

definition all_in_one_target :: "'w platform \<Rightarrow> string list \<Rightarrow> bool" where
  "all_in_one_target pf states \<longleftrightarrow> list_ex (\<lambda>w. list_all (\<lambda>x. x = w) states) (WaitDeviceReadyTargets pf)"

definition ready_verdict :: "'w platform \<Rightarrow> string list \<Rightarrow> 'w \<Rightarrow> bool res option" where
  "ready_verdict pf patterns w =
     (if is_canceled pf w then Some (Inr False)
      else case scan_merge pf w patterns [] of
        Inl e \<Rightarrow> Some (Inl e)
      | Inr stateKeys \<Rightarrow>
          if stateKeys = [] then Some (Inr False)
          else if all_in_one_target pf (List.map_filter (\<lambda>x. x) (rd_mget pf w stateKeys)) then Some (Inr True)
          else None)"

text \<open>When the peers are ready the loop still sleeps once before it ends.\<close>

definition wait_ready :: "'w platform \<Rightarrow> string list \<Rightarrow> 'w \<Rightarrow> (unit res \<times> 'w) option" where
  "wait_ready pf patterns w =
     (case poll (ready_verdict pf patterns) (pause pf) w of
        None \<Rightarrow> None
      | Some (Inl e, v) \<Rightarrow> Some (Inl e, v)
      | Some (Inr True, v) \<Rightarrow> Some (Inr (), pause pf v)
      | Some (Inr False, v) \<Rightarrow> Some (Inr (), v))"

definition WaitForPeerConnection :: "'w platform \<Rightarrow> ('w topo, unit) opn" where
  "WaitForPeerConnection pf =
     bindM (gets (\<lambda>t. state_patterns (fSeparator t)
              (peer_keys t (filter (\<lambda>(name, sp). waitForPeerConnection sp) (fBindChannels t)))))
       (\<lambda>patterns. wait_op (wait_ready pf patterns))"

section \<open>Peers given by connect-config\<close>

text \<open>
  \<^verbatim>\<open>std::regex_match\<close> on the patterns of the source: groups of one or more characters of a class,
  matched greedily with backtracking, between literal characters. The separator is taken
  literally, as it is unless it is a special character of regular expressions.
\<close>

datatype re_item = Group "char \<Rightarrow> bool" | Lit char

definition word_char :: "char \<Rightarrow> bool" where
  "word_char c \<longleftrightarrow> is_digit c \<or> c = CHR ''_'' \<or>
     65 \<le> (of_char c :: nat) \<and> (of_char c :: nat) \<le> 90 \<or> 97 \<le> (of_char c :: nat) \<and> (of_char c :: nat) \<le> 122"

primrec regex_match :: "re_item list \<Rightarrow> string \<Rightarrow> string list option" where
  "regex_match [] = (\<lambda>s. if s = [] then Some [] else None)"
| "regex_match (i # r) = (\<lambda>s.
     case i of
       Lit c \<Rightarrow> (case s of [] \<Rightarrow> None | d # ds \<Rightarrow> if d = c then regex_match r ds else None)
     | Group P \<Rightarrow>
         (case List.find (\<lambda>k. regex_match r (drop k s) \<noteq> None) (rev [1..<Suc (length (takeWhile P s))]) of
            None \<Rightarrow> None
          | Some k \<Rightarrow> map_option (\<lambda>gs. take k s # gs) (regex_match r (drop k s))))"

abbreviation w_plus :: re_item where "w_plus \<equiv> Group word_char"
abbreviation d_plus :: re_item where "d_plus \<equiv> Group is_digit"

definition sub_index :: "re_item list" where
  "sub_index = [Lit (CHR ''[''), d_plus, Lit (CHR '']'')]"

definition instance_items :: "re_item list" where
  "instance_items = [w_plus, Lit (CHR ''-''), d_plus]"

text \<open>
  What a peer text stands for: service, instance id, channel and, if given, the index of the
  sub-channel. \<open>None\<close> is a peer that is skipped.
\<close>

definition parse_peer :: "string \<Rightarrow> string \<Rightarrow> (string \<times> string \<times> string \<times> string option) option" where
  "parse_peer sep p =
     (let nSeparators = length (filter (\<lambda>c. c = (case sep of [] \<Rightarrow> CHR 0x00 | d # ds \<Rightarrow> d)) p);
          hasSubChannelIndex = (find_str p ''['' \<noteq> npos);
          s = map Lit sep
      in if nSeparators = 2 then
           (if hasSubChannelIndex then
              (case regex_match ([w_plus] @ s @ instance_items @ s @ [w_plus] @ sub_index) p of
                 Some [service, inst, idx, channel, sub] \<Rightarrow> Some (service, inst @ ''-'' @ idx, channel, Some sub)
               | _ \<Rightarrow> None)
            else
              (case regex_match ([w_plus] @ s @ instance_items @ s @ [w_plus]) p of
                 Some [service, inst, idx, channel] \<Rightarrow> Some (service, inst @ ''-'' @ idx, channel, None)
               | _ \<Rightarrow> None))
         else if nSeparators = 1 then
           (if hasSubChannelIndex then
              (case regex_match (instance_items @ s @ [w_plus] @ sub_index) p of
                 Some [inst, idx, channel, sub] \<Rightarrow> Some (inst, inst @ ''-'' @ idx, channel, Some sub)
               | _ \<Rightarrow>
                   (case regex_match ([w_plus] @ s @ [w_plus] @ sub_index) p of
                      Some [service, channel, sub] \<Rightarrow> Some (service, service @ ''-0'', channel, Some sub)
                    | _ \<Rightarrow> None))
            else
              (case regex_match (instance_items @ s @ [w_plus]) p of
                 Some [inst, idx, channel] \<Rightarrow> Some (inst, inst @ ''-'' @ idx, channel, None)
               | _ \<Rightarrow>
                   (case regex_match ([w_plus] @ s @ [w_plus]) p of
                      Some [service, channel] \<Rightarrow> Some (service, service @ ''-0'', channel, None)
                    | _ \<Rightarrow> None)))
         else None)"

definition findPeerIP :: "'w platform \<Rightarrow> 'w topo \<Rightarrow> string \<Rightarrow> string \<Rightarrow> string" where
  "findPeerIP pf t service i =
     (let idFull = join [service, i] (fSeparator t);
          peerHealthKey = join [fTopPrefix t, idFull, HealthPrefix] (fSeparator t)
      in case rd_hget pf (world t) peerHealthKey ''hostIp'' of None \<Rightarrow> [] | Some ip \<Rightarrow> ip)"

definition findAddress :: "'w platform \<Rightarrow> string \<Rightarrow> string \<Rightarrow> string \<Rightarrow> string \<Rightarrow> ('w topo, string) opn" where
  "findAddress pf service i channel subChannelIndex =
     bindM (gets (\<lambda>t. findPeerIP pf t service i)) (\<lambda>peerIP.
       if peerIP = [] then ret []
       else
         bindM (gets (\<lambda>t. join [fTopPrefix t, join [service, i, SocketPrefix,
              ''chans.'' @ channel @ ''.'' @ subChannelIndex] (fSeparator t)] (fSeparator t))) (\<lambda>k.
         bindM (find_hash_address pf k) (\<lambda>a.
           case a of None \<Rightarrow> ret [] | Some address \<Rightarrow> lift_res (MakeAddress address peerIP))))"

definition findAddresses :: "'w platform \<Rightarrow> string \<Rightarrow> string \<Rightarrow> string \<Rightarrow> ('w topo, string list) opn" where
  "findAddresses pf service i channel =
     bindM (gets (\<lambda>t. findPeerIP pf t service i)) (\<lambda>peerIP.
       if peerIP = [] then ret []
       else
         bindM (asks (\<lambda>t. scan pf (world t)
              (join [fTopPrefix t, service, i, SocketPrefix, channel] (fSeparator t)))) (\<lambda>socketKeys.
         bindM (map_each socketKeys (\<lambda>k.
            bindM (find_hash_address pf k) (\<lambda>a.
              case a of None \<Rightarrow> ret [] | Some address \<Rightarrow>
                bindM (lift_res (MakeAddress address peerIP)) (\<lambda>x. ret [x])))) (\<lambda>found. ret (concat found))))"

definition resolve_peer :: "'w platform \<Rightarrow> bool \<Rightarrow> string \<Rightarrow> ('w topo, string list) opn" where
  "resolve_peer pf auto p =
     bindM (gets (\<lambda>t. parse_peer (fSeparator t) p)) (\<lambda>parsed.
       case parsed of
         None \<Rightarrow> ret []
       | Some (service, i, channel, sub) \<Rightarrow>
           if sub = None \<and> auto then findAddresses pf service i channel
           else bindM (findAddress pf service i channel (case sub of None \<Rightarrow> ''0'' | Some s \<Rightarrow> s))
                  (\<lambda>a. ret (if a = [] then [] else [a])))"

definition peer_list :: "ptree \<Rightarrow> string list" where
  "peer_list peer = (if pt_data peer \<noteq> [] then [pt_data peer] else map (\<lambda>(_, a). pt_data a) (pt_children peer))"

text \<open>The addresses found are joined by commas, those that are empty left out.\<close>

definition join_addresses :: "string list \<Rightarrow> SocketProperty \<Rightarrow> SocketProperty" where
  "join_addresses addressList sp = fold (\<lambda>a sp. if a = [] then sp else append_address sp a) addressList sp"

definition config_channel :: "'w platform \<Rightarrow> string \<times> ptree \<Rightarrow> ('w topo, string) opn" where
  "config_channel pf = (\<lambda>(myChannelName, pt).
     seqM (modify (\<lambda>t. t\<lparr>fConnectChannels := smap_emplace myChannelName default_SocketProperty (fConnectChannels t)\<rparr>))
    (bindM (lift_res (case ptree_child pt ''peer'' of None \<Rightarrow> Inl (Failure ''No such node (peer)'') | Some c \<Rightarrow> Inr c)) (\<lambda>peer.
     bindM (gets (\<lambda>t. the (map_of (fConnectChannels t) myChannelName))) (\<lambda>sp.
     bindM (map_each (peer_list peer) (resolve_peer pf (autoSubChannel sp))) (\<lambda>found.
       let sp' = join_addresses (concat found) sp
       in seqM (put_channel False myChannelName sp') (lift_res (ToChannelConfig sp')))))))"

text \<open>The options of the channels become properties of the device.\<close>

definition set_channel_options :: "'w platform \<Rightarrow> string list \<Rightarrow> ('w topo, unit) opn" where
  "set_channel_options pf channelConfigOptions =
     only_if (channelConfigOptions \<noteq> [])
       (try_log (bindM (asks (\<lambda>t. mq_subopt pf channelConfigOptions (fServiceName t))) (set_channel_properties pf)))"

definition ConfigConnect :: "'w platform \<Rightarrow> ('w topo, unit) opn" where
  "ConfigConnect pf =
     bindM (asks (\<lambda>t. json_read pf (fConnectConfig t))) (\<lambda>pt.
     bindM (map_each (pt_children pt) (config_channel pf)) (set_channel_options pf))"

section \<open>The handler\<close>

definition unless_canceled :: "'w platform \<Rightarrow> ('w topo, unit) opn \<Rightarrow> ('w topo, unit) opn" where
  "unless_canceled pf m = bindM (gets (\<lambda>t. is_canceled pf (world t))) (\<lambda>c. only_if (\<not> c) m)"

definition OnDeviceStateChange :: "'w platform \<Rightarrow> DeviceState \<Rightarrow> ('w topo, unit) opn" where
  "OnDeviceStateChange pf newState =
     try_log (case newState of
         InitializingDevice \<Rightarrow> Initialize pf
       | Bound \<Rightarrow>
           seqM (WriteBindAddress pf) (unless_canceled pf
          (seqM (WaitBindAddress pf) (unless_canceled pf
          (seqM (bindM (gets fConnectConfig) (\<lambda>c. if c \<noteq> [] then ConfigConnect pf else ResolveConnectAddress pf))
                (unless_canceled pf
          (seqM (WriteConnectAddress pf) (WaitForPeerConnection pf)))))))
       | ResettingDevice \<Rightarrow> Reset pf
       | _ \<Rightarrow> ret ())"

section \<open>The retry loop\<close>

text \<open>
  The loop asks at most \<open>max_retry + 2\<close> times, and stops at the first attempt that finds the
  address or that finds the device canceled.
\<close>

lemma retry_address_cases:
  assumes "retry_address pf m k i w = (r, v)" and "0 \<le> i" and "m < 2147483647"
  shows "\<exists>n. v = (pause pf ^^ n) w \<and> int n \<le> max 0 (m + 1 - i) \<and>
    r = Inr (rd_hget pf v k ''address'') \<and>
    (\<forall>j<n. rd_hget pf ((pause pf ^^ j) w) k ''address'' = None \<and> \<not> is_canceled pf ((pause pf ^^ j) w)) \<and>
    (rd_hget pf v k ''address'' = None \<longrightarrow> is_canceled pf v \<or> m < i + int n)"
  using assms
proof (induction pf m k i w rule: retry_address.induct)
  case (1 pf m k i w)
  show ?case
  proof (cases "rd_hget pf w k ''address'' = None \<and> \<not> is_canceled pf w \<and> i \<le> m")
    case True
    then have "retry_address pf m k (i + 1) (pause pf w) = (r, v)"
      using 1(2,4) by (subst (asm) retry_address.simps) (auto split: if_splits)
    moreover have "i \<noteq> 2147483647" using True 1(4) by simp
    ultimately obtain n where n: "v = (pause pf ^^ n) (pause pf w)" "int n \<le> max 0 (m + 1 - (i + 1))"
      "r = Inr (rd_hget pf v k ''address'')"
      "\<forall>j<n. rd_hget pf ((pause pf ^^ j) (pause pf w)) k ''address'' = None \<and>
         \<not> is_canceled pf ((pause pf ^^ j) (pause pf w))"
      "rd_hget pf v k ''address'' = None \<longrightarrow> is_canceled pf v \<or> m < i + 1 + int n"
      using 1(1,3,4) True by force
    have "rd_hget pf ((pause pf ^^ j) w) k ''address'' = None \<and> \<not> is_canceled pf ((pause pf ^^ j) w)" if "j < Suc n" for j
    proof (cases j)
      case (Suc l)
      then show ?thesis using that n(4) unfolding Suc funpow_Suc_front by blast
    qed (use True in simp)
    moreover have "v = (pause pf ^^ Suc n) w" using n(1) by (simp only: funpow_Suc_front)
    ultimately show ?thesis using n(2,3,5) True by (intro exI [of _ "Suc n"]) auto
  next
    case False
    then have "v = (pause pf ^^ 0) w" "r = Inr (rd_hget pf v k ''address'')"
      "rd_hget pf v k ''address'' = None \<longrightarrow> is_canceled pf v \<or> m < i"
      using 1(2) by (subst (asm) retry_address.simps, auto split: option.splits if_splits)+
    then show ?thesis by (intro exI [of _ 0]) auto
  qed
qed

section \<open>Regular expressions\<close>

lemma find_largest:
  assumes "P n" and "n \<le> N" and "\<And>k. n < k \<Longrightarrow> k \<le> N \<Longrightarrow> \<not> P k" and "i \<le> n"
  shows "List.find P (rev [i..<Suc N]) = Some n"
  using assms(2,3)
proof (induction N)
  case (Suc N)
  then show ?case
  proof (cases "n = Suc N")
    case False
    with Suc have "List.find P (rev [i..<Suc N]) = Some n" by auto
    moreover have "\<not> P (Suc N)" using Suc.prems False by auto
    ultimately show ?thesis using assms(4) Suc.prems(1) by simp
  qed (use assms in simp)
qed (use assms in simp)

lemma regex_group:
  assumes "u \<noteq> []" and "list_all P u" and "\<not> P c"
  shows "regex_match (Group P # Lit c # r) (u @ c # v) = map_option ((#) u) (regex_match r v)"
proof -
  let ?R = "regex_match (Lit c # r)"
  have tw: "takeWhile P (u @ c # v) = u"
    using assms(2,3) by (simp add: takeWhile_append list_all_iff)
  have at: "?R (drop (length u) (u @ c # v)) = regex_match r v" by simp
  have before: "?R (drop k (u @ c # v)) = None" if "k < length u" for k
  proof -
    have "drop k (u @ c # v) = u ! k # drop (Suc k) (u @ c # v)"
      using that by (simp add: Cons_nth_drop_Suc [symmetric] nth_append)
    moreover have "u ! k \<noteq> c" using that assms(2,3) by (metis list_all_length)
    ultimately show ?thesis by simp
  qed
  show ?thesis
  proof (cases "regex_match r v")
    case None
    then have "?R (drop k (u @ c # v)) = None" if "k \<le> length u" for k
      using before at that by (cases "k = length u") auto
    then have "List.find (\<lambda>k. ?R (drop k (u @ c # v)) \<noteq> None) (rev [1..<Suc (length u)]) = None"
      by (auto simp: find_None_iff simp del: regex_match.simps upt_Suc)
    with None tw show ?thesis by (simp del: upt_Suc)
  next
    case (Some gs)
    have "List.find (\<lambda>k. ?R (drop k (u @ c # v)) \<noteq> None) (rev [1..<Suc (length u)]) = Some (length u)"
      by (rule find_largest) (use Some assms(1) in \<open>simp_all add: Suc_le_eq\<close>)
    with Some tw show ?thesis by (simp del: upt_Suc)
  qed
qed

lemma regex_last:
  assumes "u \<noteq> []" and "list_all P u"
  shows "regex_match [Group P] u = Some [u]"
proof -
  have tw: "takeWhile P u = u" using assms(2) by (simp add: list_all_iff)
  have f: "List.find ((\<le>) (length u)) (rev [Suc 0..<Suc (length u)]) = Some (length u)"
    using assms(1) by (cases u) simp_all
  show ?thesis by (simp add: tw f del: upt_Suc)
qed

lemma regex_literal: "regex_match r s \<noteq> None \<Longrightarrow> Lit c \<in> set r \<Longrightarrow> c \<in> set s"
proof (induction r arbitrary: s)
  case (Cons i r)
  show ?case
  proof (cases i)
    case (Lit d)
    with Cons show ?thesis by (cases s) (auto split: if_splits)
  next
    case (Group P)
    then obtain k where "List.find (\<lambda>k. regex_match r (drop k s) \<noteq> None) (rev [1..<Suc (length (takeWhile P s))]) = Some k"
      using Cons.prems(1) by (auto split: option.splits simp del: upt_Suc)
    then have "regex_match r (drop k s) \<noteq> None" by (auto simp: find_Some_iff)
    moreover have "Lit c \<in> set r" using Cons.prems(2) Group by simp
    ultimately have "c \<in> set (drop k s)" by (rule Cons.IH)
    then show ?thesis by (meson in_set_dropD)
  qed
qed simp

section \<open>The texts of a peer\<close>

definition word :: "string \<Rightarrow> bool" where "word s \<longleftrightarrow> s \<noteq> [] \<and> list_all word_char s"
definition digits :: "string \<Rightarrow> bool" where "digits s \<longleftrightarrow> s \<noteq> [] \<and> list_all is_digit s"

definition separator_char :: "char \<Rightarrow> bool" where
  "separator_char c \<longleftrightarrow> \<not> word_char c \<and> c \<noteq> CHR ''-'' \<and> c \<noteq> CHR ''['' \<and> c \<noteq> CHR '']''"

lemma not_word_char [simp]:
  "\<not> word_char (CHR ''-'')" "\<not> word_char (CHR ''['')" "\<not> word_char (CHR '']'')" "\<not> word_char (CHR ''.'')"
  "\<not> is_digit (CHR ''['')" "\<not> is_digit (CHR '']'')"
  by (simp_all add: word_char_def is_digit_def)

lemma digit_word_char [simp]: "is_digit c \<Longrightarrow> word_char c"
  by (simp add: word_char_def)

lemma word_plain: "word s \<Longrightarrow> \<not> word_char c \<Longrightarrow> c \<notin> set s"
  by (auto simp: word_def list_all_iff)

lemma digits_word: "digits s \<Longrightarrow> word s"
  by (auto simp: digits_def word_def list_all_iff)

lemma count_plain: "c \<notin> set s \<Longrightarrow> filter (\<lambda>x. x = c) s = []"
  by (induction s) auto

lemma has_bracket:
  "fits (u @ ''['' @ v) \<Longrightarrow> find_str (u @ ''['' @ v) ''['' \<noteq> npos"
  by (simp only: find_str_npos) blast

lemma has_no_bracket:
  "fits s \<Longrightarrow> CHR ''['' \<notin> set s \<Longrightarrow> find_str s ''['' = npos"
  by (subst find_str_npos) auto

lemma regex_word: "word u \<Longrightarrow> \<not> word_char c \<Longrightarrow>
    regex_match (w_plus # Lit c # r) (u @ c # v) = map_option ((#) u) (regex_match r v)"
  by (rule regex_group) (simp_all add: word_def)

lemma regex_digits: "digits u \<Longrightarrow> \<not> is_digit c \<Longrightarrow>
    regex_match (d_plus # Lit c # r) (u @ c # v) = map_option ((#) u) (regex_match r v)"
  by (rule regex_group) (simp_all add: digits_def)

lemma regex_sub: "word ch \<Longrightarrow> digits sub \<Longrightarrow>
    regex_match (w_plus # sub_index) (ch @ ''['' @ sub @ '']'') = Some [ch, sub]"
  using regex_word [of ch "CHR ''[''" "[d_plus, Lit (CHR '']'')]" "sub @ '']''"]
    regex_digits [of sub "CHR '']''" "[]" "[]"]
  by (simp add: sub_index_def del: regex_match.simps) simp

lemma regex_chan: "word ch \<Longrightarrow> regex_match [w_plus] ch = Some [ch]"
  by (rule regex_last) (simp_all add: word_def)

lemma regex_instance:
  assumes "word inst" and "digits idx" and "\<not> word_char c"
  shows "regex_match (instance_items @ Lit c # r) (inst @ ''-'' @ idx @ c # v) =
      map_option (\<lambda>gs. inst # idx # gs) (regex_match r v)"
proof -
  have "\<not> is_digit c" using assms(3) by auto
  with regex_word [OF assms(1), of "CHR ''-''" "d_plus # Lit c # r" "idx @ c # v"]
    regex_digits [OF assms(2), of c r v]
  show ?thesis
    by (simp add: instance_items_def option.map_comp comp_def del: regex_match.simps)
qed

lemma regex_no_instance:
  assumes "CHR ''-'' \<notin> set s" shows "regex_match (instance_items @ r) s = None"
proof (rule ccontr)
  assume "regex_match (instance_items @ r) s \<noteq> None"
  moreover have "Lit (CHR ''-'') \<in> set (instance_items @ r)" by (simp add: instance_items_def)
  ultimately show False using regex_literal assms by blast
qed

text \<open>The six forms of a peer.\<close>

lemma filter_separator:
  assumes "separator_char c"
  shows "word s \<Longrightarrow> filter (\<lambda>x. x = c) s = []" "digits s \<Longrightarrow> filter (\<lambda>x. x = c) s = []"
  using assms by (auto simp: separator_char_def intro!: count_plain dest: digits_word word_plain)

lemma no_bracket:
  "word s \<Longrightarrow> CHR ''['' \<notin> set s" "digits s \<Longrightarrow> CHR ''['' \<notin> set s"
  "word s \<Longrightarrow> CHR ''-'' \<notin> set s" "digits s \<Longrightarrow> CHR ''-'' \<notin> set s"
  using word_plain [of s "CHR ''[''"] word_plain [of s "CHR ''-''"] digits_word [of s] by auto

lemma parse_full_sub:
  assumes "word service" "word inst" "digits idx" "word channel" "digits sub" "separator_char c"
    and "fits (service @ [c] @ inst @ ''-'' @ idx @ [c] @ channel @ ''['' @ sub @ '']'')"
  shows "parse_peer [c] (service @ [c] @ inst @ ''-'' @ idx @ [c] @ channel @ ''['' @ sub @ '']'') =
    Some (service, inst @ ''-'' @ idx, channel, Some sub)"
proof -
  let ?p = "service @ [c] @ inst @ ''-'' @ idx @ [c] @ channel @ ''['' @ sub @ '']''"
  have c: "\<not> word_char c" "c \<noteq> CHR ''-''" "c \<noteq> CHR ''[''" "c \<noteq> CHR '']''"
    using assms(6) by (simp_all add: separator_char_def)
  have "length (filter (\<lambda>x. x = c) ?p) = 2"
    using assms c by (simp add: filter_separator)
  moreover have "find_str ?p ''['' \<noteq> npos"
    using has_bracket [of "service @ [c] @ inst @ ''-'' @ idx @ [c] @ channel" "sub @ '']''"] assms(7) by simp
  moreover have "regex_match ([w_plus] @ [Lit c] @ instance_items @ [Lit c] @ [w_plus] @ sub_index) ?p =
      Some [service, inst, idx, channel, sub]"
    using regex_word [OF assms(1) c(1)] regex_instance [OF assms(2,3) c(1)] regex_sub [OF assms(4,5)]
    by (simp del: regex_match.simps)
  ultimately show ?thesis by (simp add: parse_peer_def Let_def del: regex_match.simps)
qed

lemma parse_full:
  assumes "word service" "word inst" "digits idx" "word channel" "separator_char c"
    and "fits (service @ [c] @ inst @ ''-'' @ idx @ [c] @ channel)"
  shows "parse_peer [c] (service @ [c] @ inst @ ''-'' @ idx @ [c] @ channel) =
    Some (service, inst @ ''-'' @ idx, channel, None)"
proof -
  let ?p = "service @ [c] @ inst @ ''-'' @ idx @ [c] @ channel"
  have c: "\<not> word_char c" "c \<noteq> CHR ''-''" "c \<noteq> CHR ''[''"
    using assms(5) by (simp_all add: separator_char_def)
  have "length (filter (\<lambda>x. x = c) ?p) = 2"
    using assms c by (simp add: filter_separator)
  moreover have "find_str ?p ''['' = npos"
    using assms c by (intro has_no_bracket) (simp_all add: no_bracket)
  moreover have "regex_match ([w_plus] @ [Lit c] @ instance_items @ [Lit c] @ [w_plus]) ?p =
      Some [service, inst, idx, channel]"
    using regex_word [OF assms(1) c(1)] regex_instance [OF assms(2,3) c(1)] regex_chan [OF assms(4)]
    by (simp del: regex_match.simps)
  ultimately show ?thesis by (simp add: parse_peer_def Let_def del: regex_match.simps)
qed

lemma parse_instance_sub:
  assumes "word inst" "digits idx" "word channel" "digits sub" "separator_char c"
    and "fits (inst @ ''-'' @ idx @ [c] @ channel @ ''['' @ sub @ '']'')"
  shows "parse_peer [c] (inst @ ''-'' @ idx @ [c] @ channel @ ''['' @ sub @ '']'') =
    Some (inst, inst @ ''-'' @ idx, channel, Some sub)"
proof -
  let ?p = "inst @ ''-'' @ idx @ [c] @ channel @ ''['' @ sub @ '']''"
  have c: "\<not> word_char c" "c \<noteq> CHR ''-''" "c \<noteq> CHR ''[''" "c \<noteq> CHR '']''"
    using assms(5) by (simp_all add: separator_char_def)
  have "length (filter (\<lambda>x. x = c) ?p) = 1"
    using assms c by (simp add: filter_separator)
  moreover have "find_str ?p ''['' \<noteq> npos"
    using has_bracket [of "inst @ ''-'' @ idx @ [c] @ channel" "sub @ '']''"] assms(6) by simp
  moreover have "regex_match (instance_items @ [Lit c] @ [w_plus] @ sub_index) ?p = Some [inst, idx, channel, sub]"
    using regex_instance [OF assms(1,2) c(1)] regex_sub [OF assms(3,4)] by (simp del: regex_match.simps)
  ultimately show ?thesis by (simp add: parse_peer_def Let_def del: regex_match.simps)
qed

lemma parse_instance:
  assumes "word inst" "digits idx" "word channel" "separator_char c" and "fits (inst @ ''-'' @ idx @ [c] @ channel)"
  shows "parse_peer [c] (inst @ ''-'' @ idx @ [c] @ channel) = Some (inst, inst @ ''-'' @ idx, channel, None)"
proof -
  let ?p = "inst @ ''-'' @ idx @ [c] @ channel"
  have c: "\<not> word_char c" "c \<noteq> CHR ''-''" "c \<noteq> CHR ''[''"
    using assms(4) by (simp_all add: separator_char_def)
  have "length (filter (\<lambda>x. x = c) ?p) = 1"
    using assms c by (simp add: filter_separator)
  moreover have "find_str ?p ''['' = npos"
    using assms c by (intro has_no_bracket) (simp_all add: no_bracket)
  moreover have "regex_match (instance_items @ [Lit c] @ [w_plus]) ?p = Some [inst, idx, channel]"
    using regex_instance [OF assms(1,2) c(1)] regex_chan [OF assms(3)] by (simp del: regex_match.simps)
  ultimately show ?thesis by (simp add: parse_peer_def Let_def del: regex_match.simps)
qed

lemma parse_service_sub:
  assumes "word service" "word channel" "digits sub" "separator_char c"
    and "fits (service @ [c] @ channel @ ''['' @ sub @ '']'')"
  shows "parse_peer [c] (service @ [c] @ channel @ ''['' @ sub @ '']'') =
    Some (service, service @ ''-0'', channel, Some sub)"
proof -
  let ?p = "service @ [c] @ channel @ ''['' @ sub @ '']''"
  have c: "\<not> word_char c" "c \<noteq> CHR ''-''" "c \<noteq> CHR ''[''" "c \<noteq> CHR '']''"
    using assms(4) by (simp_all add: separator_char_def)
  have "length (filter (\<lambda>x. x = c) ?p) = 1"
    using assms c by (simp add: filter_separator)
  moreover have "find_str ?p ''['' \<noteq> npos"
    using has_bracket [of "service @ [c] @ channel" "sub @ '']''"] assms(5) by simp
  moreover have "CHR ''-'' \<notin> set ?p" using assms c by (simp add: no_bracket)
  then have "regex_match (instance_items @ [Lit c] @ [w_plus] @ sub_index) ?p = None"
    by (rule regex_no_instance)
  moreover have "regex_match ([w_plus] @ [Lit c] @ [w_plus] @ sub_index) ?p = Some [service, channel, sub]"
    using regex_word [OF assms(1) c(1)] regex_sub [OF assms(2,3)] by (simp del: regex_match.simps)
  ultimately show ?thesis by (simp add: parse_peer_def Let_def del: regex_match.simps)
qed

lemma parse_service:
  assumes "word service" "word channel" "separator_char c" and "fits (service @ [c] @ channel)"
  shows "parse_peer [c] (service @ [c] @ channel) = Some (service, service @ ''-0'', channel, None)"
proof -
  let ?p = "service @ [c] @ channel"
  have c: "\<not> word_char c" "c \<noteq> CHR ''-''" "c \<noteq> CHR ''[''"
    using assms(3) by (simp_all add: separator_char_def)
  have "length (filter (\<lambda>x. x = c) ?p) = 1"
    using assms c by (simp add: filter_separator)
  moreover have "find_str ?p ''['' = npos"
    using assms c by (intro has_no_bracket) (simp_all add: no_bracket)
  moreover have "CHR ''-'' \<notin> set ?p" using assms c by (simp add: no_bracket)
  then have "regex_match (instance_items @ [Lit c] @ [w_plus]) ?p = None"
    by (rule regex_no_instance)
  moreover have "regex_match ([w_plus] @ [Lit c] @ [w_plus]) ?p = Some [service, channel]"
    using regex_word [OF assms(1) c(1)] regex_chan [OF assms(2)] by (simp del: regex_match.simps)
  ultimately show ?thesis by (simp add: parse_peer_def Let_def del: regex_match.simps)
qed

section \<open>Reading the addresses of a peer\<close>

definition peer_health_key :: "string \<Rightarrow> string \<Rightarrow> string" where
  "peer_health_key sep peer = join [take (find_str peer (sep @ ChannelPrefix)) peer, HealthPrefix] sep"

definition peer_socket_pattern :: "string \<Rightarrow> string \<Rightarrow> string" where
  "peer_socket_pattern sep peer =
     join [take (find_str peer (sep @ ChannelPrefix)) peer, SocketPrefix,
           ''chans.'' @ drop (sz_add (find_last_of peer sep) 1) peer @ ''.*''] sep"

lemma find_hash_address_found:
  "rd_hget pf (world t) k ''address'' = Some a \<Longrightarrow> find_hash_address pf k t = (Inr (Some a), t)"
  by (simp add: find_hash_address_def op_simps wait_op_def retry_address.simps)

lemma map_each_pure:
  assumes "\<And>x. x \<in> set xs \<Longrightarrow> body x t = (Inr (g x), t)"
  shows "map_each xs body t = (Inr (map g xs), t)"
  using assms by (induction xs) (simp_all add: op_simps bindM_def)

lemma ReadPeerAddress_published:
  assumes "rd_hget pf (world t) (peer_health_key (fSeparator t) p) ''hostIp'' = Some ip"
    and "scan pf (world t) (peer_socket_pattern (fSeparator t) p) = Inr keys"
    and "\<And>k. k \<in> set keys \<Longrightarrow> \<exists>a. rd_hget pf (world t) k ''address'' = Some a \<and> MakeAddress a ip = Inr (b k)"
  shows "ReadPeerAddress pf p t = (Inr (map b (sort keys)), t)"
proof -
  have "map_each (sort keys) (\<lambda>k. bindM (find_hash_address pf k) (\<lambda>a.
      case a of None \<Rightarrow> ret [] | Some address \<Rightarrow> lift_res (MakeAddress address ip))) t = (Inr (map b (sort keys)), t)"
  proof (rule map_each_pure)
    fix k assume "k \<in> set (sort keys)"
    then obtain a where "rd_hget pf (world t) k ''address'' = Some a" "MakeAddress a ip = Inr (b k)"
      using assms(3) [of k] by auto
    then show "bindM (find_hash_address pf k) (\<lambda>a. case a of None \<Rightarrow> ret []
        | Some address \<Rightarrow> lift_res (MakeAddress address ip)) t = (Inr (b k), t)"
      by (simp add: bindM_def find_hash_address_found lift_res_apply)
  qed
  then show ?thesis
    using assms(1,2)
    by (simp add: ReadPeerAddress_def op_simps bindM_def Let_def peer_health_key_def peer_socket_pattern_def)
qed

section \<open>The modes of the matching\<close>

text \<open>Everything about a peer of a channel is in the registry.\<close>

definition peer_known ::
  "'w platform \<Rightarrow> 'w topo \<Rightarrow> string \<Rightarrow> SocketProperty \<Rightarrow> string list \<Rightarrow> nat \<Rightarrow> string \<Rightarrow> bool" where
  "peer_known pf t my pp address i p \<longleftrightarrow>
     index_of my (rd_lrange pf (world t) (join [p, PeerPrefix] (fSeparator t))) = i \<and>
     ToSocketProperty (rd_hgetall pf (world t) p) = Inr pp \<and>
     ReadPeerAddress pf p t = (Inr address, t)"

lemma resolve_step:
  assumes "peer_known pf t my pp address i p" and "\<not> (is1to1 \<and> i \<noteq> k)"
  shows "resolve_peers pf sp my n (p # ps) k is1to1 r t =
    (case match_address sp pp n i k address is1to1 r of Inl e \<Rightarrow> (Inl e, t)
     | Inr (r, is1to1, go_on) \<Rightarrow> if go_on then resolve_peers pf sp my n ps (Suc k) is1to1 r t else (Inr r, t))"
  using assms by (auto simp: peer_known_def op_simps bindM_def split: sum.split prod.split)

lemma resolve_skip:
  assumes "peer_known pf t my pp address i p" and "i \<noteq> k"
  shows "resolve_peers pf sp my n (p # ps) k True r t = resolve_peers pf sp my n ps (Suc k) True r t"
  using assms by (auto simp: peer_known_def op_simps)

lemma resolve_1to1_rest:
  assumes "numSockets sp \<le> 1"
    and "\<And>p. p \<in> set ps \<Longrightarrow> \<exists>pp. peer_known pf t my pp (address p) i p \<and> numSockets pp \<le> 1 \<and> address p \<noteq> []"
    and "k \<le> i"
  shows "resolve_peers pf sp my n ps k True r t =
    (Inr (if i - k < length ps then r\<lparr>sp_address := hd (address (ps ! (i - k)))\<rparr> else r), t)"
  using assms(2,3)
proof (induction ps arbitrary: k)
  case Nil
  then show ?case by (simp add: op_simps)
next
  case (Cons p ps)
  obtain pp where pp: "peer_known pf t my pp (address p) i p" "numSockets pp \<le> 1" "address p \<noteq> []"
    using Cons.prems(1) [of p] by auto
  show ?case
  proof (cases "i = k")
    case True
    with pp assms(1) show ?thesis
      by (subst resolve_step [OF pp(1)]) (simp_all add: match_address_def at_def hd_conv_nth)
  next
    case False
    have "resolve_peers pf sp my n ps (Suc k) True r t =
        (Inr (if i - Suc k < length ps then r\<lparr>sp_address := hd (address (ps ! (i - Suc k)))\<rparr> else r), t)"
      using False Cons.prems by (intro Cons.IH) auto
    moreover have "i - k = Suc (i - Suc k)" using False Cons.prems(2) by simp
    ultimately show ?thesis by (simp add: resolve_skip [OF pp(1) False] del: resolve_peers.simps)
  qed
qed

lemma resolve_1to1:
  assumes "numSockets sp \<le> 1" and "peers \<noteq> []"
    and "\<And>p. p \<in> set peers \<Longrightarrow> \<exists>pp. peer_known pf t my pp (address p) i p \<and> numSockets pp \<le> 1 \<and> address p \<noteq> []"
  defines "j \<equiv> if length peers = 1 then 0 else i"
  shows "resolve_peers pf sp my (length peers) peers 0 False r t =
    (Inr (if j < length peers then r\<lparr>sp_address := hd (address (peers ! j))\<rparr> else r), t)"
proof -
  obtain p ps where peers: "peers = p # ps" using assms(2) by (cases peers) auto
  obtain pp where pp: "peer_known pf t my pp (address p) i p" "numSockets pp \<le> 1" "address p \<noteq> []"
    using assms(3) [of p] peers by auto
  show ?thesis
  proof (cases "i = 0 \<or> length peers = 1")
    case True
    with pp assms(1) show ?thesis
      unfolding peers by (subst resolve_step [OF pp(1)]) (auto simp: match_address_def at_def hd_conv_nth j_def peers)
  next
    case False
    have "resolve_peers pf sp my (length peers) ps 1 True r t =
        (Inr (if i - 1 < length ps then r\<lparr>sp_address := hd (address (ps ! (i - 1)))\<rparr> else r), t)"
      using False assms(1,3) peers by (intro resolve_1to1_rest) auto
    moreover have "resolve_peers pf sp my (length peers) (p # ps) 0 False r t =
        resolve_peers pf sp my (length peers) ps 1 True r t"
      using False pp assms(1) by (subst resolve_step [OF pp(1)]) (auto simp: match_address_def peers)
    ultimately show ?thesis using False by (auto simp: j_def peers nth_Cons')
  qed
qed

text \<open>With several sockets of its own, the device connects one to each peer.\<close>

definition socket_of :: "SocketProperty \<Rightarrow> string list \<Rightarrow> nat \<Rightarrow> string" where
  "socket_of pp address i = (if numSockets pp \<le> 1 then hd address else address ! i)"

lemma resolve_many:
  assumes "1 < numSockets sp"
    and "\<And>p. p \<in> set peers \<Longrightarrow> peer_known pf t my (prop p) (address p) (idx p) p \<and>
      (if numSockets (prop p) \<le> 1 then 0 else idx p) < length (address p)"
  shows "resolve_peers pf sp my n peers k False r t =
    (Inr (fold (\<lambda>p r. append_address r (socket_of (prop p) (address p) (idx p))) peers r), t)"
  using assms(2)
proof (induction peers arbitrary: k r)
  case (Cons p peers)
  have p: "peer_known pf t my (prop p) (address p) (idx p) p"
    "(if numSockets (prop p) \<le> 1 then 0 else idx p) < length (address p)"
    using Cons.prems [of p] by auto
  have "match_address sp (prop p) n (idx p) k (address p) False r =
      Inr (append_address r (socket_of (prop p) (address p) (idx p)), False, True)"
    using assms(1) p(2) by (auto simp: match_address_def at_def socket_of_def hd_conv_nth split: if_splits)
  then show ?case
    using Cons by (simp add: resolve_step [OF p(1)] del: resolve_peers.simps)
qed (simp add: op_simps)

lemma join_with_nested: "xs \<noteq> [] \<Longrightarrow> join_with sep (join_with sep xs # ys) = join_with sep (xs @ ys)"
  by (cases "ys = []") (simp_all add: join_with_append [where xs = "[join_with sep xs]", simplified] join_with_append)

lemma append_addresses:
  assumes "\<And>a. a \<in> set as \<Longrightarrow> a \<noteq> []"
  shows "sp_address (fold (\<lambda>a r. append_address r a) as r) =
    join_with '','' ((if sp_address r = [] then [] else [sp_address r]) @ as)"
  using assms
proof (induction as arbitrary: r)
  case (Cons a as)
  let ?xs = "(if sp_address r = [] then [] else [sp_address r]) @ [a]"
  have r: "sp_address (append_address r a) = join_with '','' ?xs" "sp_address (append_address r a) \<noteq> []"
    using Cons.prems [of a] by (auto simp: append_address_def)
  have "sp_address (fold (\<lambda>a r. append_address r a) as (append_address r a)) =
      join_with '','' (join_with '','' ?xs # as)"
    using Cons.IH [of "append_address r a"] Cons.prems r by simp
  also have "\<dots> = join_with '','' (?xs @ as)" by (rule join_with_nested) simp
  finally show ?case by simp
qed simp

section \<open>Waiting\<close>

lemma bound_verdict_None: "bound_verdict pf c w = None \<longleftrightarrow> \<not> is_bound pf c w \<and> \<not> is_canceled pf w"
  by (simp add: bound_verdict_def)

lemma wait_channels_outcome:
  assumes "wait_channels pf cs w = Some (r, v)"
  shows "r = Inr () \<and> (\<exists>n. v = (pause pf ^^ n) w \<and>
    (is_canceled pf v \<or> (\<forall>c\<in>set cs. \<exists>m\<le>n. is_bound pf c ((pause pf ^^ m) w))))"
  using assms
proof (induction cs arbitrary: w)
  case Nil
  then show ?case by (auto intro: exI [of _ 0])
next
  case (Cons c cs)
  obtain b u where b: "poll (bound_verdict pf c) (pause pf) w = Some (b, u)"
    using Cons.prems by (auto split: option.splits)
  then obtain n where n: "u = (pause pf ^^ n) w" "bound_verdict pf c u = Some b"
    by (auto simp: poll_Some)
  show ?case
  proof (cases b)
    case True
    then have "is_bound pf c u" using n(2) by (auto simp: bound_verdict_def split: if_splits)
    moreover have "wait_channels pf cs u = Some (r, v)" using Cons.prems b True by simp
    from Cons.IH [OF this] obtain k where k: "r = Inr ()" "v = (pause pf ^^ k) u"
      "is_canceled pf v \<or> (\<forall>c\<in>set cs. \<exists>m\<le>k. is_bound pf c ((pause pf ^^ m) u))" by auto
    moreover have "(pause pf ^^ m) u = (pause pf ^^ (m + n)) w" for m
      by (simp add: n(1) funpow_add)
    moreover have "\<exists>m\<le>k + n. is_bound pf d ((pause pf ^^ m) w)"
      if "\<exists>m\<le>k. is_bound pf d ((pause pf ^^ (m + n)) w)" for d
      using that by (meson add_le_mono1)
    ultimately show ?thesis using n(1)
      by (intro conjI exI [of _ "k + n"]) (auto intro: le_add2)
  next
    case False
    with Cons.prems b n(1) have "r = Inr ()" "v = (pause pf ^^ n) w" "is_canceled pf v"
      using n(2) by (auto simp: bound_verdict_def split: if_splits)
    then show ?thesis by blast
  qed
qed

lemma wait_channels_returns:
  assumes "\<And>n. N \<le> n \<Longrightarrow> is_canceled pf ((pause pf ^^ n) w) \<or> (\<forall>c\<in>set cs. is_bound pf c ((pause pf ^^ n) w))"
  shows "\<exists>v. wait_channels pf cs w = Some (Inr (), v)"
  using assms
proof (induction cs arbitrary: w N)
  case (Cons c cs)
  have "bound_verdict pf c ((pause pf ^^ N) w) \<noteq> None"
    using Cons.prems [of N] by (auto simp: bound_verdict_def)
  then have "poll (bound_verdict pf c) (pause pf) w \<noteq> None" by (auto simp: poll_None)
  then obtain b u where b: "poll (bound_verdict pf c) (pause pf) w = Some (b, u)" by auto
  then obtain k where k: "u = (pause pf ^^ k) w" by (auto simp: poll_Some)
  show ?case
  proof (cases b)
    case True
    have "is_canceled pf ((pause pf ^^ n) u) \<or> (\<forall>c\<in>set cs. is_bound pf c ((pause pf ^^ n) u))" if "N \<le> n" for n
      using Cons.prems [of "n + k"] that by (auto simp: k funpow_add)
    then have "\<exists>v. wait_channels pf cs u = Some (Inr (), v)" by (rule Cons.IH)
    with b True show ?thesis by simp
  qed (use b in simp)
qed simp

lemma ready_verdict_cases:
  assumes "ready_verdict pf pats w = Some r"
  shows "r = Inr False \<and> (is_canceled pf w \<or> scan_merge pf w pats [] = Inr []) \<or>
    r = Inr True \<and> (\<exists>ks s. scan_merge pf w pats [] = Inr ks \<and> s \<in> set (WaitDeviceReadyTargets pf) \<and>
      (\<forall>x. Some x \<in> set (rd_mget pf w ks) \<longrightarrow> x = s)) \<or>
    (\<exists>e. r = Inl e \<and> scan_merge pf w pats [] = Inl e)"
proof -
  have mem: "x \<in> set (List.map_filter (\<lambda>x. x) xs) \<longleftrightarrow> Some x \<in> set xs" for x :: string and xs
    by (force simp: List.map_filter_def)
  show ?thesis
    using assms
    by (auto simp: ready_verdict_def all_in_one_target_def list_ex_iff list_all_iff mem split: if_splits sum.splits)
qed

lemma wait_ready_outcome:
  assumes "wait_ready pf pats w = Some (Inr (), v)"
  shows "\<exists>n. let u = (pause pf ^^ n) w in
    v = u \<and> (is_canceled pf u \<or> scan_merge pf u pats [] = Inr []) \<or>
    v = pause pf u \<and> (\<exists>ks s. scan_merge pf u pats [] = Inr ks \<and> s \<in> set (WaitDeviceReadyTargets pf) \<and>
      (\<forall>x. Some x \<in> set (rd_mget pf u ks) \<longrightarrow> x = s))"
proof -
  obtain b u where b: "poll (ready_verdict pf pats) (pause pf) w = Some (b, u)"
    using assms by (auto simp: wait_ready_def split: option.splits)
  then obtain n where n: "u = (pause pf ^^ n) w" "ready_verdict pf pats u = Some b"
    by (auto simp: poll_Some)
  have "b = Inr True \<and> v = pause pf u \<or> b = Inr False \<and> v = u"
    using assms b by (cases b) (auto simp: wait_ready_def split: bool.splits)
  with ready_verdict_cases [OF n(2)] show ?thesis
    unfolding Let_def n(1) [symmetric] by (intro exI [of _ n]) (auto simp: n(1))
qed

lemma wait_ready_stuck:
  assumes "\<And>n. ready_verdict pf pats ((pause pf ^^ n) w) = None"
  shows "wait_ready pf pats w = None"
  using assms by (simp add: wait_ready_def poll_None [THEN iffD2])

section \<open>What the handler leaves in the registry\<close>

lemma keeps_conj:
  "keeps I m \<Longrightarrow> keeps J m \<Longrightarrow> keeps (\<lambda>s. I s \<and> J s) m"
  by (simp add: keeps_def)

lemma keeps_wait_op:
  assumes "\<And>w r v. f w = Some (r, v) \<Longrightarrow> \<exists>n. v = (g ^^ n) w" and "\<And>t. I t \<Longrightarrow> I (t\<lparr>world := g (world t)\<rparr>)"
  shows "keeps I (wait_op f)"
  unfolding keeps_def
proof (intro allI impI)
  fix t assume t: "I t"
  have pow: "I (t\<lparr>world := (g ^^ n) (world t)\<rparr>)" for n
  proof (induction n)
    case (Suc n)
    from assms(2) [OF this] show ?case by simp
  qed (use t in simp)
  show "I (snd (wait_op f t))"
    using assms(1) t pow by (auto simp: wait_op_def split: option.split prod.split)
qed

lemma retry_address_pauses:
  "retry_address pf m k i w = (r, v) \<Longrightarrow> \<exists>n. v = (pause pf ^^ n) w"
proof (induction pf m k i w rule: retry_address.induct)
  case (1 pf m k i w)
  show ?case
  proof (cases "rd_hget pf w k ''address'' = None \<and> \<not> (is_canceled pf w \<or> m < i) \<and> i \<noteq> 2147483647")
    case True
    then have "retry_address pf m k (i + 1) (pause pf w) = (r, v)"
      using 1(2) by (subst (asm) retry_address.simps) auto
    with 1(1) True have "\<exists>n. v = (pause pf ^^ n) (pause pf w)" by simp
    then show ?thesis by (metis funpow_Suc_front)
  next
    case False
    then have "v = (pause pf ^^ 0) w \<or> v = (pause pf ^^ 1) w"
      using 1(2) by (subst (asm) retry_address.simps) (auto split: option.splits if_splits)
    then show ?thesis by blast
  qed
qed

definition pause_ok :: "'w platform \<Rightarrow> ('w topo \<Rightarrow> bool) \<Rightarrow> bool" where
  "pause_ok pf I \<longleftrightarrow> (\<forall>t. I t \<longrightarrow> I (t\<lparr>world := pause pf (world t)\<rparr>))"

lemma keeps_find_hash_address: "pause_ok pf I \<Longrightarrow> keeps I (find_hash_address pf k)"
  unfolding find_hash_address_def pause_ok_def
  by (intro keeps_bindM keeps_gets keeps_wait_op [where g = "pause pf"]) (auto dest: retry_address_pauses)

lemmas keeps_intros = keeps_bindM keeps_seqM keeps_asks keeps_gets keeps_lift_res keeps_ret keeps_raise
  keeps_only_if keeps_try_log keeps_for_each keeps_map_each

lemma keeps_if: "keeps I m \<Longrightarrow> keeps I n \<Longrightarrow> keeps I (if b then m else n)"
  by simp

lemma keeps_option: "keeps I m \<Longrightarrow> (\<And>x. keeps I (f x)) \<Longrightarrow> keeps I (case y of None \<Rightarrow> m | Some x \<Rightarrow> f x)"
  by (simp split: option.split)

lemma keeps_ReadPeerAddress: "pause_ok pf I \<Longrightarrow> keeps I (ReadPeerAddress pf p)"
  unfolding ReadPeerAddress_def Let_def
  by (intro keeps_intros keeps_option keeps_find_hash_address)

lemma keeps_resolve_peers: "pause_ok pf I \<Longrightarrow> keeps I (resolve_peers pf sp my n ps k is1to1 r)"
proof (induction ps arbitrary: k is1to1 r)
  case (Cons p ps)
  then show ?case
    unfolding resolve_peers.simps(2) case_prod_beta
    by (intro keeps_intros keeps_if keeps_ReadPeerAddress Cons.IH)
qed (simp add: keeps_ret)

lemma keeps_findAddress:
  "pause_ok pf I \<Longrightarrow> keeps I (findAddress pf a b c d)" "pause_ok pf I \<Longrightarrow> keeps I (findAddresses pf a b c)"
  unfolding findAddress_def findAddresses_def
  by (intro keeps_intros keeps_if keeps_option keeps_find_hash_address; assumption)+

lemma keeps_resolve_peer: "pause_ok pf I \<Longrightarrow> keeps I (resolve_peer pf auto p)"
  unfolding resolve_peer_def
  by (intro keeps_intros keeps_option) (auto split: prod.split intro!: keeps_bindM keeps_findAddress keeps_if)

text \<open>
  An invariant that the simple updates of the fields and the property store keep, and the passing
  of time, is kept by both ways of resolving the connections.
\<close>

definition config_ok :: "'w platform \<Rightarrow> ('w topo \<Rightarrow> bool) \<Rightarrow> bool" where
  "config_ok pf I \<longleftrightarrow> pause_ok pf I \<and> (\<forall>ps. keeps I (set_channel_properties pf ps)) \<and>
     (\<forall>t cs. I t \<longrightarrow> I (t\<lparr>fConnectChannels := cs\<rparr>))"

lemma keeps_ResolveConnectAddress: "config_ok pf I \<Longrightarrow> keeps I (ResolveConnectAddress pf)"
  unfolding ResolveConnectAddress_def resolve_channel_def Let_def case_prod_beta config_ok_def
  by (intro keeps_intros keeps_if keeps_resolve_peers) auto

lemma keeps_ConfigConnect: "config_ok pf I \<Longrightarrow> keeps I (ConfigConnect pf)"
  unfolding ConfigConnect_def config_channel_def set_channel_options_def Let_def case_prod_beta config_ok_def put_channel_def
  by (intro keeps_intros keeps_if keeps_resolve_peer keeps_modify) auto

lemma keeps_WaitBindAddress: "pause_ok pf I \<Longrightarrow> keeps I (WaitBindAddress pf)"
  unfolding WaitBindAddress_def pause_ok_def
  by (intro keeps_intros keeps_if keeps_wait_op [where g = "pause pf"]) (auto dest: wait_channels_outcome)

lemma wait_ready_pauses: "wait_ready pf pats w = Some (r, v) \<Longrightarrow> \<exists>n. v = (pause pf ^^ n) w"
proof -
  assume "wait_ready pf pats w = Some (r, v)"
  then obtain b u where b: "poll (ready_verdict pf pats) (pause pf) w = Some (b, u)" "v = u \<or> v = pause pf u"
    by (auto simp: wait_ready_def split: option.splits sum.splits bool.splits)
  then obtain n where "u = (pause pf ^^ n) w" by (auto simp: poll_Some)
  with b(2) have "v = (pause pf ^^ n) w \<or> v = (pause pf ^^ Suc n) w" by auto
  then show ?thesis by blast
qed

lemma keeps_WaitForPeerConnection: "pause_ok pf I \<Longrightarrow> keeps I (WaitForPeerConnection pf)"
  unfolding WaitForPeerConnection_def pause_ok_def
  by (intro keeps_intros keeps_wait_op [where g = "pause pf"]) (auto dest: wait_ready_pauses)

text \<open>
  While the device sleeps only the others write: the keys that appear are in \<open>B\<close>.
\<close>

definition others_write :: "'w platform \<Rightarrow> ('w \<Rightarrow> keyspace) \<Rightarrow> string set \<Rightarrow> bool" where
  "others_write pf view B \<longleftrightarrow> (\<forall>w. dom (view (pause pf w)) \<subseteq> dom (view w) \<union> B)"

definition device_inv :: "('w \<Rightarrow> keyspace) \<Rightarrow> string set \<Rightarrow> string \<times> string \<times> string \<times> string \<Rightarrow> 'w topo \<Rightarrow> bool" where
  "device_inv view B i t \<longleftrightarrow> tracked view B t \<and> same_identity i t"

lemma silent_set_channel_properties:
  "property_store pf view \<Longrightarrow> silent view (set_channel_properties pf ps)"
  unfolding set_channel_properties_def
  by (intro silent_seqM silent_modify silent_on_world) (auto simp: fold_pr_set)

lemma device_inv_config:
  assumes "property_store pf view" and "others_write pf view B"
  shows "config_ok pf (device_inv view B i)"
  unfolding config_ok_def
proof (intro conjI allI impI)
  have "tracked view B (t\<lparr>world := pause pf (world t)\<rparr>)" if "tracked view B t" for t :: "'a topo"
    using that assms(2) unfolding tracked_def present_dom others_write_def
    by (simp, blast)
  then show "pause_ok pf (device_inv view B i)"
    by (simp add: pause_ok_def device_inv_def same_identity_def identity_def)
  show "keeps (device_inv view B i) (set_channel_properties pf ps)" for ps
    unfolding device_inv_def
  proof (rule keeps_conj)
    show "keeps (tracked view B) (set_channel_properties pf ps)"
      by (rule silent_keeps) (rule silent_set_channel_properties [OF assms(1)])
    show "keeps (same_identity i) (set_channel_properties pf ps)"
      unfolding set_channel_properties_def
      by (intro keeps_seqM id_modify id_on_world) (simp add: identity_def)
  qed
  show "device_inv view B i (t\<lparr>fConnectChannels := cs\<rparr>)" if "device_inv view B i t" for t :: "'a topo" and cs
    using that by (simp add: device_inv_def tracked_def present_def same_identity_def identity_def)
qed

lemma device_inv_run:
  assumes "redis_server pf view mt" and "property_store pf view"
    and "\<And>t :: 'w topo. identity t = i \<Longrightarrow> bound_keys t \<subseteq> B" and "device_inv view B i (t :: 'w topo)"
  shows "device_inv view B i (topo_run pf c t)"
  using assms(3,4) tracked_run [OF assms(1,2)] by (auto simp: device_inv_def same_identity_def identity_run)

lemma device_inv_handler:
  assumes "redis_server pf view mt" and "property_store (pf :: 'w platform) view" and "others_write pf view B"
    and "\<And>t :: 'w topo. identity t = i \<Longrightarrow> bound_keys t \<subseteq> B"
  shows "keeps (device_inv view B i) (OnDeviceStateChange pf s)"
proof -
  note run = device_inv_run [OF assms(1,2,4)]
  have ops: "keeps (device_inv view B i) (Initialize pf)" "keeps (device_inv view B i) (Reset pf)"
    "keeps (device_inv view B i) (WriteBindAddress pf)" "keeps (device_inv view B i) (WriteConnectAddress pf)"
    using run [where c = Op_Initialize] run [where c = Op_Reset] run [where c = Op_WriteBind] run [where c = Op_WriteConnect]
    by (simp_all add: keeps_def)
  have config: "config_ok pf (device_inv view B i)" by (rule device_inv_config [OF assms(2,3)])
  then have pause: "pause_ok pf (device_inv view B i)" by (simp add: config_ok_def)
  have unless: "keeps (device_inv view B i) (unless_canceled pf m)" if "keeps (device_inv view B i) m" for m
    unfolding unless_canceled_def using that by (intro keeps_intros)
  have "keeps (device_inv view B i) (if c \<noteq> [] then ConfigConnect pf else ResolveConnectAddress pf)" for c :: string
    using config by (intro keeps_if keeps_ConfigConnect keeps_ResolveConnectAddress)
  then have "keeps (device_inv view B i) (seqM (WriteBindAddress pf) (unless_canceled pf
      (seqM (WaitBindAddress pf) (unless_canceled pf
      (seqM (bindM (gets fConnectConfig) (\<lambda>c. if c \<noteq> [] then ConfigConnect pf else ResolveConnectAddress pf))
      (unless_canceled pf (seqM (WriteConnectAddress pf) (WaitForPeerConnection pf))))))))"
    using pause by (intro keeps_seqM keeps_bindM keeps_gets unless ops keeps_WaitBindAddress keeps_WaitForPeerConnection)
  with ops show ?thesis
    unfolding OnDeviceStateChange_def
    by (intro keeps_try_log) (cases s, simp_all only: DeviceState.case keeps_ret)
qed

section \<open>Properties\<close>



text \<open>
  The texts of a peer in \<^verbatim>\<open>connect-config\<close>: the full form
  \<^verbatim>\<open>service:instance-index:channel[sub]\<close> is taken apart, and the short forms are completed, the
  service from the instance or the instance from the service (index 0).
\<close>

theorem parse_peer_forms:
  assumes "word service" "word inst" "digits idx" "word channel" "digits sub" "separator_char c"
    and "fits (service @ [c] @ inst @ ''-'' @ idx @ [c] @ channel @ ''['' @ sub @ '']'')"
  shows "parse_peer [c] (service @ [c] @ inst @ ''-'' @ idx @ [c] @ channel @ ''['' @ sub @ '']'') =
      Some (service, inst @ ''-'' @ idx, channel, Some sub) \<and>
    parse_peer [c] (service @ [c] @ inst @ ''-'' @ idx @ [c] @ channel) =
      Some (service, inst @ ''-'' @ idx, channel, None) \<and>
    parse_peer [c] (inst @ ''-'' @ idx @ [c] @ channel @ ''['' @ sub @ '']'') =
      Some (inst, inst @ ''-'' @ idx, channel, Some sub) \<and>
    parse_peer [c] (inst @ ''-'' @ idx @ [c] @ channel) = Some (inst, inst @ ''-'' @ idx, channel, None) \<and>
    parse_peer [c] (service @ [c] @ channel @ ''['' @ sub @ '']'') =
      Some (service, service @ ''-0'', channel, Some sub) \<and>
    parse_peer [c] (service @ [c] @ channel) = Some (service, service @ ''-0'', channel, None)"
proof -
  have f: "fits (service @ [c] @ inst @ ''-'' @ idx @ [c] @ channel)"
    "fits (inst @ ''-'' @ idx @ [c] @ channel @ ''['' @ sub @ '']'')" "fits (inst @ ''-'' @ idx @ [c] @ channel)"
    "fits (service @ [c] @ channel @ ''['' @ sub @ '']'')" "fits (service @ [c] @ channel)"
    using assms(7) by (simp_all add: fits_def)
  show ?thesis
    by (intro conjI parse_full_sub parse_full parse_instance_sub parse_instance parse_service_sub parse_service
        assms f)
qed

theorem parse_peer_forms_witness:
  "parse_peer '':'' ''Sampler:Sampler-1:out[12]'' = Some (''Sampler'', ''Sampler-1'', ''out'', Some ''12'') \<and>
   parse_peer '':'' ''Sampler:out'' = Some (''Sampler'', ''Sampler-0'', ''out'', None)"
  using parse_peer_forms [of "''Sampler''" "''Sampler''" "''1''" "''out''" "''12''" "CHR '':''"]
  by (simp add: word_def digits_def word_char_def is_digit_def separator_char_def fits_def npos_def size_max_def)

text \<open>
  C12. One socket on each side: the device connects to the peer whose position in its own list of
  peers is the device's position in the lists of the peers, so that instances are paired one to
  one; with a single peer it connects to that one, and a device without a counterpart gets no
  address.
\<close>

theorem connect_one_to_one:
  assumes "numSockets sp \<le> 1" and "peers \<noteq> []"
    and "\<And>p. p \<in> set peers \<Longrightarrow> \<exists>pp. peer_known pf t my pp (address p) i p \<and> numSockets pp \<le> 1 \<and> address p \<noteq> []"
  shows "resolve_peers pf sp my (length peers) peers 0 False r t =
    (Inr (if length peers = 1 then r\<lparr>sp_address := hd (address (hd peers))\<rparr>
          else if i < length peers then r\<lparr>sp_address := hd (address (peers ! i))\<rparr>
          else r), t)"
  using resolve_1to1 [OF assms(1,2), of pf t my address i r] assms(2,3) by (simp add: hd_conv_nth)

definition pair_platform :: "world platform" where
  "pair_platform = ref_platform\<lparr>rd_lrange := \<lambda>w k. [''K-0'', ''K-1''], rd_hgetall := \<lambda>w k. [],
     rd_scan := \<lambda>w c pat. (0, [take 3 pat]), rd_hget := \<lambda>w k f. Some (take 3 k)\<rparr>"

lemma pair_known:
  assumes "p \<in> {''S-0'', ''S-1''}"
  shows "peer_known pair_platform sample_topo ''K-1'' default_SocketProperty [p] 1 p"
proof -
  have "ReadPeerAddress pair_platform p sample_topo = (Inr (map (\<lambda>k. k) (sort [p])), sample_topo)"
  proof (rule ReadPeerAddress_published)
    show "rd_hget pair_platform (world sample_topo) (peer_health_key (fSeparator sample_topo) p) ''hostIp'' =
        Some (take 3 (peer_health_key (fSeparator sample_topo) p))"
      by (simp add: pair_platform_def)
    have "find_opt ('':'' @ ChannelPrefix) p = None"
      using assms by (auto simp: ChannelPrefix_def starts_with_def)
    then have "find_str p ('':'' @ ChannelPrefix) = npos" by (simp add: find_str_def)
    then show "scan pair_platform (world sample_topo) (peer_socket_pattern (fSeparator sample_topo) p) = Inr [p]"
      using assms by (auto simp: scan_def pair_platform_def scan_from.simps peer_socket_pattern_def
          sample_topo_def join_def npos_def size_max_def)
    show "\<exists>a. rd_hget pair_platform (world sample_topo) k ''address'' = Some a \<and>
        MakeAddress a (take 3 (peer_health_key (fSeparator sample_topo) p)) = Inr k" if "k \<in> set [p]" for k
      using that assms by (auto simp: pair_platform_def MakeAddress_def find_str_def starts_with_def npos_def size_max_def)
  qed
  then show ?thesis
    by (simp add: peer_known_def pair_platform_def index_of_def ToSocketProperty_def)
qed

theorem connect_one_to_one_witness:
  "resolve_peers pair_platform default_SocketProperty ''K-1'' 2 [''S-0'', ''S-1''] 0 False default_SocketProperty sample_topo =
     (Inr (default_SocketProperty\<lparr>sp_address := ''S-1''\<rparr>), sample_topo)"
proof -
  have n: "numSockets default_SocketProperty \<le> 1" by (simp add: default_SocketProperty_def)
  have "\<exists>pp. peer_known pair_platform sample_topo ''K-1'' pp [p] 1 p \<and> numSockets pp \<le> 1 \<and> [p] \<noteq> []"
    if "p \<in> set [''S-0'', ''S-1'']" for p
    using that pair_known [of p] n by auto
  from connect_one_to_one [where r = default_SocketProperty and peers = "[''S-0'', ''S-1'']", OF n _ this]
  show ?thesis by (simp add: numeral_2_eq_2 del: resolve_peers.simps)
qed

text \<open>
  C13. Several sockets on the device's side: it connects one to each peer, in the order of the
  list: to the only socket of a peer that has one, otherwise to the peer's socket at the
  device's own position; the addresses are listed with commas.
\<close>

theorem connect_many:
  assumes "1 < numSockets sp" and "sp_address sp = []"
    and "\<And>p. p \<in> set peers \<Longrightarrow> peer_known pf t my (prop p) (address p) (idx p) p \<and>
      (if numSockets (prop p) \<le> 1 then 0 else idx p) < length (address p) \<and>
      socket_of (prop p) (address p) (idx p) \<noteq> []"
  shows "\<exists>r. resolve_peers pf sp my n peers 0 False sp t = (Inr r, t) \<and>
    sp_address r = join_with '','' (map (\<lambda>p. socket_of (prop p) (address p) (idx p)) peers)"
proof -
  let ?s = "\<lambda>p. socket_of (prop p) (address p) (idx p)"
  have "resolve_peers pf sp my n peers 0 False sp t = (Inr (fold (\<lambda>p r. append_address r (?s p)) peers sp), t)"
    using assms(3) by (intro resolve_many [OF assms(1)]) blast
  moreover have "fold (\<lambda>p r. append_address r (?s p)) peers sp = fold (\<lambda>a r. append_address r a) (map ?s peers) sp"
    by (simp add: fold_map comp_def)
  moreover have "sp_address (fold (\<lambda>a r. append_address r a) (map ?s peers) sp) = join_with '','' (map ?s peers)"
    by (subst append_addresses) (use assms(2,3) in auto)
  ultimately show ?thesis by simp
qed

theorem connect_many_witness:
  "\<exists>r. resolve_peers pair_platform (default_SocketProperty\<lparr>numSockets := 2\<rparr>) ''K-1'' 2 [''S-0'', ''S-1''] 0 False
     (default_SocketProperty\<lparr>numSockets := 2\<rparr>) sample_topo = (Inr r, sample_topo) \<and> sp_address r = ''S-0,S-1''"
proof -
  have "peer_known pair_platform sample_topo ''K-1'' default_SocketProperty [p] 1 p \<and>
      (if numSockets default_SocketProperty \<le> 1 then 0 else 1) < length [p] \<and>
      socket_of default_SocketProperty [p] 1 \<noteq> []" if "p \<in> set [''S-0'', ''S-1'']" for p
    using that pair_known [of p] by (auto simp: default_SocketProperty_def socket_of_def)
  from connect_many [where sp = "default_SocketProperty\<lparr>numSockets := 2\<rparr>" and n = 2
      and peers = "[''S-0'', ''S-1'']", OF _ _ this] show ?thesis
    by (simp add: default_SocketProperty_def socket_of_def del: resolve_peers.simps)
qed

lemma append_le: "p @ x \<le> p @ y \<longleftrightarrow> x \<le> (y :: string)"
  by (induction p) simp_all

lemma sorted_append_prefix: "sorted (map (\<lambda>x. p @ x) xs) = sorted (xs :: string list)"
  by (induction xs) (simp_all add: append_le)

definition alphabetical :: "nat list" where
  "alphabetical = [0, 1, 10, 2, 3, 4, 5, 6, 7, 8, 9]"

lemma sort_sub_sockets:
  assumes "distinct keys" and "set keys = {p @ show_nat j | j. j < 11}"
  shows "sort keys = map (\<lambda>j. p @ show_nat j) alphabetical"
proof -
  have eq: "{j. j < 11} = set alphabetical" by (auto simp: alphabetical_def less_Suc_eq numeral_eq_Suc)
  have "mset keys = mset (map (\<lambda>j. p @ show_nat j) alphabetical)"
  proof (rule set_eq_iff_mset_eq_distinct [THEN iffD1, OF assms(1)])
    show "distinct (map (\<lambda>j. p @ show_nat j) alphabetical)"
      by (simp add: distinct_map inj_on_def) (simp add: alphabetical_def)
    show "set keys = set (map (\<lambda>j. p @ show_nat j) alphabetical)"
      using assms(2) eq by auto
  qed
  moreover have "sorted (map (\<lambda>j. p @ show_nat j) alphabetical)"
  proof -
    have "sorted (map show_nat alphabetical)" by code_simp
    then show ?thesis using sorted_append_prefix [of p "map show_nat alphabetical"] by (simp add: comp_def)
  qed
  ultimately show ?thesis by (intro properties_for_sort) simp_all
qed

text \<open>
  The sub-sockets of a peer are listed in the alphabetical order of their keys: with eleven of
  them the positions 2 to 10 hold the sub-sockets 10, 2, 3, ..., 9, so the device at position 2
  of an n:m connection gets the address of sub-socket 10.
\<close>

theorem eleven_sub_sockets:
  assumes "rd_hget pf (world t) (peer_health_key (fSeparator t) p) ''hostIp'' = Some ip"
    and "scan pf (world t) (peer_socket_pattern (fSeparator t) p) = Inr keys"
    and "distinct keys" and "set keys = {q @ show_nat j | j. j < 11}"
    and "\<And>j. j < 11 \<Longrightarrow> \<exists>a. rd_hget pf (world t) (q @ show_nat j) ''address'' = Some a \<and> MakeAddress a ip = Inr (b j)"
  shows "ReadPeerAddress pf p t = (Inr (map b [0, 1, 10, 2, 3, 4, 5, 6, 7, 8, 9]), t)"
proof -
  define g where "g k = b (THE j. k = q @ show_nat j)" for k
  have g: "g (q @ show_nat j) = b j" for j by (simp add: g_def)
  have "ReadPeerAddress pf p t = (Inr (map g (sort keys)), t)"
    by (rule ReadPeerAddress_published [OF assms(1,2)]) (use assms(4,5) g in fastforce)
  then show ?thesis
    by (simp add: sort_sub_sockets [OF assms(3,4)] g comp_def alphabetical_def)
qed

definition eleven_platform :: "world platform" where
  "eleven_platform = ref_platform\<lparr>rd_scan := \<lambda>w c pat. (0, map show_nat [0..<11]),
     rd_hget := \<lambda>w k f. Some k\<rparr>"

theorem eleven_sub_sockets_witness:
  "ReadPeerAddress eleven_platform ''S-0'' sample_topo =
     (Inr [''0'', ''1'', ''10'', ''2'', ''3'', ''4'', ''5'', ''6'', ''7'', ''8'', ''9''], sample_topo)"
proof -
  have numerals: "map show_nat [0, 1, 10, 2, 3, 4, 5, 6, 7, 8, 9] =
      [''0'', ''1'', ''10'', ''2'', ''3'', ''4'', ''5'', ''6'', ''7'', ''8'', ''9'']" by code_simp
  have "fold List.insert (map show_nat [0..<11]) [] = rev (map show_nat [0..<11])" by code_simp
  then have scan: "scan eleven_platform w pat = Inr (rev (map show_nat [0..<11]))" for w pat
    by (simp add: scan_def eleven_platform_def scan_from.simps)
  have MA: "MakeAddress (show_nat j) ip = Inr (show_nat j)" if "j < 11" for j ip
  proof -
    have "CHR ''t'' \<notin> set (show_nat j)"
      using show_nat_digits [of "CHR ''t''" j] by (auto simp: is_digit_def)
    then have "\<not> starts_with ''tcp://'' (show_nat j)"
      by (auto simp: starts_with_Cons)
    then show ?thesis by (simp add: MakeAddress_def)
  qed
  have "ReadPeerAddress eleven_platform ''S-0'' sample_topo =
      (Inr (map show_nat [0, 1, 10, 2, 3, 4, 5, 6, 7, 8, 9]), sample_topo)"
    by (rule eleven_sub_sockets [where q = "[]" and keys = "rev (map show_nat [0..<11])" 
          and ip = "peer_health_key (fSeparator sample_topo) ''S-0''"])
      (use scan MA in \<open>auto simp: eleven_platform_def distinct_map inj_on_def\<close>)
  then show ?thesis by (simp only: numerals)
qed

text \<open>
  C15. \<^verbatim>\<open>WaitBindAddress\<close> returns only when every channel it waits for has been seen bound or the
  device has been canceled; it does return if from some moment on one of both holds.
\<close>

theorem wait_bind_address:
  "(\<forall>r v. wait_channels pf cs w = Some (r, v) \<longrightarrow>
      r = Inr () \<and> (\<exists>n. v = (pause pf ^^ n) w \<and>
        (is_canceled pf v \<or> (\<forall>c\<in>set cs. \<exists>m\<le>n. is_bound pf c ((pause pf ^^ m) w))))) \<and>
   ((\<exists>N. \<forall>n\<ge>N. is_canceled pf ((pause pf ^^ n) w) \<or> (\<forall>c\<in>set cs. is_bound pf c ((pause pf ^^ n) w))) \<longrightarrow>
      (\<exists>v. wait_channels pf cs w = Some (Inr (), v)))"
proof (intro conjI allI impI)
  show "\<exists>v. wait_channels pf cs w = Some (Inr (), v)"
    if "\<exists>N. \<forall>n\<ge>N. is_canceled pf ((pause pf ^^ n) w) \<or> (\<forall>c\<in>set cs. is_bound pf c ((pause pf ^^ n) w))"
    using that by (elim exE) (rule wait_channels_returns, blast)
qed (auto dest: wait_channels_outcome)

definition bound_world :: world where
  "bound_world = \<lparr>store = [(''c'', RHash bound_hash)], props = [], canceled = False, pauses = 0\<rparr>"

lemma bound_world_pauses: "(pause ref_platform ^^ n) bound_world = bound_world\<lparr>pauses := n\<rparr>"
  by (induction n) (simp_all add: ref_sel bound_world_def)

theorem wait_bind_address_witness:
  "\<exists>v. wait_channels ref_platform [''c''] bound_world = Some (Inr (), v)"
proof -
  have b: "is_bound ref_platform ''c'' ((pause ref_platform ^^ n) bound_world)" for n
    by (simp add: bound_world_pauses is_bound_def)
      (simp add: ref_sel bound_world_def bound_hash_def parse_flag_def to_lower_def to_lower_char_def)
  have "\<exists>N. \<forall>n\<ge>N. is_canceled ref_platform ((pause ref_platform ^^ n) bound_world) \<or>
      (\<forall>c\<in>set [''c'']. is_bound ref_platform c ((pause ref_platform ^^ n) bound_world))"
    using b by (intro exI [of _ 0]) simp
  with wait_bind_address [of ref_platform "[''c'']" bound_world] show ?thesis by blast
qed

text \<open>
  C14. \<^verbatim>\<open>WaitForPeerConnection\<close> ends when the device is canceled, when no peer has a state, or when
  the states of all peers are one and the same of \<^verbatim>\<open>DEVICE READY\<close>, \<^verbatim>\<open>READY\<close> and \<^verbatim>\<open>RUNNING\<close>. While
  two peers are in different states, even two of these three, it does not end.
\<close>

theorem wait_for_peers:
  "(\<forall>v. wait_ready pf pats w = Some (Inr (), v) \<longrightarrow>
      (\<exists>n. let u = (pause pf ^^ n) w in
         v = u \<and> (is_canceled pf u \<or> scan_merge pf u pats [] = Inr []) \<or>
         v = pause pf u \<and> (\<exists>ks s. scan_merge pf u pats [] = Inr ks \<and> s \<in> set (WaitDeviceReadyTargets pf) \<and>
           (\<forall>x. Some x \<in> set (rd_mget pf u ks) \<longrightarrow> x = s)))) \<and>
   ((\<forall>n. \<not> is_canceled pf ((pause pf ^^ n) w) \<and>
       (\<exists>ks x y. scan_merge pf ((pause pf ^^ n) w) pats [] = Inr ks \<and> x \<noteq> y \<and>
         {Some x, Some y} \<subseteq> set (rd_mget pf ((pause pf ^^ n) w) ks) \<and> ks \<noteq> [])) \<longrightarrow>
      wait_ready pf pats w = None)"
proof (intro conjI allI impI)
  fix v assume "wait_ready pf pats w = Some (Inr (), v)"
  then show "\<exists>n. let u = (pause pf ^^ n) w in
         v = u \<and> (is_canceled pf u \<or> scan_merge pf u pats [] = Inr []) \<or>
         v = pause pf u \<and> (\<exists>ks s. scan_merge pf u pats [] = Inr ks \<and> s \<in> set (WaitDeviceReadyTargets pf) \<and>
           (\<forall>x. Some x \<in> set (rd_mget pf u ks) \<longrightarrow> x = s))"
    by (rule wait_ready_outcome)
next
  assume mixed: "\<forall>n. \<not> is_canceled pf ((pause pf ^^ n) w) \<and>
       (\<exists>ks x y. scan_merge pf ((pause pf ^^ n) w) pats [] = Inr ks \<and> x \<noteq> y \<and>
         {Some x, Some y} \<subseteq> set (rd_mget pf ((pause pf ^^ n) w) ks) \<and> ks \<noteq> [])"
  show "wait_ready pf pats w = None"
  proof (rule wait_ready_stuck)
    fix n
    obtain ks x y where n: "\<not> is_canceled pf ((pause pf ^^ n) w)"
      "scan_merge pf ((pause pf ^^ n) w) pats [] = Inr ks" "x \<noteq> y" "ks \<noteq> []"
      "Some x \<in> set (rd_mget pf ((pause pf ^^ n) w) ks)" "Some y \<in> set (rd_mget pf ((pause pf ^^ n) w) ks)"
      using mixed by (metis insert_subset)
    show "ready_verdict pf pats ((pause pf ^^ n) w) = None"
    proof (rule ccontr)
      assume "ready_verdict pf pats ((pause pf ^^ n) w) \<noteq> None"
      then obtain r where "ready_verdict pf pats ((pause pf ^^ n) w) = Some r" by blast
      from ready_verdict_cases [OF this] n show False by auto
    qed
  qed
qed

definition mixed_world :: world where
  "mixed_world = \<lparr>store = [(''a'', RStr ''READY''), (''ab'', RStr ''RUNNING'')], props = [], canceled = False, pauses = 0\<rparr>"

lemma mixed_world_pauses: "(pause ref_platform ^^ n) mixed_world = mixed_world\<lparr>pauses := n\<rparr>"
  by (induction n) (simp_all add: ref_sel mixed_world_def)

theorem wait_for_peers_witness:
  "wait_ready ref_platform [''a*''] mixed_world = None"
proof -
  have scan: "scan_merge ref_platform (mixed_world\<lparr>pauses := n\<rparr>) [''a*''] [] = Inr [''a'', ''ab'']" for n
    by (simp add: scan_def scan_from.simps ref_sel mixed_world_def)
  have "\<exists>ks x y. scan_merge ref_platform (mixed_world\<lparr>pauses := n\<rparr>) [''a*''] [] = Inr ks \<and> x \<noteq> y \<and>
      {Some x, Some y} \<subseteq> set (rd_mget ref_platform (mixed_world\<lparr>pauses := n\<rparr>) ks) \<and> ks \<noteq> []" for n
    unfolding scan
    by (intro exI [of _ "[''a'', ''ab'']"] exI [of _ "''READY''"] exI [of _ "''RUNNING''"])
      (simp add: ref_sel mixed_world_def)
  moreover have "\<not> is_canceled ref_platform (mixed_world\<lparr>pauses := n\<rparr>)" for n
    by (simp add: ref_sel mixed_world_def)
  ultimately show ?thesis
    using wait_for_peers [of ref_platform "[''a*'']" mixed_world] unfolding mixed_world_pauses by blast
qed

end
