(* ===== verification/ServicePlugin.thy ===== *)
theory ServicePlugin
  imports Connect
begin

text \<open>
  The registration of a device in the registry (\<^verbatim>\<open>plugins/DaqServicePlugin.cxx\<close>): the instance id
  (\<open>SetId\<close>), the keys of the instance (\<open>Register\<close>, \<open>ResetTtl\<close>, \<open>Unregister\<close>), the run number and
  the start and stop times, and the callback that runs at every change of the device state.
\<close>

section \<open>State\<close>

text \<open>
  What the plugin uses of the host: the FairMQ state machine and the queue of announced states,
  the clock and the Redis lock. \<open>uptime_ns\<close> and \<open>date_now\<close> are the two results of
  \<^verbatim>\<open>update_date\<close>, the latter as text. \<open>WaitForNext\<close> has no value when it blocks for ever.
\<close>

datatype DeviceStateTransition =
    T_InitDevice | T_CompleteInit | T_Bind | T_Connect | T_InitTask | T_Run | T_Stop
  | T_ResetTask | T_ResetDevice | T_End

record 'w host =
  uptime_ns :: "'w \<Rightarrow> nat"
  date_now :: "'w \<Rightarrow> string"
  GetCurrentDeviceState :: "'w \<Rightarrow> DeviceState"
  ChangeDeviceState :: "DeviceStateTransition \<Rightarrow> 'w \<Rightarrow> unit res \<times> 'w"
  WaitForNext :: "'w \<Rightarrow> (DeviceState res \<times> 'w) option"
  PushState :: "DeviceState \<Rightarrow> 'w \<Rightarrow> 'w"
  ClearStates :: "'w \<Rightarrow> 'w"
  ReleaseDeviceControl :: "'w \<Rightarrow> 'w"
  try_lock :: "'w \<Rightarrow> bool \<times> 'w"
  unlock :: "'w \<Rightarrow> 'w"

record 'w plugin =
  pl_separator :: string
  pl_uuid :: string
  pl_id :: string
  pl_serviceName :: string
  pl_registeredKeys :: "string list"
  pl_registeredHashes :: "(string \<times> string) list"
  presence_key :: string
  health_key :: string
  hostName :: string
  ipAddress :: string
  createdTime :: string
  pl_fairMQStateKey :: string
  pl_updateTimeKey :: string
  pl_progOptionKeyName :: string
  pl_maxTtl :: int
  pl_ttlUpdateInterval :: int
  pl_startupState :: string
  pluginShutdownRequested :: bool
  resetDeviceRequested :: bool
  has_topology :: bool
  topology :: "'w topo"

text \<open>The world of the plugin is the world of its topology.\<close>

definition pw :: "'w plugin \<Rightarrow> 'w" where "pw p = world (topology p)"

definition on_pw :: "('w \<Rightarrow> 'w) \<Rightarrow> ('w plugin, unit) opn" where
  "on_pw f = modify (\<lambda>p. p\<lparr>topology := (topology p)\<lparr>world := f (world (topology p))\<rparr>\<rparr>)"

definition on_topology :: "('w topo, 'a) opn \<Rightarrow> ('w plugin, 'a) opn" where
  "on_topology m p = (case m (topology p) of (r, t) \<Rightarrow> (r, p\<lparr>topology := t\<rparr>))"

definition insert_key :: "string \<Rightarrow> ('w plugin, unit) opn" where
  "insert_key k = modify (\<lambda>p. p\<lparr>pl_registeredKeys := List.insert k (pl_registeredKeys p)\<rparr>)"

definition instance_prefix :: "'w plugin \<Rightarrow> string \<Rightarrow> string" where
  "instance_prefix p part = join [TopPrefix, pl_serviceName p, pl_id p, part] (pl_separator p)"

section \<open>The instance id: SetId\<close>

text \<open>HSETNX sets the field unless it exists and tells whether it did.\<close>

definition hsetnx :: "'w platform \<Rightarrow> string \<Rightarrow> string \<Rightarrow> string \<Rightarrow> 'w \<Rightarrow> bool \<times> 'w" where
  "hsetnx pf k f v w = (if rd_hget pf w k f = None then (True, rd_run pf (HSet k [(f, v)]) w) else (False, w))"

partial_function (option) free_index :: "'w platform \<Rightarrow> string \<Rightarrow> string \<Rightarrow> nat \<Rightarrow> 'w \<Rightarrow> (nat \<times> 'w) option" where
  "free_index pf k v index w =
     (let (isSet, w') = hsetnx pf k (show_nat index) v w
      in if isSet then Some (index, w') else free_index pf k v (Suc index) w')"

definition index_key :: "'w plugin \<Rightarrow> string" where
  "index_key p = join [TopPrefix, ServiceInstanceIndexPrefix, pl_serviceName p] (pl_separator p)"

text \<open>Reading the indices: the expired ones, and the index of this very uuid if it is alive.\<close>

definition split_indices ::
  "string list \<Rightarrow> string \<Rightarrow> (string \<times> string) list \<Rightarrow> string list \<times> string" where
  "split_indices uuidList myUuid hashIndexToUuid =
     fold (\<lambda>(index, uuid) (indexExpired, myIndex).
        if uuid \<notin> set uuidList then (indexExpired @ [index], myIndex)
        else if uuid = myUuid then (indexExpired, index)
        else (indexExpired, myIndex)) hashIndexToUuid ([], [])"

definition take_index :: "'w platform \<Rightarrow> string \<Rightarrow> ('w plugin, unit) opn" where
  "take_index pf k =
     bindM (asks (\<lambda>p. case free_index pf k (pl_uuid p) 0 (pw p) of None \<Rightarrow> Inl NoReturn | Some r \<Rightarrow> Inr r)) (\<lambda>(index, w).
       seqM (on_pw (\<lambda>_. w))
      (seqM (modify (\<lambda>p. p\<lparr>
          pl_registeredHashes := (if map_of (pl_registeredHashes p) k = None
            then pl_registeredHashes p @ [(k, show_nat index)] else pl_registeredHashes p),
          pl_id := pl_serviceName p @ ''-'' @ show_nat index\<rparr>))
      (seqM (modify (\<lambda>p. p\<lparr>presence_key := instance_prefix p PresencePrefix\<rparr>))
      (bindM (gets (\<lambda>p. (presence_key p, pl_maxTtl p, pl_uuid p))) (\<lambda>(pk, ttl, uuid).
         seqM (on_pw (rd_run pf (SetEx pk ttl uuid))) (insert_key pk))))))"

text \<open>\<^verbatim>\<open>mget\<close> into a set of strings fails on a key that has expired since it was listed.\<close>

definition live_uuids :: "'w platform \<Rightarrow> 'w plugin \<Rightarrow> string list res" where
  "live_uuids pf p =
     bindR (scan_parts pf (pw p) [TopPrefix, pl_serviceName p, ''*'', PresencePrefix] (pl_separator p)) (\<lambda>presenceKeys.
       if presenceKeys = [] then Inr []
       else let vs = rd_mget pf (pw p) presenceKeys
            in if None \<in> set vs then Inl (Failure ''nil'') else Inr (map the vs))"

definition calculate_index :: "'w platform \<Rightarrow> ('w plugin, unit) opn" where
  "calculate_index pf =
     bindM (asks (live_uuids pf)) (\<lambda>uuidList.
     bindM (gets (\<lambda>p. (index_key p, split_indices uuidList (pl_uuid p) (rd_hgetall pf (pw p) (index_key p)))))
       (\<lambda>(k, indexExpired, myIndex).
       seqM (only_if (indexExpired \<noteq> []) (on_pw (rd_run pf (HDel k indexExpired))))
            (only_if (myIndex = []) (take_index pf k))))"

text \<open>
  One round of the loop: the lock is released at the end of the scope also when an exception
  is thrown; the result is whether the loop ends.
\<close>

definition id_round :: "'w platform \<Rightarrow> 'w host \<Rightarrow> ('w plugin, bool) opn" where
  "id_round pf hs p =
     (case try_lock hs (pw p) of
        (False, w) \<Rightarrow> (Inr False, snd (on_pw (\<lambda>_. pause pf w) p))
      | (True, w) \<Rightarrow>
          (case calculate_index pf (snd (on_pw (\<lambda>_. w) p)) of
             (Inl e, q) \<Rightarrow> ((if catchable e then Inr False else Inl e), snd (on_pw (unlock hs) q))
           | (Inr _, q) \<Rightarrow> (Inr True, snd (on_pw (unlock hs) q))))"

partial_function (option) id_loop :: "'w platform \<Rightarrow> 'w host \<Rightarrow> 'w plugin \<Rightarrow> (unit res \<times> 'w plugin) option" where
  "id_loop pf hs p =
     (let (r, q) = id_round pf hs p
      in case r of Inl e \<Rightarrow> Some (Inl e, q)
         | Inr done_ \<Rightarrow> if done_ then Some (Inr (), q) else id_loop pf hs q)"

definition run_id_loop :: "'w platform \<Rightarrow> 'w host \<Rightarrow> ('w plugin, unit) opn" where
  "run_id_loop pf hs p = (case id_loop pf hs p of None \<Rightarrow> (Inl NoReturn, p) | Some r \<Rightarrow> r)"

definition store_id :: "'w platform \<Rightarrow> ('w plugin, unit) opn" where
  "store_id pf = bindM (gets pl_id) (\<lambda>i. on_pw (pr_set pf ''id'' i))"

definition SetId :: "'w platform \<Rightarrow> 'w host \<Rightarrow> ('w plugin, unit) opn" where
  "SetId pf hs =
     seqM (modify (\<lambda>p. case pr_get pf (pw p) ''id'' of None \<Rightarrow> p | Some i \<Rightarrow> p\<lparr>pl_id := i\<rparr>))
    (seqM (bindM (gets (\<lambda>p. pl_id p = [] \<and> pl_serviceName p \<noteq> [])) (\<lambda>c.
             only_if c (seqM (run_id_loop pf hs) (store_id pf))))
          (bindM (gets (\<lambda>p. pl_id p = [])) (\<lambda>c.
             only_if c (seqM (modify (\<lambda>p. p\<lparr>pl_id := pl_uuid p\<rparr>)) (store_id pf)))))"

section \<open>The keys of the instance\<close>

definition prog_options :: "string list" where
  "prog_options =
     [''severity'', ''file-severity'', ''verbosity'', ''color'', ''log-to-file'', ''id'', ''io-threads'',
      ''transport'', ''network-interface'', ''init-timeout'', ''shm-segment-size'', ''shm-allocation'',
      ''shm-monitor'', ''shm-mlock-segment'', ''shm-zero-segment'', ''shm-throw-bad-alloc'', ''rate'', ''session'']"

definition option_pipe :: "'w platform \<Rightarrow> 'w plugin \<Rightarrow> pipeline res" where
  "option_pipe pf p =
     (let vs = map (\<lambda>n. (n, pr_get pf (pw p) n)) prog_options
      in if \<exists>(n, v)\<in>set vs. v = None then Inl (Failure ''property does not exist'')
         else Inr [HSet (pl_progOptionKeyName p) (map (\<lambda>(n, v). (n, the v)) vs),
                   Expire (pl_progOptionKeyName p) (pl_maxTtl p)])"

text \<open>The pipeline is built and destroyed: it is never executed.\<close>

definition WriteProgOptions :: "'w platform \<Rightarrow> ('w plugin, unit) opn" where
  "WriteProgOptions pf = bindM (asks (option_pipe pf)) (\<lambda>pipe. ret ())"

definition uptime_ms :: "'w host \<Rightarrow> 'w \<Rightarrow> string" where
  "uptime_ms hs w = show_nat (uptime_ns hs w div 1000000)"

definition Register :: "'w platform \<Rightarrow> 'w host \<Rightarrow> ('w plugin, unit) opn" where
  "Register pf hs =
     try_log
    (seqM (SetId pf hs)
    (seqM (modify (\<lambda>p. p\<lparr>
        pl_progOptionKeyName := instance_prefix p ProgOptionPrefix,
        health_key := instance_prefix p HealthPrefix,
        pl_fairMQStateKey := instance_prefix p FairMQStatePrefix,
        pl_updateTimeKey := instance_prefix p UpdateTimePrefix\<rparr>))
    (bindM (gets pl_fairMQStateKey) (\<lambda>stateKey.
     seqM (insert_key stateKey)
    (bindM (gets pl_updateTimeKey) (\<lambda>updateKey.
     seqM (insert_key updateKey)
    (bindM (gets (\<lambda>p. (health_key p,
        [HSet (health_key p)
           [(''instanceID'', pl_id p), (''uuid'', pl_uuid p), (''hostName'', hostName p), (''hostIp'', ipAddress p),
            (''serviceName'', pl_serviceName p), (''createdTime'', createdTime p),
            (''updatedTime'', date_now hs (pw p)), (''uptime'', uptime_ms hs (pw p))],
         Expire (health_key p) (pl_maxTtl p)]))) (\<lambda>(healthKey, pipe).
     seqM (on_pw (pipe_exec pf pipe))
    (seqM (insert_key healthKey)
    (seqM (WriteProgOptions pf)
    (bindM (gets pl_progOptionKeyName) insert_key)))))))))))"

definition ttl_pipe :: "'w platform \<Rightarrow> 'w host \<Rightarrow> 'w plugin \<Rightarrow> pipeline" where
  "ttl_pipe pf hs p =
     (let lastChecked = date_now hs (pw p);
          pipe = [HSet (health_key p) [(''updatedTime'', lastChecked), (''uptime'', uptime_ms hs (pw p))],
                  SetEx (presence_key p) (pl_maxTtl p) (pl_uuid p),
                  SetEx (pl_fairMQStateKey p) (pl_maxTtl p) (GetStateName pf (GetCurrentDeviceState hs (pw p))),
                  SetEx (pl_updateTimeKey p) (pl_maxTtl p) lastChecked,
                  Expire (health_key p) (pl_maxTtl p),
                  Expire (pl_progOptionKeyName p) (pl_maxTtl p)]
      in if has_topology p then topo_ResetTtl (topology p) pipe else pipe)"

definition ResetTtl :: "'w platform \<Rightarrow> 'w host \<Rightarrow> ('w plugin, unit) opn" where
  "ResetTtl pf hs = bindM (gets (ttl_pipe pf hs)) (\<lambda>pipe. on_pw (pipe_exec pf pipe))"

definition Unregister :: "'w platform \<Rightarrow> ('w plugin, unit) opn" where
  "Unregister pf =
     seqM (bindM (gets pl_registeredKeys) (\<lambda>keys.
             only_if (keys \<noteq> []) (seqM (on_pw (rd_run pf (Del keys))) (modify (\<lambda>p. p\<lparr>pl_registeredKeys := []\<rparr>)))))
    (seqM (bindM (gets pl_registeredHashes) (\<lambda>hashes.
             for_each hashes (\<lambda>(k, f). on_pw (rd_run pf (HDel k [f])))))
          (modify (\<lambda>p. p\<lparr>pl_registeredHashes := []\<rparr>)))"

text \<open>The destructor, without the joining of the threads.\<close>

definition destroy :: "'w platform \<Rightarrow> 'w host \<Rightarrow> ('w plugin, unit) opn" where
  "destroy pf hs =
     seqM (bindM (gets (\<lambda>p. GetCurrentDeviceState hs (pw p))) (\<lambda>s.
             only_if (s = Exiting) (on_pw (ReleaseDeviceControl hs))))
    (seqM (modify (\<lambda>p. p\<lparr>pluginShutdownRequested := True\<rparr>))
    (seqM (bindM (gets has_topology) (\<lambda>c. only_if c (on_topology (Reset pf))))
          (Unregister pf)))"

section \<open>Runs\<close>

definition ReadRunNumber :: "'w platform \<Rightarrow> ('w plugin, unit) opn" where
  "ReadRunNumber pf =
     bindM (gets (\<lambda>p. rd_get pf (pw p) (join [RunInfoPrefix, RunNumber] (pl_separator p)))) (\<lambda>runNumber.
       case runNumber of None \<Rightarrow> ret ()
       | Some n \<Rightarrow>
           bindM (gets (\<lambda>p. case pr_get pf (pw p) RunNumber of None \<Rightarrow> [] | Some m \<Rightarrow> m)) (\<lambda>myRunNumber.
             only_if (myRunNumber \<noteq> n) (on_pw (pr_set pf RunNumber n))))"

definition write_time :: "'w platform \<Rightarrow> 'w host \<Rightarrow> string \<Rightarrow> string \<Rightarrow> ('w plugin, unit) opn" where
  "write_time pf hs k kNS =
     bindM (gets (\<lambda>p. (health_key p, date_now hs (pw p), show_nat (uptime_ns hs (pw p))))) (\<lambda>(hk, t, tNS).
       seqM (on_pw (rd_run pf (HSet hk [(k, t), (kNS, tNS)])))
      (seqM (on_pw (pr_set pf k t)) (on_pw (pr_set pf kNS tNS))))"

definition WriteStartTime :: "'w platform \<Rightarrow> 'w host \<Rightarrow> ('w plugin, unit) opn" where
  "WriteStartTime pf hs = write_time pf hs StartTime StartTimeNS"

definition WriteStopTime :: "'w platform \<Rightarrow> 'w host \<Rightarrow> ('w plugin, unit) opn" where
  "WriteStopTime pf hs = write_time pf hs StopTime StopTimeNS"

section \<open>The callback of the state machine\<close>

definition set_uds :: "'w platform \<Rightarrow> ('w plugin, unit) opn" where
  "set_uds pf =
     bindM (asks (\<lambda>p. case pr_get pf (pw p) ''enable-uds'' of
              None \<Rightarrow> Inl (Failure ''property does not exist'') | Some v \<Rightarrow> Inr (parse_flag v))) (\<lambda>b.
       modify (\<lambda>p. p\<lparr>topology := (topology p)\<lparr>fEnableUds := b\<rparr>\<rparr>))"

definition device_state_callback :: "'w platform \<Rightarrow> 'w host \<Rightarrow> DeviceState \<Rightarrow> ('w plugin, unit) opn" where
  "device_state_callback pf hs newState =
     try_log
    (seqM (on_pw (PushState hs newState))
    (seqM (bindM (gets (\<lambda>p. [SetEx (pl_fairMQStateKey p) (pl_maxTtl p) (GetStateName pf newState),
              HSet (health_key p) [(''fair:mq:state'', GetStateName pf newState)],
              Expire (health_key p) (pl_maxTtl p)])) (\<lambda>pipe. on_pw (pipe_exec pf pipe)))
    (seqM (WriteProgOptions pf)
    (seqM (ReadRunNumber pf)
    (seqM (set_uds pf)
      (case newState of
         Idle \<Rightarrow> modify (\<lambda>p. p\<lparr>resetDeviceRequested := False\<rparr>)
       | InitializingDevice \<Rightarrow> on_topology (OnDeviceStateChange pf newState)
       | Bound \<Rightarrow> on_topology (OnDeviceStateChange pf newState)
       | ResettingDevice \<Rightarrow> on_topology (OnDeviceStateChange pf newState)
       | Error \<Rightarrow> modify (\<lambda>p. p\<lparr>pluginShutdownRequested := True\<rparr>)
       | _ \<Rightarrow> ret ()))))))"

section \<open>Facts about the operations\<close>

lemma pw_simps [simp]:
  "pw (p\<lparr>topology := t\<rparr>) = world t" "world (topology p) = pw p"
  "pw (p\<lparr>pl_id := i\<rparr>) = pw p" "pw (p\<lparr>pl_registeredKeys := ks\<rparr>) = pw p"
  "pw (p\<lparr>pl_registeredHashes := hs\<rparr>) = pw p" "pw (p\<lparr>presence_key := k\<rparr>) = pw p"
  "pw (p\<lparr>health_key := k\<rparr>) = pw p" "pw (p\<lparr>pluginShutdownRequested := b\<rparr>) = pw p"
  "pw (p\<lparr>resetDeviceRequested := b\<rparr>) = pw p"
  by (simp_all add: pw_def)

definition with_pw :: "'w \<Rightarrow> 'w plugin \<Rightarrow> 'w plugin" where
  "with_pw w p = p\<lparr>topology := (topology p)\<lparr>world := w\<rparr>\<rparr>"

lemma with_pw_simps [simp]:
  "pw (with_pw w p) = w" "with_pw w (with_pw v p) = with_pw w p"
  "pl_id (with_pw w p) = pl_id p" "pl_uuid (with_pw w p) = pl_uuid p" "pl_serviceName (with_pw w p) = pl_serviceName p"
  "pl_separator (with_pw w p) = pl_separator p" "pl_registeredKeys (with_pw w p) = pl_registeredKeys p"
  "pl_registeredHashes (with_pw w p) = pl_registeredHashes p" "pl_maxTtl (with_pw w p) = pl_maxTtl p"
  "pl_ttlUpdateInterval (with_pw w p) = pl_ttlUpdateInterval p"
  "presence_key (with_pw w p) = presence_key p" "health_key (with_pw w p) = health_key p"
  "index_key (with_pw w p) = index_key p" "instance_prefix (with_pw w p) s = instance_prefix p s"
  "resetDeviceRequested (with_pw w p) = resetDeviceRequested p"
  "pluginShutdownRequested (with_pw w p) = pluginShutdownRequested p"
  "pl_startupState (with_pw w p) = pl_startupState p"
  by (simp_all add: with_pw_def index_key_def instance_prefix_def)

lemma on_pw_apply [op_simps]: "on_pw f p = (Inr (), with_pw (f (pw p)) p)"
  by (simp add: on_pw_def op_simps with_pw_def)

lemma seqM_on_pw [op_simps]: "seqM (on_pw f) m p = m (with_pw (f (pw p)) p)"
  by (simp add: seqM_def bindM_def on_pw_apply)

lemma insert_key_apply [op_simps]:
  "insert_key k p = (Inr (), p\<lparr>pl_registeredKeys := List.insert k (pl_registeredKeys p)\<rparr>)"
  by (simp add: insert_key_def op_simps)

section \<open>The least free index\<close>

lemma free_index_least:
  assumes "i \<le> n" and "rd_hget pf w k (show_nat n) = None"
    and "\<And>j. i \<le> j \<Longrightarrow> j < n \<Longrightarrow> rd_hget pf w k (show_nat j) \<noteq> None"
  shows "free_index pf k v i w = Some (n, rd_run pf (HSet k [(show_nat n, v)]) w)"
  using assms
proof (induction "n - i" arbitrary: i)
  case 0
  then show ?case by (subst free_index.simps) (simp add: hsetnx_def)
next
  case (Suc d)
  then have "i < n" by simp
  moreover have "free_index pf k v (Suc i) w = Some (n, rd_run pf (HSet k [(show_nat n, v)]) w)"
    using Suc.prems Suc.hyps(2) by (intro Suc.hyps(1)) auto
  moreover have "rd_hget pf w k (show_nat i) \<noteq> None" using Suc.prems(3) \<open>i < n\<close> by blast
  ultimately show ?case by (subst free_index.simps) (simp add: hsetnx_def)
qed

lemma finite_index:
  "\<exists>n. map_of (h :: string smap) (show_nat n) = None"
proof (rule ccontr)
  assume "\<not> ?thesis"
  then have "range show_nat \<subseteq> dom (map_of h)" by auto
  then have "finite (range show_nat)" by (rule finite_subset) (rule finite_dom_map_of)
  moreover have "inj show_nat" by (simp add: inj_on_def)
  ultimately show False using finite_imageD infinite_UNIV_nat by blast
qed

lemma least_index:
  obtains n where "map_of (h :: string smap) (show_nat n) = None" and "\<And>j. j < n \<Longrightarrow> map_of h (show_nat j) \<noteq> None"
proof -
  have "\<exists>n. map_of h (show_nat n) = None" by (rule finite_index)
  then obtain n where "map_of h (show_nat n) = None \<and> (\<forall>j<n. map_of h (show_nat j) \<noteq> None)"
    unfolding exists_least_iff [of "\<lambda>n. map_of h (show_nat n) = None"] by auto
  with that show thesis by blast
qed

text \<open>What is left of the index hash: the indices of the instances that are alive.\<close>

lemma split_indices_expired:
  "set (fst (split_indices us my h)) = {i. \<exists>u. (i, u) \<in> set h \<and> u \<notin> set us}"
proof -
  have "set (fst (fold (\<lambda>(index, uuid) (indexExpired, myIndex).
        if uuid \<notin> set us then (indexExpired @ [index], myIndex)
        else if uuid = my then (indexExpired, index) else (indexExpired, myIndex)) h (e, m))) =
      set e \<union> {i. \<exists>u. (i, u) \<in> set h \<and> u \<notin> set us}" for e m
    by (induction h arbitrary: e m) (auto split: if_splits)
  then show ?thesis by (simp add: split_indices_def)
qed

lemma split_indices_mine:
  assumes "\<And>i u. (i, u) \<in> set h \<Longrightarrow> u \<in> set us \<Longrightarrow> u \<noteq> my"
  shows "snd (split_indices us my h) = []"
proof -
  have "snd (fold (\<lambda>(index, uuid) (indexExpired, myIndex).
        if uuid \<notin> set us then (indexExpired @ [index], myIndex)
        else if uuid = my then (indexExpired, index) else (indexExpired, myIndex)) h (e, m)) = m" for e m
    using assms by (induction h arbitrary: e m) (auto, blast+)
  then show ?thesis by (simp add: split_indices_def)
qed

text \<open>The fields of a key that holds a hash, or nothing.\<close>

definition hash_of :: "('w \<Rightarrow> keyspace) \<Rightarrow> 'w \<Rightarrow> string \<Rightarrow> string smap option" where
  "hash_of view w k = (case view w k of None \<Rightarrow> Some [] | Some (RHash h) \<Rightarrow> Some h | _ \<Rightarrow> None)"

lemma hash_of_hget:
  "redis_server pf view mt \<Longrightarrow> hash_of view w k = Some h \<Longrightarrow> rd_hget pf w k f = map_of h f"
  by (auto simp: hash_of_def hget_hash hget_none split: option.splits rvalue.splits)

lemma hash_of_hgetall:
  "redis_server pf view mt \<Longrightarrow> hash_of view w k = Some h \<Longrightarrow>
     distinct (map fst (rd_hgetall pf w k)) \<and> map_of (rd_hgetall pf w k) = map_of h"
  using hgetall_hash [of pf view mt w k]
  by (auto simp: hash_of_def redis_server_def redis_reads_def split: option.splits rvalue.splits)

lemma hash_of_hdel:
  "redis_server pf view mt \<Longrightarrow> hash_of view w k = Some h \<Longrightarrow>
     \<exists>h'. hash_of view (rd_run pf (HDel k fs) w) k = Some h' \<and>
       map_of h' = (\<lambda>f. if f \<in> set fs then None else map_of h f)"
proof -
  assume r: "redis_server pf view mt" and h: "hash_of view w k = Some h"
  have f: "map_of (filter (\<lambda>(f, v). f \<notin> set fs) h) = (\<lambda>f. if f \<in> set fs then None else map_of h f)" for h :: "string smap"
    by (rule ext) (simp add: map_of_filter_key [where P = "\<lambda>f. f \<notin> set fs"])
  from h f [of h] show ?thesis
    by (auto simp: hash_of_def view_run [OF r] Let_def fun_eq_iff split: option.splits rvalue.splits if_splits)
qed

lemma hash_of_hset:
  "redis_server pf view mt \<Longrightarrow> hash_of view w k = Some h \<Longrightarrow>
     hash_of view (rd_run pf (HSet k fs) w) k = Some (hash_put fs h)"
  by (auto simp: hash_of_def view_run split: option.splits rvalue.splits)

lemma view_frame:
  "redis_server pf view mt \<Longrightarrow> x \<notin> set (cmd_keys c) \<Longrightarrow> view (rd_run pf c w) x = view w x"
  by (simp add: view_run cmd_effect_frame)

definition live_index :: "string list \<Rightarrow> string smap \<Rightarrow> string \<Rightarrow> bool" where
  "live_index us h i \<longleftrightarrow> (\<exists>u\<in>set us. map_of h i = Some u)"

definition alive :: "string list \<Rightarrow> string smap \<Rightarrow> string \<Rightarrow> string option" where
  "alive us h = (\<lambda>i. if live_index us h i then map_of h i else None)"

lemma expired_removed:
  assumes "redis_server pf view mt" and "hash_of view (pw p) k = Some h"
    and "ex = fst (split_indices us my (rd_hgetall pf (pw p) k))"
  shows "\<exists>h'. hash_of view (pw (snd (only_if (ex \<noteq> []) (on_pw (rd_run pf (HDel k ex))) p))) k = Some h' \<and> map_of h' = alive us h"
proof -
  note all = hash_of_hgetall [OF assms(1,2)]
  have mem: "(i, u) \<in> set (rd_hgetall pf (pw p) k) \<longleftrightarrow> map_of h i = Some u" for i u
    using all by (metis map_of_eq_Some_iff)
  have ex: "i \<in> set ex \<longleftrightarrow> (\<exists>u. map_of h i = Some u \<and> u \<notin> set us)" for i
    unfolding assms(3) split_indices_expired mem by simp
  have al: "(\<lambda>f. if f \<in> set ex then None else map_of h f) = alive us h"
  proof
    fix f show "(if f \<in> set ex then None else map_of h f) = alive us h f"
      by (cases "map_of h f") (auto simp: ex alive_def live_index_def)
  qed
  show ?thesis
  proof (cases "ex = []")
    case True
    with al have "map_of h = alive us h" by simp
    with True assms(2) show ?thesis by (simp add: only_if_def op_simps)
  next
    case False
    with hash_of_hdel [OF assms(1,2), of ex] show ?thesis
      unfolding al by (simp add: only_if_def op_simps)
  qed
qed

text \<open>The round of the loop that takes an index, for an instance that is not alive yet.\<close>

definition new_instance :: "'w plugin \<Rightarrow> nat \<Rightarrow> 'w plugin" where
  "new_instance p n =
     (let q = p\<lparr>pl_id := pl_serviceName p @ ''-'' @ show_nat n\<rparr>
      in q\<lparr>presence_key := instance_prefix q PresencePrefix,
           pl_registeredHashes := (if map_of (pl_registeredHashes p) (index_key p) = None
             then pl_registeredHashes p @ [(index_key p, show_nat n)] else pl_registeredHashes p),
           pl_registeredKeys := List.insert (instance_prefix q PresencePrefix) (pl_registeredKeys p)\<rparr>)"

lemma take_index_effect:
  assumes "redis_server pf view mt" and "hash_of view (pw p) (index_key p) = Some h"
    and "map_of h (show_nat n) = None" and "\<And>j. j < n \<Longrightarrow> map_of h (show_nat j) \<noteq> None"
  shows "take_index pf (index_key p) p =
    (Inr (), with_pw (rd_run pf (SetEx (presence_key (new_instance p n)) (pl_maxTtl p) (pl_uuid p))
       (rd_run pf (HSet (index_key p) [(show_nat n, pl_uuid p)]) (pw p))) (new_instance p n))"
proof -
  have f: "free_index pf (index_key p) (pl_uuid p) 0 (pw p) =
      Some (n, rd_run pf (HSet (index_key p) [(show_nat n, pl_uuid p)]) (pw p))"
    by (rule free_index_least) (use assms(3,4) in \<open>simp_all add: hash_of_hget [OF assms(1,2)]\<close>)
  show ?thesis
    by (simp add: take_index_def bindM_def asks_apply f op_simps new_instance_def Let_def)
      (simp add: with_pw_def instance_prefix_def)
qed

lemma calculate_index_effect:
  assumes "redis_server pf view mt" and "live_uuids pf p = Inr us" and "pl_uuid p \<notin> set us"
    and "hash_of view (pw p) (index_key p) = Some h"
  obtains n w where "calculate_index pf p = (Inr (), with_pw w (new_instance p n))"
    and "\<not> live_index us h (show_nat n)" and "\<And>j. j < n \<Longrightarrow> live_index us h (show_nat j)"
    and "presence_key (new_instance p n) \<noteq> index_key p \<Longrightarrow>
      \<exists>h'. hash_of view w (index_key p) = Some h' \<and> map_of h' = (alive us h)(show_nat n \<mapsto> pl_uuid p)"
    and "view w (presence_key (new_instance p n)) = Some (RStr (pl_uuid p))"
    and "\<And>x. x \<noteq> index_key p \<Longrightarrow> x \<noteq> presence_key (new_instance p n) \<Longrightarrow> view w x = view (pw p) x"
proof -
  let ?k = "index_key p" and ?all = "rd_hgetall pf (pw p) (index_key p)"
  have mine: "snd (split_indices us (pl_uuid p) ?all) = []"
    using assms(3) by (intro split_indices_mine) auto
  obtain ex where sp: "split_indices us (pl_uuid p) ?all = (ex, [])"
    using mine by (metis prod.collapse)
  obtain p1 where p1: "p1 = snd (only_if (ex \<noteq> []) (on_pw (rd_run pf (HDel ?k ex))) p)" by blast
  have "ex = fst (split_indices us (pl_uuid p) ?all)" by (simp add: sp)
  from expired_removed [OF assms(1,4) this] obtain h1 where
    h1: "hash_of view (pw p1) ?k = Some h1" "map_of h1 = alive us h"
    using p1 by blast
  obtain n where n: "map_of h1 (show_nat n) = None" "\<And>j. j < n \<Longrightarrow> map_of h1 (show_nat j) \<noteq> None"
    using least_index [of h1] by blast
  have p1': "p1 = with_pw (pw p1) p" "index_key p1 = ?k" "new_instance (with_pw v p) n = with_pw v (new_instance p n)" for v
    unfolding p1 by (auto simp: only_if_def op_simps new_instance_def with_pw_def Let_def instance_prefix_def index_key_def)
  let ?w = "rd_run pf (SetEx (presence_key (new_instance p n)) (pl_maxTtl p) (pl_uuid p))
       (rd_run pf (HSet ?k [(show_nat n, pl_uuid p)]) (pw p1))"
  have run1: "only_if (ex \<noteq> []) (on_pw (rd_run pf (HDel ?k ex))) p = (Inr (), p1)"
    unfolding p1 by (simp add: only_if_def op_simps)
  have take: "take_index pf ?k p1 = (Inr (), with_pw ?w (new_instance p n))"
  proof -
    have "new_instance p1 n = with_pw (pw p1) (new_instance p n)" using p1'(1,3) by metis
    moreover have "pl_maxTtl p1 = pl_maxTtl p" "pl_uuid p1 = pl_uuid p" using p1'(1) by (metis with_pw_simps)+
    ultimately show ?thesis
      using take_index_effect [OF assms(1) h1(1) [folded p1'(2)] n] p1'(2) by simp
  qed
  have run: "calculate_index pf p = (Inr (), with_pw ?w (new_instance p n))"
    by (simp add: calculate_index_def bindM_def seqM_def asks_apply gets_apply assms(2) sp run1)
      (simp add: only_if_def take)
  have live: "map_of h1 i \<noteq> None \<longleftrightarrow> live_index us h i" for i
    using h1(2) by (auto simp: alive_def live_index_def)
  show thesis
  proof (rule that [OF run])
    show "\<not> live_index us h (show_nat n)" "\<And>j. j < n \<Longrightarrow> live_index us h (show_nat j)"
      using n live by blast+
    show "\<exists>h'. hash_of view ?w ?k = Some h' \<and> map_of h' = (alive us h)(show_nat n \<mapsto> pl_uuid p)"
      if "presence_key (new_instance p n) \<noteq> ?k"
    proof -
      have "hash_of view ?w ?k = hash_of view (rd_run pf (HSet ?k [(show_nat n, pl_uuid p)]) (pw p1)) ?k"
        using that by (simp add: hash_of_def view_frame [OF assms(1)])
      also have "\<dots> = Some (hash_put [(show_nat n, pl_uuid p)] h1)"
        by (rule hash_of_hset [OF assms(1) h1(1)])
      finally show ?thesis using h1(2) by (simp add: hash_put_def)
    qed
    show "view ?w (presence_key (new_instance p n)) = Some (RStr (pl_uuid p))"
      by (simp add: view_run [OF assms(1)])
    show "view ?w x = view (pw p) x" if "x \<noteq> ?k" "x \<noteq> presence_key (new_instance p n)" for x
      using that by (simp add: view_frame [OF assms(1)] p1 only_if_def op_simps)
  qed
qed

section \<open>Taking an id\<close>

definition presence_pattern :: "'w plugin \<Rightarrow> string" where
  "presence_pattern p = join [TopPrefix, pl_serviceName p, ''*'', PresencePrefix] (pl_separator p)"

text \<open>The uuids of the instances of the service that are present.\<close>

definition live_set :: "('w \<Rightarrow> keyspace) \<Rightarrow> (string \<Rightarrow> string \<Rightarrow> bool) \<Rightarrow> 'w plugin \<Rightarrow> string set" where
  "live_set view mt p = {u. \<exists>k. mt (presence_pattern p) k \<and> view (pw p) k = Some (RStr u)}"

definition presence_strings :: "('w \<Rightarrow> keyspace) \<Rightarrow> (string \<Rightarrow> string \<Rightarrow> bool) \<Rightarrow> 'w plugin \<Rightarrow> bool" where
  "presence_strings view mt p \<longleftrightarrow>
     (\<forall>k v. mt (presence_pattern p) k \<longrightarrow> view (pw p) k = Some v \<longrightarrow> (\<exists>u. v = RStr u))"

text \<open>The host leaves the registry alone; the lock is free.\<close>

definition host_frame :: "'w host \<Rightarrow> ('w \<Rightarrow> keyspace) \<Rightarrow> bool" where
  "host_frame hs view \<longleftrightarrow>
     (\<forall>w s. view (PushState hs s w) = view w \<and> view (ReleaseDeviceControl hs w) = view w \<and>
        view (snd (try_lock hs w)) = view w \<and> view (unlock hs w) = view w)"

lemma live_uuids_result:
  assumes "redis_server pf view mt" and "presence_strings view mt p"
  shows "\<exists>us. live_uuids pf p = Inr us \<and> set us = live_set view mt p"
proof -
  obtain ks where ks: "scan pf (pw p) (presence_pattern p) = Inr ks"
    "set ks = {k. view (pw p) k \<noteq> None \<and> mt (presence_pattern p) k}"
    using key_scanner.scan_ok [OF key_scanner_scan [OF assms(1)], of "pw p" "presence_pattern p"] by blast
  let ?f = "\<lambda>k. case view (pw p) k of Some (RStr s) \<Rightarrow> Some s | _ \<Rightarrow> None"
  have str: "\<exists>u. view (pw p) k = Some (RStr u)" if "k \<in> set ks" for k
    using that ks(2) assms(2) by (force simp: presence_strings_def)
  have mget: "rd_mget pf (pw p) ks = map ?f ks"
    using redis_reads [OF assms(1)] by (simp add: redis_reads_def)
  have "None \<notin> set (map ?f ks)"
  proof
    assume "None \<in> set (map ?f ks)"
    then obtain k where "k \<in> set ks" "None = ?f k" unfolding set_map by (rule imageE)
    with str [of k] show False by auto
  qed
  moreover have "set (map the (map ?f ks)) = live_set view mt p"
  proof (intro set_eqI iffI)
    fix u assume "u \<in> set (map the (map ?f ks))"
    then obtain k where k: "k \<in> set ks" "u = the (?f k)" by auto
    with str [OF k(1)] ks(2) show "u \<in> live_set view mt p" unfolding live_set_def by auto
  next
    fix u assume "u \<in> live_set view mt p"
    then obtain k where k: "mt (presence_pattern p) k" "view (pw p) k = Some (RStr u)"
      unfolding live_set_def by blast
    then have "k \<in> set ks" "the (?f k) = u" using ks(2) by simp_all
    then show "u \<in> set (map the (map ?f ks))" unfolding set_map image_image by (intro image_eqI [where x = k]) simp_all
  qed
  ultimately show ?thesis
    using ks(1) by (cases "ks = []")
      (auto simp: live_uuids_def scan_parts_def presence_pattern_def [symmetric] mget Let_def)
qed

definition apart :: "'w plugin \<Rightarrow> bool" where
  "apart p \<longleftrightarrow> (\<exists>c. pl_separator p = [c] \<and> separator_char c \<and> c \<notin> set (pl_serviceName p))"

lemma separator_plain: "separator_char c \<Longrightarrow> list_all (\<lambda>x. word_char x \<or> x = CHR ''-'') s \<Longrightarrow> plain c s"
  by (auto simp: plain_def separator_char_def list_all_iff)

lemma constants_plain:
  assumes "separator_char c"
  shows "plain c TopPrefix" "plain c PresencePrefix" "plain c ServiceInstanceIndexPrefix"
  by (rule separator_plain [OF assms], simp add: key_constants word_char_def is_digit_def)+

lemma presence_not_index: "apart p \<Longrightarrow> presence_key (new_instance p n) \<noteq> index_key p"
proof -
  assume "apart p"
  then obtain c where c: "pl_separator p = [c]" "separator_char c" "c \<notin> set (pl_serviceName p)"
    unfolding apart_def by blast
  have num: "c \<notin> set (show_nat n)"
    using c(2) show_nat_digits [of c n] by (auto simp: separator_char_def)
  note cnst = constants_plain [OF c(2)]
  have "c \<noteq> CHR ''-''" using c(2) by (simp add: separator_char_def)
  have pl: "plain c (pl_serviceName p)" "plain c (pl_serviceName p @ ''-'' @ show_nat n)"
    using c(3) num \<open>c \<noteq> CHR ''-''\<close> by (simp_all add: plain_def)
  let ?xs = "[TopPrefix, pl_serviceName p, pl_serviceName p @ ''-'' @ show_nat n, PresencePrefix]"
  let ?ys = "[TopPrefix, ServiceInstanceIndexPrefix, pl_serviceName p]"
  have "join ?xs [c] = join ?ys [c] \<longleftrightarrow> ?xs = ?ys"
    by (rule join_inj) (simp_all only: list.pred_inject pl cnst, simp_all)
  then have "join ?xs [c] \<noteq> join ?ys [c]" by simp
  then show ?thesis
    by (simp only: new_instance_def Let_def instance_prefix_def index_key_def) (simp add: c(1))
qed

lemma new_instance_with_pw: "new_instance (with_pw w p) n = with_pw w (new_instance p n)"
  by (simp add: new_instance_def Let_def index_key_def instance_prefix_def with_pw_def)

lemma new_instance_simps [simp]:
  "pw (new_instance p n) = pw p" "pl_id (new_instance p n) = pl_serviceName p @ ''-'' @ show_nat n"
  "pl_serviceName (new_instance p n) = pl_serviceName p" "pl_separator (new_instance p n) = pl_separator p"
  "index_key (new_instance p n) = index_key p"
  "presence_key (new_instance p n) = instance_prefix (new_instance p n) PresencePrefix"
  "instance_prefix (new_instance p n) PresencePrefix \<in> set (pl_registeredKeys (new_instance p n))"
  by (simp_all add: new_instance_def Let_def index_key_def instance_prefix_def)

text \<open>
  C6. An instance without an id gets the id \<^verbatim>\<open>service-n\<close> with the least index \<open>n\<close> that no living
  instance of the service holds: indices of expired instances are given back, those of the living
  are kept, and the presence key of the new instance is written and registered.
\<close>

theorem set_id_takes_least_free_index:
  assumes "redis_server pf view mt" and "property_store pf view" and "host_frame hs view" and "\<And>w. fst (try_lock hs w)"
    and "pr_get pf (pw p) ''id'' = None" and "pl_id p = []" and "pl_serviceName p \<noteq> []" and "apart p"
    and "presence_strings view mt p" and "pl_uuid p \<notin> live_set view mt p"
    and "hash_of view (pw p) (index_key p) = Some h"
  shows "\<exists>n q h'. SetId pf hs p = (Inr (), q) \<and> pl_id q = pl_serviceName p @ ''-'' @ show_nat n \<and>
    \<not> (\<exists>u\<in>live_set view mt p. map_of h (show_nat n) = Some u) \<and>
    (\<forall>j<n. \<exists>u\<in>live_set view mt p. map_of h (show_nat j) = Some u) \<and>
    hash_of view (pw q) (index_key p) = Some h' \<and>
    map_of h' = (\<lambda>i. if i = show_nat n then Some (pl_uuid p)
                     else if \<exists>u\<in>live_set view mt p. map_of h i = Some u then map_of h i else None) \<and>
    presence_key q = instance_prefix q PresencePrefix \<and> presence_key q \<in> set (pl_registeredKeys q) \<and>
    view (pw q) (presence_key q) = Some (RStr (pl_uuid p))"
proof -
  obtain w where w: "try_lock hs (pw p) = (True, w)" "view w = view (pw p)"
    using assms(3) assms(4) [of "pw p"] unfolding host_frame_def by (cases "try_lock hs (pw p)") (auto, metis snd_conv)
  let ?p = "with_pw w p"
  have pat: "presence_pattern ?p = presence_pattern p" by (simp add: presence_pattern_def)
  have same: "live_set view mt ?p = live_set view mt p" "presence_strings view mt ?p"
    using assms(9) by (simp_all add: live_set_def presence_strings_def pat w(2))
  obtain us where us: "live_uuids pf ?p = Inr us" "set us = live_set view mt p"
    using live_uuids_result [OF assms(1) same(2)] same(1) by auto
  have h: "hash_of view (pw ?p) (index_key ?p) = Some h"
    using assms(11) by (simp add: hash_of_def w(2))
  have u: "pl_uuid ?p \<notin> set us" using us(2) assms(10) by simp
  obtain n v where n: "calculate_index pf ?p = (Inr (), with_pw v (new_instance ?p n))"
    "\<not> live_index us h (show_nat n)" "\<And>j. j < n \<Longrightarrow> live_index us h (show_nat j)"
    "presence_key (new_instance ?p n) \<noteq> index_key ?p \<Longrightarrow>
      \<exists>h'. hash_of view v (index_key ?p) = Some h' \<and> map_of h' = (alive us h)(show_nat n \<mapsto> pl_uuid ?p)"
    "view v (presence_key (new_instance ?p n)) = Some (RStr (pl_uuid ?p))"
    by (rule calculate_index_effect [OF assms(1) us(1) u h]) (rule that; assumption)
  let ?taken = "with_pw (unlock hs v) (new_instance p n)"
  let ?q = "with_pw (pr_set pf ''id'' (pl_serviceName p @ ''-'' @ show_nat n) (unlock hs v)) (new_instance p n)"
  have "id_round pf hs p = (Inr True, ?taken)"
    by (simp add: id_round_def w(1) op_simps n(1) new_instance_with_pw)
  then have loop: "run_id_loop pf hs p = (Inr (), ?taken)"
    by (simp add: run_id_loop_def) (subst id_loop.simps, simp)
  have store: "store_id pf ?taken = (Inr (), ?q)" by (simp add: store_id_def op_simps)
  have "SetId pf hs p = (Inr (), ?q)"
    by (simp add: SetId_def seqM_def bindM_def modify_apply assms(5-7) gets_apply only_if_def loop store ret_def)
  moreover have v: "view (pw ?q) = view v"
    using assms(2,3) by (simp add: property_store_def host_frame_def)
  moreover obtain h' where "hash_of view (pw ?q) (index_key p) = Some h'"
    "map_of h' = (alive us h)(show_nat n \<mapsto> pl_uuid p)"
    using n(4) presence_not_index [OF assms(8), of n] v
    by (auto simp: new_instance_with_pw hash_of_def)
  moreover have "(alive us h)(show_nat n \<mapsto> pl_uuid p) = (\<lambda>i. if i = show_nat n then Some (pl_uuid p)
      else if \<exists>u\<in>live_set view mt p. map_of h i = Some u then map_of h i else None)"
    by (rule ext) (simp add: alive_def live_index_def us(2))
  moreover have "view (pw ?q) (presence_key ?q) = Some (RStr (pl_uuid p))"
    using n(5) v by (simp add: new_instance_with_pw)
  ultimately show ?thesis
    using n(2,3) us(2) by (intro exI [of _ n] exI [of _ ?q] exI [of _ h']) (simp add: live_index_def)
qed

section \<open>A reference host and a sample instance\<close>

text \<open>A host on which nothing happens but what the plugin asks for.\<close>

definition idle_host :: "'w host" where
  "idle_host =
     \<lparr>uptime_ns = (\<lambda>_. 0), date_now = (\<lambda>_. ''today''), GetCurrentDeviceState = (\<lambda>_. Idle),
      ChangeDeviceState = (\<lambda>_ w. (Inr (), w)), WaitForNext = (\<lambda>_. None), PushState = (\<lambda>_ w. w),
      ClearStates = (\<lambda>w. w), ReleaseDeviceControl = (\<lambda>w. w), try_lock = (\<lambda>w. (True, w)), unlock = (\<lambda>w. w)\<rparr>"

definition sample_plugin :: "'w \<Rightarrow> 'w plugin" where
  "sample_plugin w =
     \<lparr>pl_separator = '':'', pl_uuid = ''uuid-1'', pl_id = [], pl_serviceName = ''Sampler'', pl_registeredKeys = [],
      pl_registeredHashes = [], presence_key = [], health_key = [], hostName = ''host'', ipAddress = ''10.0.0.1'',
      createdTime = ''today'', pl_fairMQStateKey = [], pl_updateTimeKey = [], pl_progOptionKeyName = [], pl_maxTtl = 5, pl_ttlUpdateInterval = 3,
      pl_startupState = ''Device-Ready'', pluginShutdownRequested = False, resetDeviceRequested = False, has_topology = True,
      topology =
        \<lparr>fServiceName = ''Sampler'', fId = ''Sampler-0'', fSeparator = '':'', fTopPrefix = TopPrefix, fMaxTtl = 5,
         fEnableUds = True, fConnectConfig = [], fMaxRetryToResolveAddress = 10, fDefaultChannelProperties = [],
         fCustomChannelProperties = [], fBindChannels = [], fConnectChannels = [], fLinks = [], fRegisteredKeys = [],
         fHostIp = [], world = w\<rparr>\<rparr>"

definition empty_world :: world where
  "empty_world = \<lparr>store = [], props = [], canceled = False, pauses = 0\<rparr>"

lemma sample_simps [simp]:
  "pw (sample_plugin w) = w" "pl_id (sample_plugin w) = []" "pl_serviceName (sample_plugin w) = ''Sampler''"
  "pl_separator (sample_plugin w) = '':''" "pl_uuid (sample_plugin w) = ''uuid-1''"
  "pl_startupState (sample_plugin w) = ''Device-Ready''"
  by (simp_all add: sample_plugin_def pw_def del: pw_simps)

theorem set_id_takes_least_free_index_witness:
  "fst (SetId ref_platform idle_host (sample_plugin empty_world)) = Inr () \<and>
   pl_id (snd (SetId ref_platform idle_host (sample_plugin empty_world))) = ''Sampler-0''"
proof -
  let ?p = "sample_plugin empty_world"
  have none: "ref_view empty_world = (\<lambda>_. None)" by (simp add: ref_view_def empty_world_def)
  have live: "live_set ref_view glob ?p = {}" by (simp add: live_set_def none)
  have "\<exists>n q h'. SetId ref_platform idle_host ?p = (Inr (), q) \<and> pl_id q = pl_serviceName ?p @ ''-'' @ show_nat n \<and>
    \<not> (\<exists>u\<in>live_set ref_view glob ?p. map_of [] (show_nat n) = Some u) \<and>
    (\<forall>j<n. \<exists>u\<in>live_set ref_view glob ?p. map_of [] (show_nat j) = Some u) \<and>
    hash_of ref_view (pw q) (index_key ?p) = Some h' \<and>
    map_of h' = (\<lambda>i. if i = show_nat n then Some (pl_uuid ?p)
                     else if \<exists>u\<in>live_set ref_view glob ?p. map_of [] i = Some u then map_of [] i else None) \<and>
    presence_key q = instance_prefix q PresencePrefix \<and> presence_key q \<in> set (pl_registeredKeys q) \<and>
    ref_view (pw q) (presence_key q) = Some (RStr (pl_uuid ?p))"
  proof (rule set_id_takes_least_free_index [OF ref_redis_server ref_property_store])
    show "host_frame idle_host ref_view" "fst (try_lock idle_host w)" for w :: world
      by (simp_all add: host_frame_def idle_host_def)
    show "pr_get ref_platform (pw ?p) ''id'' = None" by (simp add: ref_sel empty_world_def)
    show "apart ?p" by (simp add: apart_def separator_char_def word_char_def is_digit_def)
    show "presence_strings ref_view glob ?p" by (simp add: presence_strings_def none)
    show "pl_uuid ?p \<notin> live_set ref_view glob ?p" by (simp add: live)
    show "hash_of ref_view (pw ?p) (index_key ?p) = Some []" by (simp add: hash_of_def none)
  qed simp_all
  then obtain n q where q: "SetId ref_platform idle_host ?p = (Inr (), q)" "pl_id q = ''Sampler-'' @ show_nat n"
    "\<forall>j<n. \<exists>u\<in>{}. map_of [] (show_nat j) = Some (u :: string)"
    unfolding live by auto
  then have "n = 0" by (cases n) auto
  moreover have "show_nat 0 = ''0''" by code_simp
  ultimately show ?thesis using q by simp
qed

end
