(* ===== verification/Registration.thy ===== *)
theory Registration
  imports ServicePlugin
begin

text \<open>
  The registration of a device over its whole life: which keys of the registry exist while the
  device registers, announces its states and refreshes its keys, and which ones it leaves behind.
\<close>

section \<open>The invariant\<close>

text \<open>
  \<open>B\<close> is the set of the keys that are not this instance's to remove. Every key that exists is in
  \<open>B\<close> or registered by the plugin or by its topology, and so are the keys that the plugin goes on
  writing.
\<close>

definition written_keys :: "'w plugin \<Rightarrow> string set" where
  "written_keys p = {presence_key p, health_key p, pl_fairMQStateKey p, pl_updateTimeKey p}"

definition own_keys :: "string set \<Rightarrow> 'w plugin \<Rightarrow> string set" where
  "own_keys B p = B \<union> set (pl_registeredKeys p)"

definition plugin_tracked :: "('w \<Rightarrow> keyspace) \<Rightarrow> string set \<Rightarrow> 'w plugin \<Rightarrow> bool" where
  "plugin_tracked view B p \<longleftrightarrow>
     tracked view (own_keys B p) (topology p) \<and> written_keys p \<subseteq> own_keys B p \<and> index_key p \<in> B \<and>
     bound_keys (topology p) \<subseteq> B \<and> has_topology p"

text \<open>What happens in the registry while the plugin waits, or by what the host does.\<close>

definition host_quiet :: "'w host \<Rightarrow> ('w \<Rightarrow> keyspace) \<Rightarrow> string set \<Rightarrow> bool" where
  "host_quiet hs view B \<longleftrightarrow>
     (\<forall>w s. dom (view (PushState hs s w)) \<subseteq> dom (view w) \<union> B \<and>
        dom (view (ReleaseDeviceControl hs w)) \<subseteq> dom (view w) \<union> B \<and>
        dom (view (snd (try_lock hs w))) \<subseteq> dom (view w) \<union> B \<and> dom (view (unlock hs w)) \<subseteq> dom (view w) \<union> B)"

lemma keeps_bindM_state: "(\<And>s. I s \<Longrightarrow> I (snd (f (g s) s))) \<Longrightarrow> keeps I (bindM (gets g) f)"
  by (simp add: keeps_def op_simps)

lemma with_pw_frame [simp]:
  "own_keys B (with_pw w p) = own_keys B p" "written_keys (with_pw w p) = written_keys p"
  "topology (with_pw w p) = (topology p)\<lparr>world := w\<rparr>"
  "bound_keys (t\<lparr>world := w\<rparr>) = bound_keys t" "has_topology (with_pw w p) = has_topology p"
  by (simp_all add: own_keys_def written_keys_def with_pw_def bound_keys_def my_key_def)

lemma tracked_with_pw:
  assumes "plugin_tracked view B p" and "dom (view w) \<subseteq> dom (view (pw p)) \<union> own_keys B p"
  shows "plugin_tracked view B (with_pw w p)"
proof -
  have "dom (view (pw p)) \<subseteq> own_keys B p \<union> set (fRegisteredKeys (topology p))"
    using assms(1) by (simp add: plugin_tracked_def tracked_def present_dom)
  with assms(2) have "dom (view w) \<subseteq> own_keys B p \<union> set (fRegisteredKeys (topology p))" by blast
  with assms(1) show ?thesis by (simp add: plugin_tracked_def tracked_def present_dom)
qed

lemma keeps_on_pw:
  assumes "\<And>w. dom (view (f w)) \<subseteq> dom (view w) \<union> B"
  shows "keeps (plugin_tracked view B) (on_pw f)"
  unfolding keeps_def on_pw_apply
proof (intro allI impI)
  fix p assume "plugin_tracked view B p"
  moreover have "dom (view (f (pw p))) \<subseteq> dom (view (pw p)) \<union> own_keys B p"
    using assms [of "pw p"] unfolding own_keys_def by blast
  ultimately show "plugin_tracked view B (snd (Inr (), with_pw (f (pw p)) p))"
    unfolding snd_conv by (rule tracked_with_pw)
qed

lemma pipe_dom:
  "redis_server pf view mt \<Longrightarrow> dom (view (pipe_exec pf p w)) \<subseteq> dom (view w) \<union> (\<Union>c\<in>set p. writes c)"
  by (simp add: view_pipe_exec pipe_effect_dom)

lemma run_dom: "redis_server pf view mt \<Longrightarrow> dom (view (rd_run pf c w)) \<subseteq> dom (view w) \<union> writes c"
  by (simp add: view_run cmd_effect_dom)

lemma tracked_pipe_exec:
  assumes "redis_server pf view mt" and "plugin_tracked view B p" and "(\<Union>c\<in>set pipe. writes c) \<subseteq> own_keys B p"
  shows "plugin_tracked view B (with_pw (pipe_exec pf pipe (pw p)) p)"
  using tracked_with_pw [OF assms(2)] pipe_dom [OF assms(1), of pipe "pw p"] assms(3) by blast

lemma keeps_insert_key: "keeps (plugin_tracked view B) (insert_key k)"
  unfolding keeps_def insert_key_apply plugin_tracked_def tracked_def own_keys_def written_keys_def
  by (auto simp: index_key_def)

lemma keeps_unlogged:
  assumes "\<And>p. topology (f p) = topology p \<and> pl_registeredKeys (f p) = pl_registeredKeys p \<and>
    written_keys (f p) = written_keys p \<and> index_key (f p) = index_key p \<and> has_topology (f p) = has_topology p"
  shows "keeps (plugin_tracked view B) (modify f)"
  using assms by (intro keeps_modify) (simp add: plugin_tracked_def own_keys_def)

section \<open>Every operation keeps the invariant\<close>

lemma tracked_new_keys:
  assumes "plugin_tracked view B p" and "dom (view w) \<subseteq> dom (view (pw p)) \<union> set ks"
    and "topology q = (topology p)\<lparr>world := w\<rparr>" and "set (pl_registeredKeys q) = set (pl_registeredKeys p) \<union> set ks"
    and "written_keys q \<subseteq> written_keys p \<union> set ks" and "index_key q = index_key p"
    and "has_topology q = has_topology p"
  shows "plugin_tracked view B q"
proof -
  have own: "own_keys B q = own_keys B p \<union> set ks" using assms(4) by (auto simp: own_keys_def)
  have "dom (view (pw p)) \<subseteq> own_keys B p \<union> set (fRegisteredKeys (topology p))"
    using assms(1) by (simp add: plugin_tracked_def tracked_def present_dom)
  with assms(2) have "dom (view w) \<subseteq> own_keys B q \<union> set (fRegisteredKeys (topology p))"
    unfolding own by blast
  moreover have "written_keys q \<subseteq> own_keys B q"
    using assms(1,5) unfolding own plugin_tracked_def by blast
  ultimately show ?thesis
    using assms(1,3,6,7) by (simp add: plugin_tracked_def tracked_def present_dom)
qed

lemma free_index_dom:
  assumes r: "redis_server pf view mt" and "free_index pf k v i w = Some res"
  shows "dom (view (snd res)) \<subseteq> dom (view w) \<union> {k}"
proof -
  have "redis_server pf view mt \<longrightarrow> dom (view (snd res)) \<subseteq> dom (view w) \<union> {k}"
  proof (rule free_index.raw_induct [where P = "\<lambda>pf k v i w res. redis_server pf view mt \<longrightarrow>
      dom (view (snd res)) \<subseteq> dom (view w) \<union> {k}", OF _ assms(2)], goal_cases)
  case (1 loop pf k v i w res)
  show ?case
  proof
    assume s: "redis_server pf view mt"
    have h: "dom (view (snd (hsetnx pf k (show_nat i) v w))) \<subseteq> dom (view w) \<union> {k}"
      using run_dom [OF s, of "HSet k [(show_nat i, v)]" w] by (auto simp: hsetnx_def writes_def)
    obtain b u where bu: "hsetnx pf k (show_nat i) v w = (b, u)" by fastforce
    show "dom (view (snd res)) \<subseteq> dom (view w) \<union> {k}"
    proof (cases b)
      case True
      with 1(2) bu have "res = (i, u)" by simp
      with h bu show ?thesis by simp
    next
      case False
      with 1(2) bu have "loop pf k v (Suc i) u = Some res" by simp
      from 1(1) [OF this] s have "dom (view (snd res)) \<subseteq> dom (view u) \<union> {k}" by blast
      moreover have "dom (view u) \<subseteq> dom (view w) \<union> {k}" using h bu by simp
      ultimately show ?thesis by blast
    qed
  qed
  qed
  with r show ?thesis by blast
qed

lemma keeps_take_index:
  assumes "redis_server pf view mt" and "plugin_tracked view B p"
  shows "plugin_tracked view B (snd (take_index pf (index_key p) p))"
proof (cases "free_index pf (index_key p) (pl_uuid p) 0 (pw p)")
  case None
  then show ?thesis by (simp add: take_index_def bindM_def asks_apply assms(2))
next
  case (Some r)
  obtain n w where r: "r = (n, w)" by fastforce
  have dom: "dom (view w) \<subseteq> dom (view (pw p)) \<union> {index_key p}"
    using free_index_dom [OF assms(1) Some] by (simp add: r)
  define u where "u = with_pw w p"
  have u: "plugin_tracked view B u"
    unfolding u_def using assms(2) dom by (intro tracked_with_pw) (auto simp: plugin_tracked_def own_keys_def)
  define i where "i = pl_serviceName p @ ''-'' @ show_nat n"
  define pk where "pk = instance_prefix (u\<lparr>pl_id := i\<rparr>) PresencePrefix"
  define v where "v = rd_run pf (SetEx pk (pl_maxTtl p) (pl_uuid p)) w"
  define q where "q = snd (take_index pf (index_key p) p)"
  have run: "q = with_pw v (u\<lparr>pl_registeredHashes := (if map_of (pl_registeredHashes u) (index_key p) = None
        then pl_registeredHashes u @ [(index_key p, show_nat n)] else pl_registeredHashes u),
      pl_id := i, presence_key := pk, pl_registeredKeys := List.insert pk (pl_registeredKeys u)\<rparr>)"
    by (simp add: q_def take_index_def bindM_def [of "asks _"] asks_apply Some r op_simps)
      (intro conjI impI; rule plugin.equality; simp add: u_def i_def pk_def v_def with_pw_def instance_prefix_def)
  have q: "topology q = (topology u)\<lparr>world := v\<rparr>" "pl_registeredKeys q = List.insert pk (pl_registeredKeys u)"
    "written_keys q = {pk, health_key u, pl_fairMQStateKey u, pl_updateTimeKey u}" "index_key q = index_key u"
    "has_topology q = has_topology u"
    unfolding run by (simp_all add: with_pw_def written_keys_def index_key_def)
  have "dom (view v) \<subseteq> dom (view (pw u)) \<union> set [pk]"
    using run_dom [OF assms(1), of "SetEx pk (pl_maxTtl p) (pl_uuid p)" w] by (simp add: v_def u_def writes_def)
  then have "plugin_tracked view B q"
    by (rule tracked_new_keys [OF u]) (auto simp: q, auto simp: written_keys_def)
  then show ?thesis by (simp add: q_def)
qed

lemma keeps_calculate_index:
  assumes "redis_server pf view mt"
  shows "keeps (plugin_tracked view B) (calculate_index pf)"
  unfolding calculate_index_def
proof (rule keeps_bindM [OF keeps_asks], rule keeps_bindM_state)
  fix us and p :: "'a plugin" assume p: "plugin_tracked view B p"
  obtain ex m where sp: "split_indices us (pl_uuid p) (rd_hgetall pf (pw p) (index_key p)) = (ex, m)" by fastforce
  let ?q = "snd (only_if (ex \<noteq> []) (on_pw (rd_run pf (HDel (index_key p) ex))) p)"
  have q: "plugin_tracked view B ?q" "index_key ?q = index_key p"
    using p run_dom [OF assms, of "HDel (index_key p) ex"]
    by (auto simp: only_if_def op_simps writes_def intro!: tracked_with_pw)
  have "plugin_tracked view B (snd (only_if (m = []) (take_index pf (index_key p)) ?q))"
    using keeps_take_index [OF assms q(1)] q by (simp add: only_if_def op_simps)
  then show "plugin_tracked view B (snd ((case (index_key p, split_indices us (pl_uuid p) (rd_hgetall pf (pw p) (index_key p))) of
      (k, indexExpired, myIndex) \<Rightarrow> seqM (only_if (indexExpired \<noteq> []) (on_pw (rd_run pf (HDel k indexExpired))))
        (only_if (myIndex = []) (take_index pf k))) p))"
    by (simp add: sp seqM_def bindM_def only_if_def op_simps split: if_splits)
qed

lemma quiet_steps:
  assumes "host_quiet hs view B"
  shows "dom (view (PushState hs s w)) \<subseteq> dom (view w) \<union> B" "dom (view (ReleaseDeviceControl hs w)) \<subseteq> dom (view w) \<union> B"
    "dom (view (snd (try_lock hs w))) \<subseteq> dom (view w) \<union> B" "dom (view (unlock hs w)) \<subseteq> dom (view w) \<union> B"
  using assms by (simp_all add: host_quiet_def)

lemma keeps_id_round:
  assumes "redis_server pf view mt" and "host_quiet hs view B" and "others_write pf view B"
  shows "keeps (plugin_tracked view B) (id_round pf hs)"
  unfolding keeps_def
proof (intro allI impI)
  fix p :: "'a plugin" assume p: "plugin_tracked view B p"
  note on = keepsD [OF keeps_on_pw]
  obtain b w where bw: "try_lock hs (pw p) = (b, w)" by fastforce
  have pause: "plugin_tracked view B (with_pw (pause pf w) p)"
  proof (rule tracked_with_pw [OF p])
    have "dom (view w) \<subseteq> dom (view (pw p)) \<union> B" using quiet_steps(3) [OF assms(2), of "pw p"] bw by simp
    moreover have "dom (view (pause pf w)) \<subseteq> dom (view w) \<union> B" using assms(3) by (simp add: others_write_def)
    ultimately show "dom (view (pause pf w)) \<subseteq> dom (view (pw p)) \<union> own_keys B p" unfolding own_keys_def by blast
  qed
  have locked: "plugin_tracked view B (with_pw w p)"
  proof (rule tracked_with_pw [OF p])
    show "dom (view w) \<subseteq> dom (view (pw p)) \<union> own_keys B p"
      using quiet_steps(3) [OF assms(2), of "pw p"] bw unfolding own_keys_def by auto
  qed
  obtain r q where rq: "calculate_index pf (with_pw w p) = (r, q)" by fastforce
  have "plugin_tracked view B q" using keepsD [OF keeps_calculate_index [OF assms(1)] locked] rq by simp
  then have "plugin_tracked view B (snd (on_pw (unlock hs) q))"
    by (rule on [rotated]) (rule quiet_steps(4) [OF assms(2)])
  with pause show "plugin_tracked view B (snd (id_round pf hs p))"
    by (cases b) (auto simp: id_round_def bw op_simps rq split: sum.split)
qed

lemma keeps_run_id_loop:
  assumes "redis_server pf view mt" and "host_quiet hs view B" and "others_write pf view B"
  shows "keeps (plugin_tracked view B) (run_id_loop pf hs)"
  unfolding keeps_def
proof (intro allI impI)
  fix p :: "'a plugin" assume p: "plugin_tracked view B p"
  note round = keepsD [OF keeps_id_round [OF assms]]
  show "plugin_tracked view B (snd (run_id_loop pf hs p))"
  proof (cases "id_loop pf hs p")
    case None
    with p show ?thesis by (simp add: run_id_loop_def)
  next
    case (Some res)
    have "pf = pf \<longrightarrow> hs = hs \<longrightarrow> plugin_tracked view B p \<longrightarrow> plugin_tracked view B (snd res)"
    proof (rule id_loop.raw_induct [where P = "\<lambda>pf' hs' p res. pf' = pf \<longrightarrow> hs' = hs \<longrightarrow>
        plugin_tracked view B p \<longrightarrow> plugin_tracked view B (snd res)", OF _ Some], goal_cases)
      case (1 loop pf' hs' p res)
      show ?case
      proof (intro impI)
        assume e: "pf' = pf" "hs' = hs" and "plugin_tracked view B p"
        then have q: "plugin_tracked view B (snd (id_round pf hs p))" by (simp add: round)
        obtain r q where rq: "id_round pf hs p = (r, q)" by fastforce
        have more: "loop pf hs q = Some res \<Longrightarrow> plugin_tracked view B (snd res)"
          using 1(1) [of pf hs q res] q rq by simp
        from 1(2) q more show "plugin_tracked view B (snd res)"
          unfolding e rq by (auto split: sum.splits if_splits)
      qed
    qed
    with p Some show ?thesis by (simp add: run_id_loop_def)
  qed
qed

lemma keeps_store_id:
  "property_store pf view \<Longrightarrow> keeps (plugin_tracked view B) (store_id pf)"
  unfolding store_id_def by (intro keeps_bindM keeps_gets keeps_on_pw) (simp add: property_store_def)

lemma keeps_SetId:
  assumes "redis_server pf view mt" and "property_store pf view" and "host_quiet hs view B" and "others_write pf view B"
  shows "keeps (plugin_tracked view B) (SetId pf hs)"
  unfolding SetId_def
  by (intro keeps_seqM keeps_bindM keeps_gets keeps_only_if keeps_run_id_loop [OF assms(1,3,4)] keeps_store_id assms(2)
      keeps_unlogged) (auto simp: written_keys_def index_key_def split: option.split)

lemma pw_key_names [simp]:
  "pw (p\<lparr>pl_progOptionKeyName := k\<rparr>) = pw p" "pw (p\<lparr>pl_fairMQStateKey := k\<rparr>) = pw p"
  "pw (p\<lparr>pl_updateTimeKey := k\<rparr>) = pw p"
  by (simp_all add: pw_def del: pw_simps)

lemma seqM_insert_key [op_simps]:
  "seqM (insert_key k) m p = m (p\<lparr>pl_registeredKeys := List.insert k (pl_registeredKeys p)\<rparr>)"
  by (simp add: seqM_def bindM_def insert_key_apply)

text \<open>\<open>Register\<close> after the id is known: the names of the keys, what is written and what is registered.\<close>

definition name_keys :: "'w plugin \<Rightarrow> 'w plugin" where
  "name_keys p = p\<lparr>
     pl_progOptionKeyName := instance_prefix p ProgOptionPrefix,
     health_key := instance_prefix p HealthPrefix,
     pl_fairMQStateKey := instance_prefix p FairMQStatePrefix,
     pl_updateTimeKey := instance_prefix p UpdateTimePrefix\<rparr>"

lemma tracked_registered:
  assumes "plugin_tracked view B p" and "dom (view w) \<subseteq> dom (view (pw p)) \<union> {health_key (name_keys p)}"
    and "ks = [health_key (name_keys p), pl_updateTimeKey (name_keys p), pl_fairMQStateKey (name_keys p)]"
  shows "plugin_tracked view B (with_pw w (name_keys p\<lparr>pl_registeredKeys := fold List.insert (rev ks) (pl_registeredKeys p)\<rparr>))"
proof (rule tracked_new_keys [OF assms(1), where ks = ks])
  show "dom (view w) \<subseteq> dom (view (pw p)) \<union> set ks" using assms(2,3) by auto
qed (auto simp: assms(3) name_keys_def written_keys_def index_key_def with_pw_def)

lemma keeps_Register:
  assumes "redis_server pf view mt" and "property_store pf view" and "host_quiet hs view B" and "others_write pf view B"
  shows "keeps (plugin_tracked view B) (Register pf hs)"
proof -
  let ?I = "plugin_tracked view B"
  define rest where "rest = (seqM (WriteProgOptions pf) (bindM (gets pl_progOptionKeyName) insert_key) :: ('a plugin, unit) opn)"
  have rest: "keeps ?I rest"
    unfolding rest_def WriteProgOptions_def by (intro keeps_intros keeps_insert_key)
  define body where "body = (\<lambda>p. rest (with_pw (rd_run pf (Expire (health_key (name_keys p)) (pl_maxTtl p))
      (rd_run pf (HSet (health_key (name_keys p))
           [(''instanceID'', pl_id p), (''uuid'', pl_uuid p), (''hostName'', hostName p), (''hostIp'', ipAddress p),
            (''serviceName'', pl_serviceName p), (''createdTime'', createdTime p),
            (''updatedTime'', date_now hs (pw p)), (''uptime'', uptime_ms hs (pw p))]) (pw p)))
      (name_keys p\<lparr>pl_registeredKeys := fold List.insert [pl_fairMQStateKey (name_keys p), pl_updateTimeKey (name_keys p),
         health_key (name_keys p)] (pl_registeredKeys p)\<rparr>)))"
  have "Register pf hs = try_log (seqM (SetId pf hs) body)"
    unfolding Register_def rest_def [symmetric]
    by (rule arg_cong [where f = "\<lambda>m. try_log (seqM (SetId pf hs) m)"], rule ext)
      (simp add: op_simps body_def pipe_exec_def, rule arg_cong [where f = rest], (rule plugin.equality;
        simp add: name_keys_def with_pw_def instance_prefix_def))
  moreover have "keeps ?I body"
    unfolding keeps_def body_def
  proof (intro allI impI keepsD [OF rest])
    fix p :: "'a plugin" assume p: "?I p"
    have dom: "dom (view (rd_run pf (Expire l t) (rd_run pf (HSet k fs) w))) \<subseteq> dom (view w) \<union> {k}" for k fs l t w
      using pipe_dom [OF assms(1), of "[HSet k fs, Expire l t]" w] by (simp add: pipe_exec_def writes_def)
    show "?I (with_pw (rd_run pf (Expire (health_key (name_keys p)) (pl_maxTtl p))
      (rd_run pf (HSet (health_key (name_keys p))
           [(''instanceID'', pl_id p), (''uuid'', pl_uuid p), (''hostName'', hostName p), (''hostIp'', ipAddress p),
            (''serviceName'', pl_serviceName p), (''createdTime'', createdTime p),
            (''updatedTime'', date_now hs (pw p)), (''uptime'', uptime_ms hs (pw p))]) (pw p)))
      (name_keys p\<lparr>pl_registeredKeys := fold List.insert [pl_fairMQStateKey (name_keys p), pl_updateTimeKey (name_keys p),
         health_key (name_keys p)] (pl_registeredKeys p)\<rparr>))"
      using tracked_registered [OF p dom refl] by simp
  qed
  ultimately show ?thesis
    using keeps_SetId [OF assms] by (simp add: keeps_try_log keeps_seqM)
qed

lemma keeps_pipe:
  assumes "redis_server pf view mt"
    and "\<And>p. plugin_tracked view B p \<Longrightarrow> (\<Union>c\<in>set (pipe p). writes c) \<subseteq> own_keys B p"
  shows "keeps (plugin_tracked view B) (bindM (gets pipe) (\<lambda>c. on_pw (pipe_exec pf c)))"
  by (rule keeps_bindM_state) (simp add: on_pw_apply tracked_pipe_exec [OF assms(1)] assms(2))

lemma owned:
  "plugin_tracked view B p \<Longrightarrow> presence_key p \<in> own_keys B p \<and> health_key p \<in> own_keys B p \<and>
     pl_fairMQStateKey p \<in> own_keys B p \<and> pl_updateTimeKey p \<in> own_keys B p"
  by (simp add: plugin_tracked_def written_keys_def)

lemma keeps_ResetTtl:
  assumes "redis_server pf view mt"
  shows "keeps (plugin_tracked view B) (ResetTtl pf hs)"
  unfolding ResetTtl_def
  by (rule keeps_pipe [OF assms]) (auto dest: owned simp: ttl_pipe_def topo_ResetTtl_def writes_def Let_def split: if_splits)

lemma keeps_write_time:
  assumes "redis_server pf view mt" and "property_store pf view"
  shows "keeps (plugin_tracked view B) (write_time pf hs k kNS)"
  unfolding write_time_def
proof (rule keeps_bindM_state, simp only: prod.case)
  fix p :: "'a plugin" assume p: "plugin_tracked view B p"
  let ?c = "HSet (health_key p) [(k, date_now hs (pw p)), (kNS, show_nat (uptime_ns hs (pw p)))]"
  have "plugin_tracked view B (with_pw (rd_run pf ?c (pw p)) p)"
    using tracked_pipe_exec [OF assms(1) p, of "[?c]"] owned [OF p] by (simp add: pipe_exec_def writes_def)
  moreover have "keeps (plugin_tracked view B) (seqM (on_pw (pr_set pf k a)) (on_pw (pr_set pf kNS b)))" for a b
    by (intro keeps_seqM keeps_on_pw) (use assms(2) in \<open>simp_all add: property_store_def\<close>)
  ultimately show "plugin_tracked view B (snd (seqM (on_pw (rd_run pf ?c)) (seqM (on_pw (pr_set pf k (date_now hs (pw p))))
      (on_pw (pr_set pf kNS (show_nat (uptime_ns hs (pw p)))))) p))"
    by (simp add: seqM_on_pw [of "rd_run pf ?c"] keepsD del: seqM_on_pw)
qed

lemma keeps_ReadRunNumber:
  assumes "property_store pf view"
  shows "keeps (plugin_tracked view B) (ReadRunNumber pf)"
  unfolding ReadRunNumber_def
  by (intro keeps_bindM keeps_gets keeps_option keeps_ret keeps_only_if keeps_on_pw)
    (use assms in \<open>simp add: property_store_def\<close>)

lemma keeps_on_topology:
  assumes "\<And>C t. B \<subseteq> C \<Longrightarrow> bound_keys (t :: 'w topo) \<subseteq> C \<Longrightarrow> tracked view C t \<Longrightarrow>
    tracked view C (snd (m t)) \<and> bound_keys (snd (m t)) = bound_keys t"
  shows "keeps (plugin_tracked view B) (on_topology m)"
  unfolding keeps_def
proof (intro allI impI)
  fix p :: "'w plugin" assume p: "plugin_tracked view B p"
  obtain r t where rt: "m (topology p) = (r, t)" by fastforce
  have "tracked view (own_keys B p) t \<and> bound_keys t = bound_keys (topology p)"
    using assms [of "own_keys B p" "topology p"] p rt by (auto simp: plugin_tracked_def own_keys_def)
  with p show "plugin_tracked view B (snd (on_topology m p))"
    by (simp add: on_topology_def rt plugin_tracked_def own_keys_def written_keys_def index_key_def)
qed

lemma keeps_handler:
  assumes "redis_server pf view mt" and "property_store pf view" and "others_write pf view B"
  shows "keeps (plugin_tracked view B) (on_topology (OnDeviceStateChange pf s))"
proof (rule keeps_on_topology)
  fix C and t :: "'a topo" assume "B \<subseteq> C" and b: "bound_keys t \<subseteq> C" and "tracked view C t"
  then have others: "others_write pf view C" using assms(3) by (force simp: others_write_def)
  have "bound_keys u \<subseteq> C" if "identity u = identity t" for u :: "'a topo" using b bound_keys_identity [OF that] by simp
  then have "keeps (device_inv view C (identity t)) (OnDeviceStateChange pf s)"
    by (rule device_inv_handler [OF assms(1,2) others])
  moreover have "device_inv view C (identity t) t"
    using \<open>tracked view C t\<close> by (simp add: device_inv_def same_identity_def)
  ultimately have "device_inv view C (identity t) (snd (OnDeviceStateChange pf s t))" by (rule keepsD)
  then show "tracked view C (snd (OnDeviceStateChange pf s t)) \<and>
      bound_keys (snd (OnDeviceStateChange pf s t)) = bound_keys t"
    using bound_keys_identity by (auto simp: device_inv_def same_identity_def)
qed

lemma keeps_set_uds: "keeps (plugin_tracked view B) (set_uds pf)"
  unfolding set_uds_def
  by (intro keeps_bindM keeps_asks keeps_modify)
    (simp add: plugin_tracked_def own_keys_def written_keys_def index_key_def tracked_def present_def bound_keys_def my_key_def)

lemma keeps_callback:
  assumes "redis_server pf view mt" and "property_store pf view" and "host_quiet hs view B" and "others_write pf view B"
  shows "keeps (plugin_tracked view B) (device_state_callback pf hs s)"
proof -
  let ?I = "plugin_tracked view B"
  have "keeps ?I (on_pw (PushState hs s))" by (rule keeps_on_pw) (rule quiet_steps(1) [OF assms(3)])
  moreover have "keeps ?I (bindM (gets (\<lambda>p. [SetEx (pl_fairMQStateKey p) (pl_maxTtl p) (GetStateName pf s),
              HSet (health_key p) [(''fair:mq:state'', GetStateName pf s)],
              Expire (health_key p) (pl_maxTtl p)])) (\<lambda>pipe. on_pw (pipe_exec pf pipe)))"
    by (rule keeps_pipe [OF assms(1)]) (auto dest: owned simp: writes_def)
  moreover have "keeps ?I (WriteProgOptions pf)" unfolding WriteProgOptions_def by (intro keeps_intros)
  moreover have flags: "keeps ?I (modify (\<lambda>p. p\<lparr>resetDeviceRequested := b\<rparr>))"
    "keeps ?I (modify (\<lambda>p. p\<lparr>pluginShutdownRequested := b\<rparr>))" for b
    by (rule keeps_unlogged, simp add: written_keys_def index_key_def)+
  moreover note keeps_ReadRunNumber [OF assms(2), of B] keeps_set_uds [of view B pf]
  ultimately show ?thesis
    unfolding device_state_callback_def using keeps_handler [OF assms(1,2,4)]
    by (intro keeps_try_log keeps_seqM) (assumption | simp add: keeps_ret split: DeviceState.split)+
qed

lemma Reset_no_fault: "fst (Reset pf t) = Inr ()"
  by (simp add: Reset_def topo_Unregister_def only_if_def on_world_def seqM_def bindM_def gets_apply modify_apply ret_apply)

section \<open>A life of the plugin\<close>

datatype plugin_event =
    Ev_Register | Ev_Ttl | Ev_State DeviceState | Ev_RunNumber | Ev_StartTime | Ev_StopTime

fun plugin_step :: "'w platform \<Rightarrow> 'w host \<Rightarrow> plugin_event \<Rightarrow> ('w plugin, unit) opn" where
  "plugin_step pf hs Ev_Register = Register pf hs"
| "plugin_step pf hs Ev_Ttl = ResetTtl pf hs"
| "plugin_step pf hs (Ev_State s) = device_state_callback pf hs s"
| "plugin_step pf hs Ev_RunNumber = ReadRunNumber pf"
| "plugin_step pf hs Ev_StartTime = WriteStartTime pf hs"
| "plugin_step pf hs Ev_StopTime = WriteStopTime pf hs"

definition plugin_run :: "'w platform \<Rightarrow> 'w host \<Rightarrow> plugin_event list \<Rightarrow> 'w plugin \<Rightarrow> 'w plugin" where
  "plugin_run pf hs es p = fold (\<lambda>e p. snd (plugin_step pf hs e p)) es p"

lemma tracked_plugin_run:
  assumes "redis_server pf view mt" and "property_store pf view" and "host_quiet hs view B" and "others_write pf view B"
  shows "plugin_tracked view B p \<Longrightarrow> plugin_tracked view B (plugin_run pf hs es p)"
proof (induction es arbitrary: p)
  case (Cons e es)
  have "keeps (plugin_tracked view B) (plugin_step pf hs e)"
    using assms by (cases e) (simp_all add: keeps_Register keeps_ResetTtl keeps_callback keeps_ReadRunNumber
        WriteStartTime_def WriteStopTime_def keeps_write_time)
  then have "plugin_tracked view B (snd (plugin_step pf hs e p))" using Cons.prems by (rule keepsD)
  from Cons.IH [OF this] show ?case by (simp add: plugin_run_def)
qed (simp add: plugin_run_def)

lemma hdel_each_dom:
  assumes "redis_server pf view mt"
  shows "\<exists>w. for_each hs (\<lambda>(k, f). on_pw (rd_run pf (HDel k [f]))) p = (Inr (), with_pw w p) \<and>
    dom (view w) \<subseteq> dom (view (pw p))"
proof (induction hs arbitrary: p)
  case Nil
  have "with_pw (pw p) p = p" by (rule plugin.equality; simp add: with_pw_def pw_def del: pw_simps)
  then show ?case by (intro exI [of _ "pw p"]) (simp add: op_simps)
next
  case (Cons x hs)
  obtain k f where x: "x = (k, f)" by fastforce
  have "dom (view (rd_run pf (HDel k [f]) (pw p))) \<subseteq> dom (view (pw p))"
    using run_dom [OF assms, of "HDel k [f]"] by (simp add: writes_def)
  moreover obtain w where "for_each hs (\<lambda>(k, f). on_pw (rd_run pf (HDel k [f]))) (with_pw (rd_run pf (HDel k [f]) (pw p)) p) =
      (Inr (), with_pw w p)" "dom (view w) \<subseteq> dom (view (rd_run pf (HDel k [f]) (pw p)))"
    using Cons.IH [of "with_pw (rd_run pf (HDel k [f]) (pw p)) p"] by (simp only: with_pw_simps) blast
  ultimately show ?case
    by (intro exI [of _ w] conjI) (simp add: x seqM_on_pw, blast)
qed

lemma Unregister_outcome:
  assumes "redis_server pf view mt"
  shows "dom (view (pw (snd (Unregister pf p)))) \<subseteq> dom (view (pw p)) - set (pl_registeredKeys p) \<and>
    pl_registeredKeys (snd (Unregister pf p)) = [] \<and> pl_registeredHashes (snd (Unregister pf p)) = []"
proof -
  let ?ks = "pl_registeredKeys p"
  define q where "q = (if ?ks = [] then p else with_pw (rd_run pf (Del ?ks) (pw p)) p\<lparr>pl_registeredKeys := []\<rparr>)"
  have q: "dom (view (pw q)) \<subseteq> dom (view (pw p)) - set ?ks" "pl_registeredKeys q = []"
    by (auto simp: q_def view_run [OF assms] split: if_splits)
  obtain w where w: "for_each (pl_registeredHashes q) (\<lambda>(k, f). on_pw (rd_run pf (HDel k [f]))) q = (Inr (), with_pw w q)"
    "dom (view w) \<subseteq> dom (view (pw q))"
    using hdel_each_dom [OF assms] by blast
  have "Unregister pf p = seqM (bindM (gets pl_registeredHashes) (\<lambda>hashes.
             for_each hashes (\<lambda>(k, f). on_pw (rd_run pf (HDel k [f])))))
          (modify (\<lambda>p. p\<lparr>pl_registeredHashes := []\<rparr>)) q"
    by (simp add: Unregister_def seqM_def bindM_def gets_apply only_if_def on_pw_apply modify_apply ret_apply q_def)
  also have "\<dots> = (Inr (), with_pw w q\<lparr>pl_registeredHashes := []\<rparr>)"
    by (simp add: seqM_def bindM_def gets_apply modify_apply w(1))
  finally show ?thesis using w(2) q by auto
qed



text \<open>
  A device whose id is given on the command line never gets a presence key: \<open>SetId\<close> takes the id
  and leaves the presence key empty, so that \<open>ResetTtl\<close> writes the uuid under the empty key, which
  nobody registers or removes.
\<close>

theorem explicit_id_writes_empty_key:
  assumes "redis_server pf view mt" and "pr_get pf (pw p) ''id'' = Some i" and "i \<noteq> []"
    and "presence_key p = []" and "health_key p \<noteq> []" and "pl_fairMQStateKey p \<noteq> []" and "pl_updateTimeKey p \<noteq> []"
  shows "SetId pf hs p = (Inr (), p\<lparr>pl_id := i\<rparr>) \<and>
    view (pw (snd (ResetTtl pf hs (p\<lparr>pl_id := i\<rparr>)))) [] = Some (RStr (pl_uuid p))"
proof
  show "SetId pf hs p = (Inr (), p\<lparr>pl_id := i\<rparr>)"
    using assms(2,3) by (simp add: SetId_def op_simps seqM_def bindM_def only_if_def)
  define q where "q = p\<lparr>pl_id := i\<rparr>"
  have q: "presence_key q = []" "health_key q \<noteq> []" "pl_fairMQStateKey q \<noteq> []" "pl_updateTimeKey q \<noteq> []" "pl_uuid q = pl_uuid p"
    using assms(4-7) by (simp_all add: q_def)
  have expire: "fold cmd_effect (map (\<lambda>key. Expire key n) ks) m = m" for n ks m
    by (induction ks arbitrary: m) simp_all
  have frame: "cmd_effect (HSet (health_key q) fs) m [] = m []" for fs m
    using q(2) by (intro cmd_effect_frame) simp
  show "view (pw (snd (ResetTtl pf hs q))) [] = Some (RStr (pl_uuid p))"
    using q by (simp add: ResetTtl_def op_simps view_pipe_exec [OF assms(1)] ttl_pipe_def topo_ResetTtl_def Let_def expire)
qed

theorem explicit_id_writes_empty_key_witness:
  "ref_view (pw (snd (ResetTtl ref_platform idle_host (sample_plugin (empty_world\<lparr>props := [(''id'', ''S7'')]\<rparr>)
     \<lparr>health_key := ''h'', pl_fairMQStateKey := ''s'', pl_updateTimeKey := ''u'', pl_id := ''S7''\<rparr>)))) [] = Some (RStr ''uuid-1'')"
proof -
  let ?w = "empty_world\<lparr>props := [(''id'', ''S7'')]\<rparr>"
  let ?p = "sample_plugin ?w\<lparr>health_key := ''h'', pl_fairMQStateKey := ''s'', pl_updateTimeKey := ''u''\<rparr>"
  have "pw ?p = ?w" by simp
  then have "pr_get ref_platform (pw ?p) ''id'' = Some ''S7''" by (simp add: ref_sel)
  then have "ref_view (pw (snd (ResetTtl ref_platform idle_host (?p\<lparr>pl_id := ''S7''\<rparr>)))) [] = Some (RStr (pl_uuid ?p))"
    by (intro explicit_id_writes_empty_key [OF ref_redis_server, THEN conjunct2]) (simp_all add: sample_plugin_def)
  then show ?thesis by simp
qed

end
