(* ===== verification/HttpServer.thy ===== *)
theory HttpServer
  imports Prelude
begin

text \<open>
  The HTTP side of the web controller: the answer to a request
  (\<^verbatim>\<open>controller/beast_tools.h\<close>, \<^verbatim>\<open>controller/beast_tools.cxx\<close>) and the session that reads requests
  and writes the answers through a bounded queue (\<^verbatim>\<open>controller/http_session.h\<close>,
  \<^verbatim>\<open>controller/http_session.cxx\<close>). Parsing and the network are Boost.Beast's; the file system is an
  argument of the definitions.
\<close>

section \<open>Paths and types\<close>

text \<open>\<^verbatim>\<open>path.substr(path.rfind("."))\<close>, empty if there is no dot.\<close>

definition extension :: "string \<Rightarrow> string" where
  "extension path =
     (if CHR ''.'' \<in> set path then CHR ''.'' # rev (takeWhile (\<lambda>c. c \<noteq> CHR ''.'') (rev path)) else [])"

definition iequals :: "string \<Rightarrow> string \<Rightarrow> bool" where
  "iequals s t \<longleftrightarrow> to_lower s = to_lower t"

definition mime_type :: "string \<Rightarrow> string" where
  "mime_type path =
     (let ext = extension path in
      if iequals ext ''.htm'' then ''text/html''
      else if iequals ext ''.html'' then ''text/html''
      else if iequals ext ''.php'' then ''text/html''
      else if iequals ext ''.css'' then ''text/css''
      else if iequals ext ''.txt'' then ''text/plain''
      else if iequals ext ''.js'' then ''application/javascript''
      else if iequals ext ''.json'' then ''application/json''
      else if iequals ext ''.xml'' then ''application/xml''
      else if iequals ext ''.swf'' then ''application/x-shockwave-flash''
      else if iequals ext ''.flv'' then ''video/x-flv''
      else if iequals ext ''.png'' then ''image/png''
      else if iequals ext ''.jpe'' then ''image/jpeg''
      else if iequals ext ''.jpeg'' then ''image/jpeg''
      else if iequals ext ''.jpg'' then ''image/jpeg''
      else if iequals ext ''.gif'' then ''image/gif''
      else if iequals ext ''.bmp'' then ''image/bmp''
      else if iequals ext ''.ico'' then ''image/vnd.microsoft.icon''
      else if iequals ext ''.tiff'' then ''image/tiff''
      else if iequals ext ''.tif'' then ''image/tiff''
      else if iequals ext ''.svg'' then ''image/svg+xml''
      else if iequals ext ''.svgz'' then ''image/svg+xml''
      else ''application/text'')"

definition path_cat :: "string \<Rightarrow> string \<Rightarrow> string" where
  "path_cat base path =
     (if base = [] then path
      else (if last base = CHR ''/'' then butlast base else base) @ path)"

section \<open>Answering a request\<close>

datatype verb = GET | HEAD | OtherVerb

datatype status = OK | BadRequest | NotFound | ServerError

record request =
  rq_method :: verb
  rq_target :: string
  rq_version :: nat
  rq_keep_alive :: bool
  rq_upgrade :: bool

text \<open>The body of a response: none, a text, or the file at a path.\<close>

datatype body = NoBody | Text string | File string

record response =
  rs_status :: status
  rs_version :: nat
  rs_content_type :: string
  rs_keep_alive :: bool
  rs_body :: body
  rs_length :: nat

text \<open>What opening a file may do: the size of the file, that there is none, or another error.\<close>

datatype open_result = Opened nat | NoSuchFile | OpenError string

definition text_response :: "request \<Rightarrow> status \<Rightarrow> string \<Rightarrow> response" where
  "text_response req st msg =
     \<lparr>rs_status = st, rs_version = rq_version req, rs_content_type = ''text/html'', rs_keep_alive = rq_keep_alive req,
      rs_body = Text msg, rs_length = length msg\<rparr>"

definition bad_request :: "request \<Rightarrow> string \<Rightarrow> response" where
  "bad_request req why = text_response req BadRequest why"

definition not_found :: "request \<Rightarrow> string \<Rightarrow> response" where
  "not_found req target = text_response req NotFound (''The resource '' @ [CHR 0x27] @ target @ [CHR 0x27] @ '' was not found.'')"

definition server_error :: "request \<Rightarrow> string \<Rightarrow> response" where
  "server_error req what = text_response req ServerError (''An error occurred: '' @ [CHR 0x27] @ what @ [CHR 0x27])"

definition legal_target :: "string \<Rightarrow> bool" where
  "legal_target target \<longleftrightarrow> target \<noteq> [] \<and> hd target = CHR ''/'' \<and> find_str target ''..'' = npos"

definition file_path :: "string \<Rightarrow> string \<Rightarrow> string" where
  "file_path doc_root target =
     path_cat doc_root target @ (if last target = CHR ''/'' then ''index.html'' else [])"

definition handle_request :: "(string \<Rightarrow> open_result) \<Rightarrow> string \<Rightarrow> request \<Rightarrow> response" where
  "handle_request fs doc_root req =
     (if rq_method req \<noteq> GET \<and> rq_method req \<noteq> HEAD then bad_request req ''Unknown HTTP-method''
      else if \<not> legal_target (rq_target req) then bad_request req ''Illegal request-target''
      else let path = file_path doc_root (rq_target req) in
        case fs path of
          NoSuchFile \<Rightarrow> not_found req (rq_target req)
        | OpenError e \<Rightarrow> server_error req e
        | Opened n \<Rightarrow>
            \<lparr>rs_status = OK, rs_version = rq_version req, rs_content_type = mime_type path,
             rs_keep_alive = rq_keep_alive req,
             rs_body = (if rq_method req = HEAD then NoBody else File path), rs_length = n\<rparr>)"

section \<open>The session\<close>

text \<open>
  The queue holds the responses that are not written yet; the front one is being written.
  \<open>s_reading\<close> and \<open>s_writing\<close> tell whether an asynchronous read or write is outstanding,
  \<open>s_shutdown\<close> whether the sending side was shut down, \<open>s_failed\<close> whether an error was logged and
  \<open>s_upgraded\<close> whether the socket was handed to a web socket, which ends the session.
  \<open>s_requests\<close> and \<open>s_written\<close> record what went in and out.
\<close>

record session =
  s_items :: "response list"
  s_reading :: bool
  s_writing :: bool
  s_shutdown :: bool
  s_failed :: bool
  s_upgraded :: bool
  s_requests :: "request list"
  s_written :: "response list"

definition queue_limit :: nat where "queue_limit = 8"

definition is_full :: "session \<Rightarrow> bool" where
  "is_full s \<longleftrightarrow> queue_limit \<le> length (s_items s)"

definition start_write :: "session \<Rightarrow> session" where
  "start_write s = s\<lparr>s_writing := True\<rparr>"

definition do_read :: "session \<Rightarrow> session" where
  "do_read s = s\<lparr>s_reading := True\<rparr>"

definition do_close :: "session \<Rightarrow> session" where
  "do_close s = s\<lparr>s_shutdown := True\<rparr>"

definition fail :: "session \<Rightarrow> session" where
  "fail s = s\<lparr>s_failed := True\<rparr>"

text \<open>\<^verbatim>\<open>queue::operator()\<close> stores a response and starts to write it if it is alone.\<close>

definition queue_push :: "response \<Rightarrow> session \<Rightarrow> session" where
  "queue_push r s =
     (let s' = s\<lparr>s_items := s_items s @ [r]\<rparr>
      in if length (s_items s') = 1 then start_write s' else s')"

text \<open>\<^verbatim>\<open>queue::on_write\<close> removes the front response, starts the next one and tells whether to read.\<close>

definition queue_on_write :: "session \<Rightarrow> bool \<times> session" where
  "queue_on_write s =
     (let was_full = is_full s;
          s' = s\<lparr>s_items := tl (s_items s)\<rparr>
      in (was_full, if s_items s' \<noteq> [] then start_write s' else s'))"

definition new_session :: session where
  "new_session = do_read
     \<lparr>s_items = [], s_reading = False, s_writing = False, s_shutdown = False, s_failed = False, s_upgraded = False,
      s_requests = [], s_written = []\<rparr>"

text \<open>How a read ends: with a request, with the end of the stream, or with an error.\<close>

datatype read_end = Got request | EndOfStream | ReadError

definition on_read :: "(string \<Rightarrow> open_result) \<Rightarrow> string \<Rightarrow> read_end \<Rightarrow> session \<Rightarrow> session" where
  "on_read fs doc_root e s =
     (let s = s\<lparr>s_reading := False\<rparr> in
      case e of
        EndOfStream \<Rightarrow> do_close s
      | ReadError \<Rightarrow> fail s
      | Got req \<Rightarrow>
          if rq_upgrade req then s\<lparr>s_upgraded := True\<rparr>
          else let s = queue_push (handle_request fs doc_root req) (s\<lparr>s_requests := s_requests s @ [req]\<rparr>)
               in if \<not> is_full s then do_read s else s)"

definition need_eof :: "response \<Rightarrow> bool" where
  "need_eof r \<longleftrightarrow> \<not> rs_keep_alive r"

text \<open>The write of the front response has ended, well or with an error.\<close>

definition on_write :: "bool \<Rightarrow> session \<Rightarrow> session" where
  "on_write ok s =
     (let r = hd (s_items s); s = s\<lparr>s_writing := False\<rparr> in
      if \<not> ok then fail s
      else if need_eof r then do_close (s\<lparr>s_written := s_written s @ [r]\<rparr>)
      else case queue_on_write (s\<lparr>s_written := s_written s @ [r]\<rparr>) of
          (again, s) \<Rightarrow> if again then do_read s else s)"

text \<open>The completions that may happen in a state, in whatever order.\<close>

datatype completion = ReadEnds read_end | WriteEnds bool

inductive session_step :: "(string \<Rightarrow> open_result) \<Rightarrow> string \<Rightarrow> session \<Rightarrow> completion \<Rightarrow> session \<Rightarrow> bool"
  for fs :: "string \<Rightarrow> open_result" and doc_root :: string where
  read_ends: "\<not> s_upgraded s \<Longrightarrow> s_reading s \<Longrightarrow> session_step fs doc_root s (ReadEnds e) (on_read fs doc_root e s)"
| write_ends: "\<not> s_upgraded s \<Longrightarrow> s_writing s \<Longrightarrow> session_step fs doc_root s (WriteEnds ok) (on_write ok s)"

inductive reachable :: "(string \<Rightarrow> open_result) \<Rightarrow> string \<Rightarrow> session \<Rightarrow> bool"
  for fs :: "string \<Rightarrow> open_result" and doc_root :: string where
  start: "reachable fs doc_root new_session"
| step: "reachable fs doc_root s \<Longrightarrow> session_step fs doc_root s c t \<Longrightarrow> reachable fs doc_root t"

inductive_cases session_stepE: "session_step fs doc_root s c t"
inductive_simps session_step_read: "session_step fs doc_root s (ReadEnds e) t"
inductive_simps session_step_write: "session_step fs doc_root s (WriteEnds ok) t"

lemmas session_defs = on_read_def on_write_def queue_push_def queue_on_write_def start_write_def do_read_def do_close_def fail_def
  is_full_def queue_limit_def Let_def

section \<open>The session invariant\<close>

definition healthy :: "session \<Rightarrow> bool" where
  "healthy s \<longleftrightarrow> \<not> s_shutdown s \<and> \<not> s_failed s \<and> \<not> s_upgraded s"

text \<open>\<open>answers\<close> are the answers to the requests so far.\<close>

definition session_inv :: "(string \<Rightarrow> open_result) \<Rightarrow> string \<Rightarrow> session \<Rightarrow> bool" where
  "session_inv fs doc_root s \<longleftrightarrow>
     (let answers = map (handle_request fs doc_root) (s_requests s) in
      length (s_items s) \<le> queue_limit \<and> (s_reading s \<longrightarrow> length (s_items s) < queue_limit) \<and>
      (s_writing s \<longrightarrow> s_items s \<noteq> [] \<and> s_written s @ s_items s = answers) \<and>
      (\<not> s_writing s \<longrightarrow> s_items s = [] \<and> s_written s = answers \<or>
         s_items s \<noteq> [] \<and> \<not> healthy s \<and> (s_written s @ s_items s = answers \<or> s_written s @ tl (s_items s) = answers)) \<and>
      (healthy s \<longrightarrow> (s_reading s \<longleftrightarrow> length (s_items s) < queue_limit)))"

lemma inv_start: "session_inv fs doc_root new_session"
  by (simp add: session_inv_def new_session_def do_read_def queue_limit_def)

lemma inv_read:
  assumes "session_inv fs doc_root s" and "s_reading s" and "\<not> s_upgraded s"
  shows "session_inv fs doc_root (on_read fs doc_root e s)"
proof (cases e)
  case (Got req)
  show ?thesis
    using assms by (cases "s_items s") (auto simp: Got session_inv_def session_defs healthy_def)
qed (use assms in \<open>auto simp: session_inv_def session_defs healthy_def\<close>)

lemma inv_write:
  assumes "session_inv fs doc_root s" and "s_writing s" and "\<not> s_upgraded s"
  shows "session_inv fs doc_root (on_write ok s)"
proof -
  obtain r rs where items: "s_items s = r # rs" using assms(1,2) by (cases "s_items s") (auto simp: session_inv_def Let_def)
  show ?thesis
    using assms by (auto simp: items session_inv_def session_defs healthy_def)
qed

lemma inv_reachable: "reachable fs doc_root s \<Longrightarrow> session_inv fs doc_root s"
proof (induction rule: reachable.induct)
  case start
  show ?case by (rule inv_start)
next
  case (step s c t)
  from step(2) step.IH show ?case by (cases rule: session_step.cases) (auto intro: inv_read inv_write)
qed

text \<open>
  C16. Pipelining is bounded and in order: in every reachable state of a session at most eight
  responses wait, a read is outstanding only while there is room, and what has been written is a
  prefix of the answers to the requests in the order they came.
\<close>

theorem http_session_bounded:
  assumes "reachable fs doc_root s"
  shows "length (s_items s) \<le> 8 \<and> (s_reading s \<longrightarrow> length (s_items s) < 8) \<and>
    (\<exists>rest. map (handle_request fs doc_root) (s_requests s) = s_written s @ rest)"
proof -
  note inv = inv_reachable [OF assms, unfolded session_inv_def Let_def queue_limit_def]
  let ?answers = "map (handle_request fs doc_root) (s_requests s)"
  from inv have "\<exists>items. ?answers = s_written s @ items"
  proof (cases "s_writing s")
    case True
    with inv show ?thesis by (intro exI [of _ "s_items s"]) simp
  next
    case False
    with inv consider "?answers = s_written s @ []" | "?answers = s_written s @ s_items s" | "?answers = s_written s @ tl (s_items s)"
      by auto
    then show ?thesis by cases blast+
  qed
  with inv show ?thesis by blast
qed

text \<open>
  C17. A session without errors never stalls: as long as it is neither shut down, failed nor upgraded
  a read or a write is outstanding, a full queue is being written, and every request is answered or
  waits in the queue.
\<close>

theorem http_session_progress:
  assumes "reachable fs doc_root s" and "healthy s"
  shows "(s_reading s \<or> s_writing s) \<and> (s_writing s \<longleftrightarrow> s_items s \<noteq> []) \<and>
    s_written s @ s_items s = map (handle_request fs doc_root) (s_requests s)"
  using inv_reachable [OF assms(1)] assms(2) by (auto simp: session_inv_def Let_def queue_limit_def)

section \<open>Answers\<close>

text \<open>Two equal characters in a row in a concatenation lie in one part, or across the border.\<close>

lemma double_append:
  assumes "a @ b = u @ [x, x] @ v"
  shows "(\<exists>u v. a = u @ [x, x] @ v) \<or> (\<exists>u v. b = u @ [x, x] @ v) \<or> (a \<noteq> [] \<and> last a = x)"
proof -
  from assms obtain w where "a = u @ w \<and> w @ b = [x, x] @ v \<or> a @ w = u \<and> b = w @ [x, x] @ v"
    by (auto simp: append_eq_append_conv2)
  then show ?thesis
  proof (elim disjE conjE)
    assume w: "a = u @ w" "w @ b = [x, x] @ v"
    show ?thesis
    proof (cases w)
      case Nil
      with w(2) have "b = [] @ [x, x] @ v" by simp
      then show ?thesis by blast
    next
      case (Cons c cs)
      show ?thesis
      proof (cases cs)
        case Nil
        with w Cons show ?thesis by simp
      next
        case (Cons d ds)
        with w \<open>w = c # cs\<close> have "a = u @ [x, x] @ ds" by simp
        then show ?thesis by blast
      qed
    qed
  qed blast
qed

text \<open>
  What a request gets: 400 for another method than GET and HEAD or a target that is not absolute or
  contains two dots in a row, otherwise 404, 500 or 200 as the file opens; every answer keeps the
  version and the connection mode of the request, and a HEAD answer has the length but no body.
\<close>

theorem handle_request_status:
  "rs_status (handle_request fs doc_root req) =
     (if rq_method req = OtherVerb \<or> \<not> legal_target (rq_target req) then BadRequest
      else case fs (file_path doc_root (rq_target req)) of NoSuchFile \<Rightarrow> NotFound | OpenError _ \<Rightarrow> ServerError | Opened _ \<Rightarrow> OK) \<and>
   rs_version (handle_request fs doc_root req) = rq_version req \<and>
   rs_keep_alive (handle_request fs doc_root req) = rq_keep_alive req \<and>
   (rs_status (handle_request fs doc_root req) = OK \<longrightarrow>
      rs_body (handle_request fs doc_root req) =
        (if rq_method req = HEAD then NoBody else File (file_path doc_root (rq_target req))))"
  by (cases "rq_method req")
    (auto simp: handle_request_def bad_request_def not_found_def server_error_def text_response_def Let_def split: open_result.split)

text \<open>
  C38. No request leaves the document root: a file is served only from a path that continues the
  document root (without its final slash) with a target that starts with a slash and nowhere
  contains two dots in a row.
\<close>

theorem no_traversal:
  assumes "rs_body (handle_request fs doc_root req) = File path" and "doc_root \<noteq> []" and "fits (rq_target req)"
  shows "\<exists>rest. path = (if last doc_root = CHR ''/'' then butlast doc_root else doc_root) @ CHR ''/'' # rest \<and>
    (\<nexists>u v. CHR ''/'' # rest = u @ ''..'' @ v)"
proof -
  have legal: "legal_target (rq_target req)" and path: "path = file_path doc_root (rq_target req)"
    using assms(1) by (auto simp: handle_request_def bad_request_def not_found_def server_error_def text_response_def Let_def
        split: if_splits open_result.splits)
  from legal obtain t where t: "rq_target req = CHR ''/'' # t"
    by (cases "rq_target req") (auto simp: legal_target_def)
  let ?tail = "if last (rq_target req) = CHR ''/'' then ''index.html'' else []"
  have none: "\<nexists>u v. rq_target req = u @ ''..'' @ v"
    using legal find_str_npos [OF assms(3), of "''..''"] by (simp add: legal_target_def)
  have index: "\<nexists>u v. ''index.html'' = u @ ''..'' @ v"
    using find_opt_None [of "''..''" "''index.html''"] by (simp add: starts_with_def)
  have "\<nexists>u v. rq_target req @ ?tail = u @ ''..'' @ v"
  proof (cases "last (rq_target req) = CHR ''/''")
    case True
    show ?thesis
    proof (intro notI, elim exE)
      fix u v assume "rq_target req @ ?tail = u @ ''..'' @ v"
      from double_append [OF this] none index True show False by auto
    qed
  qed (use none in simp)
  then show ?thesis
    using assms(2) by (intro exI [of _ "t @ ?tail"]) (simp add: path file_path_def path_cat_def t)
qed

lemma of_to_lower_char: "(of_char (to_lower_char c) :: nat) = (if 65 \<le> (of_char c :: nat) \<and> (of_char c :: nat) \<le> 90
    then of_char c + 32 else of_char c)"
  by (simp add: to_lower_char_def Let_def)

lemma to_lower_char_idem: "to_lower_char (to_lower_char c) = to_lower_char c"
proof -
  have "(of_char (to_lower_char (to_lower_char c)) :: nat) = of_char (to_lower_char c)"
    by (simp only: of_to_lower_char) simp
  then show ?thesis by simp
qed

lemma to_lower_idem [simp]: "to_lower (to_lower s) = to_lower s"
  by (simp add: to_lower_def to_lower_char_idem)

lemma to_lower_dot: "CHR ''.'' = to_lower_char c \<longleftrightarrow> c = CHR ''.''"
proof
  assume "CHR ''.'' = to_lower_char c"
  then have "(of_char (to_lower_char c) :: nat) = of_char (CHR ''.'')" by simp
  then have "(of_char c :: nat) = of_char (CHR ''.'')" unfolding of_to_lower_char by (auto split: if_splits)
  then show "c = CHR ''.''" by (simp only: of_char_eq_iff)
qed (simp add: to_lower_char_def)

lemma to_lower_dot_self: "to_lower_char (CHR ''.'') = CHR ''.''"
  by (simp add: to_lower_char_def)

lemma extension_to_lower [simp]: "to_lower (extension (to_lower path)) = to_lower (extension path)"
proof -
  have "takeWhile (\<lambda>c. c \<noteq> CHR ''.'') (map to_lower_char s) = map to_lower_char (takeWhile (\<lambda>c. c \<noteq> CHR ''.'') s)" for s
    by (induction s) (auto simp: to_lower_dot to_lower_dot_self dest: sym)
  then have "extension (to_lower path) = to_lower (extension path)"
    by (auto simp: extension_def to_lower_def rev_map to_lower_dot to_lower_dot_self)
  then show ?thesis by simp
qed

text \<open>
  The type of a file depends on the case of its extension in no way.
\<close>

theorem mime_type_ignores_case: "mime_type (to_lower path) = mime_type path"
  unfolding mime_type_def Let_def iequals_def extension_to_lower by (rule refl)

section \<open>Examples\<close>

definition sample_fs :: "string \<Rightarrow> open_result" where
  "sample_fs path =
     (if path = ''/srv/index.html'' then Opened 12 else if path = ''/srv/secret'' then OpenError ''denied'' else NoSuchFile)"

definition sample_request :: "verb \<Rightarrow> string \<Rightarrow> request" where
  "sample_request m target =
     \<lparr>rq_method = m, rq_target = target, rq_version = 11, rq_keep_alive = True, rq_upgrade = False\<rparr>"

lemma sample_reachable:
  "reachable sample_fs ''/srv/'' (on_read sample_fs ''/srv/'' (Got (sample_request GET ''/'')) new_session)"
  by (rule reachable.step [OF reachable.start session_step.read_ends]) (simp_all add: new_session_def do_read_def)

theorem http_session_bounded_witness:
  "length (s_items (on_read sample_fs ''/srv/'' (Got (sample_request GET ''/'')) new_session)) \<le> 8"
  using http_session_bounded [OF sample_reachable] by blast

theorem http_session_progress_witness:
  "s_writing (on_read sample_fs ''/srv/'' (Got (sample_request GET ''/'')) new_session)"
proof -
  have "healthy (on_read sample_fs ''/srv/'' (Got (sample_request GET ''/'')) new_session)"
    by (simp add: healthy_def session_defs new_session_def sample_request_def)
  with http_session_progress [OF sample_reachable] show ?thesis
    by (simp add: session_defs new_session_def sample_request_def)
qed

theorem no_traversal_witness:
  "\<exists>rest. ''/srv/index.html'' = ''/srv'' @ CHR ''/'' # rest \<and> (\<nexists>u v. CHR ''/'' # rest = u @ ''..'' @ v)"
proof -
  have "rs_body (handle_request sample_fs ''/srv/'' (sample_request GET ''/'')) = File ''/srv/index.html''"
    by (simp add: handle_request_def sample_request_def legal_target_def find_str_def starts_with_def npos_def
        file_path_def path_cat_def sample_fs_def Let_def)
  from no_traversal [OF this] show ?thesis by (simp add: fits_def sample_request_def npos_def size_max_def)
qed

theorem handle_request_status_witness:
  "rs_status (handle_request sample_fs ''/srv/'' (sample_request HEAD ''/'')) = OK \<and>
   rs_body (handle_request sample_fs ''/srv/'' (sample_request HEAD ''/'')) = NoBody"
proof -
  have "sample_fs (file_path ''/srv/'' (rq_target (sample_request HEAD ''/''))) = Opened 12"
    and "legal_target (rq_target (sample_request HEAD ''/''))"
    by (simp_all add: sample_request_def legal_target_def find_str_def starts_with_def npos_def size_max_def file_path_def path_cat_def sample_fs_def)
  then show ?thesis
    using handle_request_status [of sample_fs "''/srv/''" "sample_request HEAD ''/''"] by (simp add: sample_request_def)
qed

end
