(* ===== verification/DeviceControl.thy ===== *)
theory DeviceControl
  imports ServicePlugin
begin

text \<open>
  The control of the device's state machine (\<^verbatim>\<open>plugins/DaqServicePlugin.cxx\<close>): single commands and
  commands that stand for several of them, the startup and the shutdown sequence, the messages of
  the command channel and the thread that runs the three in a row.
\<close>

section \<open>Commands\<close>

definition cmd_Bind :: string where "cmd_Bind = ''BIND''"
definition cmd_CompleteInit :: string where "cmd_CompleteInit = ''COMPLETE INIT''"
definition cmd_Connect :: string where "cmd_Connect = ''CONNECT''"
definition cmd_End :: string where "cmd_End = ''END''"
definition cmd_InitDevice :: string where "cmd_InitDevice = ''INIT DEVICE''"
definition cmd_InitTask :: string where "cmd_InitTask = ''INIT TASK''"
definition cmd_ResetDevice :: string where "cmd_ResetDevice = ''RESET DEVICE''"
definition cmd_ResetTask :: string where "cmd_ResetTask = ''RESET TASK''"
definition cmd_Run :: string where "cmd_Run = ''RUN''"
definition cmd_Stop :: string where "cmd_Stop = ''STOP''"
definition daq_Exit :: string where "daq_Exit = ''exit''"
definition daq_Quit :: string where "daq_Quit = ''quit''"
definition daq_Reset :: string where "daq_Reset = ''reset''"
definition daq_Start :: string where "daq_Start = ''start''"

lemmas command_names =
  cmd_Bind_def cmd_CompleteInit_def cmd_Connect_def cmd_End_def cmd_InitDevice_def cmd_InitTask_def
  cmd_ResetDevice_def cmd_ResetTask_def cmd_Run_def cmd_Stop_def daq_Exit_def daq_Quit_def daq_Reset_def daq_Start_def

section \<open>Single commands\<close>

text \<open>\<^verbatim>\<open>while (fStateQueue.WaitForNext() != s) {}\<close>\<close>

partial_function (option) wait_until :: "'w host \<Rightarrow> DeviceState \<Rightarrow> 'w \<Rightarrow> (unit res \<times> 'w) option" where
  "wait_until hs s w =
     (case WaitForNext hs w of
        None \<Rightarrow> None
      | Some (r, v) \<Rightarrow>
          (case r of Inl e \<Rightarrow> Some (Inl e, v) | Inr s' \<Rightarrow> if s' = s then Some (Inr (), v) else wait_until hs s v))"

definition WaitState :: "'w host \<Rightarrow> DeviceState \<Rightarrow> ('w plugin, unit) opn" where
  "WaitState hs s p = (case wait_until hs s (pw p) of None \<Rightarrow> (Inl NoReturn, p) | Some (r, w) \<Rightarrow> (r, with_pw w p))"

definition change_state :: "'w host \<Rightarrow> DeviceStateTransition \<Rightarrow> ('w plugin, unit) opn" where
  "change_state hs t p = (case ChangeDeviceState hs t (pw p) of (r, w) \<Rightarrow> (r, with_pw w p))"

definition go :: "'w host \<Rightarrow> DeviceStateTransition \<Rightarrow> DeviceState \<Rightarrow> ('w plugin, unit) opn" where
  "go hs t s = seqM (change_state hs t) (WaitState hs s)"

definition request_reset :: "('w plugin, unit) opn" where
  "request_reset = modify (\<lambda>p. p\<lparr>resetDeviceRequested := True\<rparr>)"

definition ChangeDeviceStateBySingleCommand :: "'w platform \<Rightarrow> 'w host \<Rightarrow> string \<Rightarrow> ('w plugin, unit) opn" where
  "ChangeDeviceStateBySingleCommand pf hs cmd =
     bindM (gets (\<lambda>p. GetCurrentDeviceState hs (pw p))) (\<lambda>state. case state of
       Idle \<Rightarrow> only_if (cmd = cmd_InitDevice) (go hs T_InitDevice InitializingDevice)
     | InitializingDevice \<Rightarrow> only_if (cmd = cmd_CompleteInit) (go hs T_CompleteInit Initialized)
     | Initialized \<Rightarrow>
         seqM (only_if (cmd = cmd_Bind) (go hs T_Bind Bound))
              (only_if (cmd = cmd_ResetDevice) (seqM request_reset (go hs T_ResetDevice Idle)))
     | Bound \<Rightarrow>
         seqM (only_if (cmd = cmd_Connect) (go hs T_Connect DeviceReady))
              (only_if (cmd = cmd_ResetDevice) (seqM request_reset (go hs T_ResetDevice Idle)))
     | Connecting \<Rightarrow> only_if (cmd = cmd_ResetDevice) request_reset
     | DeviceReady \<Rightarrow>
         seqM (only_if (cmd = cmd_InitTask) (go hs T_InitTask Ready))
              (only_if (cmd = cmd_ResetDevice) (seqM request_reset (go hs T_ResetDevice Idle)))
     | Ready \<Rightarrow>
         seqM (only_if (cmd = cmd_Run) (seqM (go hs T_Run Running) (WriteStartTime pf hs)))
              (only_if (cmd = cmd_ResetTask) (go hs T_ResetTask DeviceReady))
     | Running \<Rightarrow> only_if (cmd = cmd_Stop) (seqM (go hs T_Stop Ready) (WriteStopTime pf hs))
     | _ \<Rightarrow> ret ())"

section \<open>Commands for several steps\<close>

text \<open>The single commands that the \<^verbatim>\<open>switch\<close> of \<open>ChangeDeviceStateByMultiCommand\<close> issues, state by state.\<close>

definition from_Idle :: "string \<Rightarrow> string list" where
  "from_Idle cmd =
     (if cmd = cmd_InitDevice \<or> cmd = cmd_CompleteInit then [cmd_InitDevice, cmd_CompleteInit]
      else if cmd = cmd_Bind then [cmd_InitDevice, cmd_CompleteInit, cmd_Bind]
      else if cmd = cmd_Connect then [cmd_InitDevice, cmd_CompleteInit, cmd_Bind, cmd_Connect]
      else if cmd = cmd_InitTask then [cmd_InitDevice, cmd_CompleteInit, cmd_Bind, cmd_Connect, cmd_InitTask]
      else if cmd = cmd_Run \<or> cmd = daq_Start
        then [cmd_InitDevice, cmd_CompleteInit, cmd_Bind, cmd_Connect, cmd_InitTask, cmd_Run]
      else [])"

definition from_InitializingDevice :: "string \<Rightarrow> string list" where
  "from_InitializingDevice cmd =
     (if cmd = cmd_CompleteInit then [cmd_CompleteInit]
      else if cmd = cmd_Bind then [cmd_CompleteInit, cmd_Bind]
      else if cmd = cmd_Connect then [cmd_CompleteInit, cmd_Bind, cmd_Connect]
      else if cmd = cmd_InitTask then [cmd_CompleteInit, cmd_Bind, cmd_Connect, cmd_InitTask]
      else if cmd = cmd_Run \<or> cmd = daq_Start
        then [cmd_CompleteInit, cmd_Bind, cmd_Connect, cmd_InitTask, cmd_Run]
      else [])"

definition from_Initialized :: "string \<Rightarrow> string list" where
  "from_Initialized cmd =
     (if cmd = cmd_Bind then [cmd_Bind]
      else if cmd = cmd_Connect then [cmd_Bind, cmd_Connect]
      else if cmd = cmd_InitTask then [cmd_Bind, cmd_Connect, cmd_InitTask]
      else if cmd = cmd_Run \<or> cmd = daq_Start then [cmd_Bind, cmd_Connect, cmd_InitTask, cmd_Run]
      else if cmd = cmd_ResetDevice \<or> cmd = daq_Reset then [cmd_ResetDevice]
      else [])"

definition from_Bound :: "string \<Rightarrow> string list" where
  "from_Bound cmd =
     (if cmd = cmd_Connect then [cmd_Connect]
      else if cmd = cmd_InitTask then [cmd_Connect, cmd_InitTask]
      else if cmd = cmd_Run \<or> cmd = daq_Start then [cmd_Connect, cmd_InitTask, cmd_Run]
      else if cmd = cmd_ResetDevice \<or> cmd = daq_Reset then [cmd_ResetDevice]
      else [])"

definition from_DeviceReady :: "string \<Rightarrow> string list" where
  "from_DeviceReady cmd =
     (if cmd = cmd_InitTask then [cmd_InitTask]
      else if cmd = cmd_Run \<or> cmd = daq_Start then [cmd_InitTask, cmd_Run]
      else if cmd = cmd_ResetDevice \<or> cmd = daq_Reset then [cmd_ResetDevice]
      else [])"

definition from_Ready :: "string \<Rightarrow> string list" where
  "from_Ready cmd =
     (if cmd = cmd_Run \<or> cmd = daq_Start then [cmd_Run]
      else if cmd = cmd_ResetTask then [cmd_ResetTask]
      else if cmd = cmd_ResetDevice \<or> cmd = daq_Reset then [cmd_ResetTask, cmd_ResetDevice]
      else [])"

definition from_Running :: "string \<Rightarrow> string list" where
  "from_Running cmd =
     (if cmd = cmd_Stop then [cmd_Stop]
      else if cmd = cmd_ResetTask then [cmd_Stop, cmd_ResetTask]
      else if cmd = cmd_ResetDevice \<or> cmd = daq_Reset then [cmd_Stop, cmd_ResetTask, cmd_ResetDevice]
      else [])"

definition multi_commands :: "DeviceState \<Rightarrow> string \<Rightarrow> string list" where
  "multi_commands state cmd =
     (case state of
        Idle \<Rightarrow> from_Idle cmd | InitializingDevice \<Rightarrow> from_InitializingDevice cmd
      | Initialized \<Rightarrow> from_Initialized cmd | Bound \<Rightarrow> from_Bound cmd | DeviceReady \<Rightarrow> from_DeviceReady cmd
      | Ready \<Rightarrow> from_Ready cmd | Running \<Rightarrow> from_Running cmd | _ \<Rightarrow> [])"

definition ChangeDeviceStateByMultiCommand :: "'w platform \<Rightarrow> 'w host \<Rightarrow> string \<Rightarrow> ('w plugin, unit) opn" where
  "ChangeDeviceStateByMultiCommand pf hs cmd =
     bindM (gets (\<lambda>p. GetCurrentDeviceState hs (pw p))) (\<lambda>state.
       for_each (multi_commands state cmd) (ChangeDeviceStateBySingleCommand pf hs))"

section \<open>Startup and shutdown\<close>

definition RunStartupSequence :: "'w platform \<Rightarrow> 'w host \<Rightarrow> ('w plugin, unit) opn" where
  "RunStartupSequence pf hs =
     bindM (gets (\<lambda>p. to_lower (pl_startupState p))) (\<lambda>s.
       if s = ''idle'' then ret () else
       seqM (ChangeDeviceStateBySingleCommand pf hs cmd_InitDevice)
      (if s = ''initialingdevice'' \<or> s = ''initializing-device'' then ret () else
       seqM (ChangeDeviceStateBySingleCommand pf hs cmd_CompleteInit)
      (if s = ''initialized'' then ret () else
       seqM (ChangeDeviceStateBySingleCommand pf hs cmd_Bind)
      (if s = ''bound'' then ret () else
       seqM (ChangeDeviceStateBySingleCommand pf hs cmd_Connect)
      (if s = ''deviceready'' \<or> s = ''device-ready'' then ret () else
       seqM (ChangeDeviceStateBySingleCommand pf hs cmd_InitTask)
      (if s = ''ready'' then ret () else
       seqM (ChangeDeviceStateBySingleCommand pf hs cmd_Run)
            (ret ())))))))"

definition WaitForNextState :: "'w host \<Rightarrow> ('w plugin, DeviceState) opn" where
  "WaitForNextState hs p = (case WaitForNext hs (pw p) of None \<Rightarrow> (Inl NoReturn, p) | Some (r, w) \<Rightarrow> (r, with_pw w p))"

definition shutdown_step :: "'w platform \<Rightarrow> 'w host \<Rightarrow> DeviceState \<Rightarrow> ('w plugin, DeviceState) opn" where
  "shutdown_step pf hs nextState =
     seqM (case nextState of
             Idle \<Rightarrow> change_state hs T_End
           | InitializingDevice \<Rightarrow> change_state hs T_CompleteInit
           | Initialized \<Rightarrow> change_state hs T_ResetDevice
           | Bound \<Rightarrow> change_state hs T_ResetDevice
           | DeviceReady \<Rightarrow> change_state hs T_ResetDevice
           | Ready \<Rightarrow> change_state hs T_ResetTask
           | Running \<Rightarrow> seqM (change_state hs T_Stop) (WriteStopTime pf hs)
           | _ \<Rightarrow> ret ())
          (WaitForNextState hs)"

partial_function (option) shutdown_loop ::
  "'w platform \<Rightarrow> 'w host \<Rightarrow> DeviceState \<Rightarrow> 'w plugin \<Rightarrow> (unit res \<times> 'w plugin) option" where
  "shutdown_loop pf hs nextState p =
     (if nextState = Exiting \<or> nextState = Error then Some (Inr (), p)
      else case shutdown_step pf hs nextState p of (r, q) \<Rightarrow>
        (case r of Inl e \<Rightarrow> if e = NoReturn then None else Some (Inl e, q) | Inr s \<Rightarrow> shutdown_loop pf hs s q))"

definition RunShutdownSequence :: "'w platform \<Rightarrow> 'w host \<Rightarrow> ('w plugin, unit) opn" where
  "RunShutdownSequence pf hs =
     bindM (gets (\<lambda>p. GetCurrentDeviceState hs (pw p))) (\<lambda>nextState.
       seqM (only_if (nextState \<noteq> Error) (on_pw (ClearStates hs)))
      (seqM (\<lambda>p. case shutdown_loop pf hs nextState p of None \<Rightarrow> (Inl NoReturn, p) | Some r \<Rightarrow> r)
            (on_pw (ReleaseDeviceControl hs))))"

section \<open>Messages of the command channel\<close>

text \<open>
  The values of the children of \<^verbatim>\<open>services\<close> and of \<^verbatim>\<open>instances\<close>; \<^verbatim>\<open>get_child\<close> throws when the
  member is missing.
\<close>

definition child_values :: "ptree \<Rightarrow> string \<Rightarrow> string list res" where
  "child_values obj k =
     (case ptree_child obj k of
        None \<Rightarrow> Inl (Failure ''No such node'')
      | Some c \<Rightarrow> Inr (map (\<lambda>(_, x). pt_data x) (pt_children c)))"

definition long_instance_id :: "'w plugin \<Rightarrow> string" where
  "long_instance_id p = join [pl_serviceName p, pl_id p] (pl_separator p)"

definition addressed :: "'w plugin \<Rightarrow> string list \<Rightarrow> string list \<Rightarrow> bool" where
  "addressed p services instances \<longleftrightarrow>
     ''all'' \<in> set services \<or>
     pl_serviceName p \<in> set services \<and> (''all'' \<in> set instances \<or> long_instance_id p \<in> set instances)"

definition on_message :: "'w platform \<Rightarrow> 'w host \<Rightarrow> string \<Rightarrow> string \<Rightarrow> ('w plugin, unit) opn" where
  "on_message pf hs channel msg =
     (if CommandChannelName \<noteq> channel then ret () else
      bindM (lift_res (json_read pf msg)) (\<lambda>obj.
        case ptree_get obj ''command'' of None \<Rightarrow> ret ()
        | Some cmd \<Rightarrow>
            if cmd = ''change_state'' then
              bindM (lift_res (child_values obj ''services'')) (\<lambda>services.
              bindM (lift_res (child_values obj ''instances'')) (\<lambda>instances.
                case ptree_get obj ''value'' of None \<Rightarrow> ret ()
                | Some val \<Rightarrow>
                    if services = [] \<or> instances = [] then ret () else
                    bindM (gets (\<lambda>p. addressed p services instances)) (\<lambda>mine.
                      only_if mine
                        (seqM (ChangeDeviceStateByMultiCommand pf hs val)
                              (only_if (val = daq_Exit \<or> val = daq_Quit \<or> val = cmd_End)
                                 (modify (\<lambda>p. p\<lparr>pluginShutdownRequested := True\<rparr>)))))))
            else ret ()))"

text \<open>What \<^verbatim>\<open>sub.consume()\<close> does: it hands over a message, times out, or throws.\<close>

datatype consumed = Message string string | TimedOut | Broken fault

definition consume :: "'w platform \<Rightarrow> 'w host \<Rightarrow> consumed \<Rightarrow> ('w plugin, unit) opn" where
  "consume pf hs c =
     (case c of Message channel msg \<Rightarrow> on_message pf hs channel msg | TimedOut \<Rightarrow> ret () | Broken e \<Rightarrow> raise e)"

text \<open>The loop over what is consumed. When nothing comes any more the last call blocks.\<close>

fun SubscribeToDaqCommand :: "'w platform \<Rightarrow> 'w host \<Rightarrow> consumed list \<Rightarrow> ('w plugin, unit) opn" where
  "SubscribeToDaqCommand pf hs [] p = (if pluginShutdownRequested p then (Inr (), p) else (Inl NoReturn, p))"
| "SubscribeToDaqCommand pf hs (c # cs) p =
     (if pluginShutdownRequested p then (Inr (), p)
      else case consume pf hs c p of
        (Inr _, q) \<Rightarrow> SubscribeToDaqCommand pf hs cs q
      | (Inl e, q) \<Rightarrow> ((if catchable e then Inr () else Inl e), q))"

section \<open>The state control thread\<close>

definition device_error :: fault where "device_error = Failure ''DeviceErrorState''"
definition control_error :: fault where "control_error = Failure ''DeviceControlError''"

definition state_control :: "'w platform \<Rightarrow> 'w host \<Rightarrow> consumed list \<Rightarrow> ('w plugin, unit) opn" where
  "state_control pf hs cs p =
     (case seqM (RunStartupSequence pf hs)
          (seqM (SubscribeToDaqCommand pf hs cs) (RunShutdownSequence pf hs)) p of
        (Inr _, q) \<Rightarrow> (Inr (), q)
      | (Inl e, q) \<Rightarrow>
          if e = control_error then (Inr (), q)
          else if e = device_error then on_pw (ReleaseDeviceControl hs) q
          else (Inl e, q))"

section \<open>The state machine of FairMQ\<close>

text \<open>The states a device announces after a transition is requested in a state it rests in.\<close>

definition fairmq_transitions :: "((DeviceState \<times> DeviceStateTransition) \<times> DeviceState list) list" where
  "fairmq_transitions =
     [((Idle, T_InitDevice), [InitializingDevice]), ((InitializingDevice, T_CompleteInit), [Initialized]),
      ((Initialized, T_Bind), [Binding, Bound]), ((Bound, T_Connect), [Connecting, DeviceReady]),
      ((DeviceReady, T_InitTask), [InitializingTask, Ready]), ((Ready, T_Run), [Running]),
      ((Running, T_Stop), [Ready]), ((Ready, T_ResetTask), [ResettingTask, DeviceReady]),
      ((DeviceReady, T_ResetDevice), [ResettingDevice, Idle]), ((Bound, T_ResetDevice), [ResettingDevice, Idle]),
      ((Initialized, T_ResetDevice), [ResettingDevice, Idle]), ((Idle, T_End), [Exiting])]"

definition device_path :: "DeviceState \<Rightarrow> DeviceStateTransition \<Rightarrow> DeviceState list" where
  "device_path s t = (case map_of fairmq_transitions (s, t) of None \<Rightarrow> [] | Some path \<Rightarrow> path)"

definition after_transition :: "DeviceState \<Rightarrow> DeviceStateTransition \<Rightarrow> DeviceState" where
  "after_transition s t = last (s # device_path s t)"

text \<open>
  The device announces the documented states, or an error on the way to the last of them.
\<close>

definition announces :: "DeviceState list \<Rightarrow> DeviceState list \<Rightarrow> bool" where
  "announces path ps \<longleftrightarrow> ps = path \<or> (\<exists>n < length path. ps = take n path @ [Error])"

text \<open>
  \<open>pend w\<close> are the states the device has announced or is about to announce and that have not been
  taken from the queue. A device with none is at rest. \<^verbatim>\<open>WaitForNext\<close> takes the next one and throws
  when it is the error state; the commands of the registry and the property store do not move the
  device.
\<close>

definition at_rest :: "'w host \<Rightarrow> ('w \<Rightarrow> DeviceState list) \<Rightarrow> DeviceState \<Rightarrow> 'w \<Rightarrow> bool" where
  "at_rest hs pend s w \<longleftrightarrow> pend w = [] \<and> GetCurrentDeviceState hs w = s"

definition requests_ok :: "'w host \<Rightarrow> ('w \<Rightarrow> DeviceState list) \<Rightarrow> bool" where
  "requests_ok hs pend \<longleftrightarrow>
     (\<forall>w s t. at_rest hs pend s w \<longrightarrow>
        (\<exists>v. ChangeDeviceState hs t w = (Inr (), v) \<and> announces (device_path s t) (pend v) \<and>
           (pend v = [] \<longrightarrow> GetCurrentDeviceState hs v = s)))"

definition queue_ok :: "'w host \<Rightarrow> ('w \<Rightarrow> DeviceState list) \<Rightarrow> bool" where
  "queue_ok hs pend \<longleftrightarrow>
     (\<forall>w. pend w = [] \<longrightarrow> WaitForNext hs w = None) \<and>
     (\<forall>w s ss. pend w = s # ss \<longrightarrow> s \<noteq> Error \<longrightarrow>
        (\<exists>v. WaitForNext hs w = Some (Inr s, v) \<and> pend v = ss \<and> (ss = [] \<longrightarrow> GetCurrentDeviceState hs v = s))) \<and>
     (\<forall>w ss. pend w = Error # ss \<longrightarrow>
        (\<exists>v. WaitForNext hs w = Some (Inl device_error, v) \<and> GetCurrentDeviceState hs v = Error)) \<and>
     (\<forall>w s. at_rest hs pend s w \<longrightarrow> at_rest hs pend s (ClearStates hs w))"

definition device_frame :: "'w platform \<Rightarrow> 'w host \<Rightarrow> ('w \<Rightarrow> DeviceState list) \<Rightarrow> bool" where
  "device_frame pf hs pend \<longleftrightarrow>
     (\<forall>w c. pend (rd_run pf c w) = pend w \<and> GetCurrentDeviceState hs (rd_run pf c w) = GetCurrentDeviceState hs w) \<and>
     (\<forall>w k v. pend (pr_set pf k v w) = pend w \<and> GetCurrentDeviceState hs (pr_set pf k v w) = GetCurrentDeviceState hs w)"

definition fairmq_device :: "'w platform \<Rightarrow> 'w host \<Rightarrow> ('w \<Rightarrow> DeviceState list) \<Rightarrow> bool" where
  "fairmq_device pf hs pend \<longleftrightarrow> requests_ok hs pend \<and> queue_ok hs pend \<and> device_frame pf hs pend"

section \<open>One step of the device\<close>

definition config :: "'w plugin \<Rightarrow> string \<times> string \<times> string \<times> string \<times> bool" where
  "config p = (pl_startupState p, pl_serviceName p, pl_id p, pl_separator p, pluginShutdownRequested p)"

lemma config_with_pw [simp]: "config (with_pw w p) = config p"
  by (simp add: config_def)

text \<open>The operation ends with the device at rest in \<open>s\<close>, or the device has failed.\<close>

definition moves :: "'w host \<Rightarrow> ('w \<Rightarrow> DeviceState list) \<Rightarrow> ('w plugin, unit) opn \<Rightarrow> 'w plugin \<Rightarrow> DeviceState \<Rightarrow> bool" where
  "moves hs pend m p s \<longleftrightarrow>
     (\<exists>q. config q = config p \<and>
        (m p = (Inr (), q) \<and> at_rest hs pend s (pw q) \<or>
         m p = (Inl device_error, q) \<and> GetCurrentDeviceState hs (pw q) = Error))"

lemma moves_seq:
  assumes "moves hs pend m p s" and "\<And>q. at_rest hs pend s (pw q) \<Longrightarrow> config q = config p \<Longrightarrow> moves hs pend n q s'"
  shows "moves hs pend (seqM m n) p s'"
proof -
  from assms(1) obtain q where q: "config q = config p" "m p = (Inr (), q) \<and> at_rest hs pend s (pw q) \<or>
      m p = (Inl device_error, q) \<and> GetCurrentDeviceState hs (pw q) = Error"
    unfolding moves_def by blast
  show ?thesis
  proof (cases "m p = (Inr (), q) \<and> at_rest hs pend s (pw q)")
    case True
    then have "moves hs pend n q s'" using assms(2) q(1) by blast
    with True q(1) show ?thesis unfolding moves_def seqM_def bindM_def by auto
  next
    case False
    with q show ?thesis unfolding moves_def seqM_def bindM_def by auto
  qed
qed

lemma moves_ret: "at_rest hs pend s (pw p) \<Longrightarrow> moves hs pend (ret ()) p s"
  by (simp add: moves_def ret_apply)

lemma moves_only_if:
  "(b \<Longrightarrow> moves hs pend m p s) \<Longrightarrow> (\<not> b \<Longrightarrow> at_rest hs pend s (pw p)) \<Longrightarrow> moves hs pend (only_if b m) p s"
  by (cases b) (simp_all add: only_if_def moves_ret)

lemma moves_request_reset: "at_rest hs pend s (pw p) \<Longrightarrow> moves hs pend request_reset p s"
  by (simp add: moves_def request_reset_def modify_apply config_def)

lemma queue_next:
  assumes "queue_ok hs pend" and "pend w = s # ss" and "s \<noteq> Error"
  obtains v where "WaitForNext hs w = Some (Inr s, v)" and "pend v = ss" and "ss = [] \<Longrightarrow> GetCurrentDeviceState hs v = s"
  using assms unfolding queue_ok_def by metis

lemma queue_error:
  assumes "queue_ok hs pend" and "pend w = Error # ss"
  obtains v where "WaitForNext hs w = Some (Inl device_error, v)" and "GetCurrentDeviceState hs v = Error"
  using assms unfolding queue_ok_def by metis

lemma wait_until_reaches:
  assumes "queue_ok hs pend"
  shows "pend w = xs @ [s] \<Longrightarrow> s \<notin> set xs \<Longrightarrow> Error \<notin> set (xs @ [s]) \<Longrightarrow>
    \<exists>v. wait_until hs s w = Some (Inr (), v) \<and> at_rest hs pend s v"
proof (induction xs arbitrary: w)
  case Nil
  then obtain v where "WaitForNext hs w = Some (Inr s, v)" "pend v = []" "GetCurrentDeviceState hs v = s"
    using queue_next [OF assms, of w s "[]"] by auto
  then show ?case by (subst wait_until.simps) (simp add: at_rest_def)
next
  case (Cons x xs)
  then obtain v where v: "WaitForNext hs w = Some (Inr x, v)" "pend v = xs @ [s]"
    using queue_next [OF assms, of w x "xs @ [s]"] by auto
  with Cons show ?case by (subst wait_until.simps) auto
qed

lemma wait_until_fails:
  assumes "queue_ok hs pend"
  shows "pend w = xs @ [Error] \<Longrightarrow> s \<notin> set xs \<Longrightarrow> Error \<notin> set xs \<Longrightarrow>
    \<exists>v. wait_until hs s w = Some (Inl device_error, v) \<and> GetCurrentDeviceState hs v = Error"
proof (induction xs arbitrary: w)
  case Nil
  then obtain v where "WaitForNext hs w = Some (Inl device_error, v)" "GetCurrentDeviceState hs v = Error"
    using queue_error [OF assms, of w "[]"] by auto
  then show ?case by (subst wait_until.simps) simp
next
  case (Cons x xs)
  then obtain v where v: "WaitForNext hs w = Some (Inr x, v)" "pend v = xs @ [Error]"
    using queue_next [OF assms, of w x "xs @ [Error]"] by auto
  with Cons show ?case by (subst wait_until.simps) auto
qed

text \<open>The paths of FairMQ end in a state that they do not pass before.\<close>

definition leads_to :: "DeviceState list \<Rightarrow> DeviceState \<Rightarrow> bool" where
  "leads_to path s \<longleftrightarrow> path \<noteq> [] \<and> last path = s \<and> s \<notin> set (butlast path) \<and> Error \<notin> set path"

lemma split_announced:
  assumes "path = xs @ [s]" and "announces path ps"
  shows "ps = xs @ [s] \<or> (\<exists>n \<le> length xs. ps = take n xs @ [Error])"
  using assms unfolding announces_def by (auto simp: less_Suc_eq_le)

lemma moves_go:
  assumes d: "fairmq_device pf hs pend" and p: "at_rest hs pend s (pw p)" and path: "leads_to (device_path s t) s'"
  shows "moves hs pend (go hs t s') p s'"
proof -
  let ?xs = "butlast (device_path s t)"
  have split: "device_path s t = ?xs @ [s']" "s' \<notin> set ?xs" "Error \<notin> set (?xs @ [s'])"
    using path last_in_set [of "device_path s t"] by (auto simp: leads_to_def dest: in_set_butlastD)
  obtain v where v: "ChangeDeviceState hs t (pw p) = (Inr (), v)" "announces (device_path s t) (pend v)"
    using d p unfolding fairmq_device_def requests_ok_def by blast
  have q: "queue_ok hs pend" using d by (simp add: fairmq_device_def)
  have run: "go hs t s' p = WaitState hs s' (with_pw v p)"
    by (simp add: go_def seqM_def bindM_def change_state_def v(1))
  from v(2) consider "pend v = ?xs @ [s']" | n where "n \<le> length ?xs" "pend v = take n ?xs @ [Error]"
    using split_announced [OF split(1)] by blast
  then show ?thesis
  proof cases
    case 1
    from wait_until_reaches [OF q this split(2,3)] obtain u where
      "wait_until hs s' v = Some (Inr (), u)" "at_rest hs pend s' u" by blast
    then show ?thesis by (simp add: moves_def run WaitState_def)
  next
    case (2 n)
    have "s' \<notin> set (take n ?xs)" "Error \<notin> set (take n ?xs)"
      using split(2,3) by (auto dest: in_set_takeD)
    from wait_until_fails [OF q 2(2) this] obtain u where
      "wait_until hs s' v = Some (Inl device_error, u)" "GetCurrentDeviceState hs u = Error" by blast
    then show ?thesis by (simp add: moves_def run WaitState_def)
  qed
qed

lemma moves_write_time:
  assumes "fairmq_device pf hs pend" and "at_rest hs pend s (pw p)"
  shows "moves hs pend (write_time pf hs k kNS) p s"
proof -
  have "at_rest hs pend s (pw (snd (write_time pf hs k kNS p)))"
    using assms by (simp add: write_time_def op_simps at_rest_def fairmq_device_def device_frame_def)
  moreover have "fst (write_time pf hs k kNS p) = Inr ()" "config (snd (write_time pf hs k kNS p)) = config p"
    by (simp_all add: write_time_def op_simps)
  ultimately show ?thesis
    unfolding moves_def by (intro exI [of _ "snd (write_time pf hs k kNS p)"]) (simp add: prod_eq_iff)
qed

section \<open>The abstract device\<close>

text \<open>What a command asks of the state machine, and the state it leaves the device in.\<close>

definition command_transitions :: "(string \<times> DeviceStateTransition) list" where
  "command_transitions =
     [(cmd_InitDevice, T_InitDevice), (cmd_CompleteInit, T_CompleteInit), (cmd_Bind, T_Bind), (cmd_Connect, T_Connect),
      (cmd_InitTask, T_InitTask), (cmd_Run, T_Run), (cmd_Stop, T_Stop), (cmd_ResetTask, T_ResetTask),
      (cmd_ResetDevice, T_ResetDevice)]"

definition abstract_step :: "string \<Rightarrow> DeviceState \<Rightarrow> DeviceState" where
  "abstract_step cmd s = (case map_of command_transitions cmd of None \<Rightarrow> s | Some t \<Rightarrow> after_transition s t)"

lemmas device_table = device_path_def fairmq_transitions_def after_transition_def

lemma leads_to_table:
  "leads_to (device_path Idle T_InitDevice) InitializingDevice"
  "leads_to (device_path InitializingDevice T_CompleteInit) Initialized"
  "leads_to (device_path Initialized T_Bind) Bound" "leads_to (device_path Bound T_Connect) DeviceReady"
  "leads_to (device_path DeviceReady T_InitTask) Ready" "leads_to (device_path Ready T_Run) Running"
  "leads_to (device_path Running T_Stop) Ready" "leads_to (device_path Ready T_ResetTask) DeviceReady"
  "leads_to (device_path Initialized T_ResetDevice) Idle" "leads_to (device_path Bound T_ResetDevice) Idle"
  "leads_to (device_path DeviceReady T_ResetDevice) Idle"
  by (simp_all add: leads_to_def device_table)

text \<open>The table of the abstract device, one state after the other.\<close>

lemma abstract_table:
  "abstract_step c Idle = (if c = cmd_InitDevice then InitializingDevice else Idle)"
  "abstract_step c InitializingDevice = (if c = cmd_CompleteInit then Initialized else InitializingDevice)"
  "abstract_step c Initialized = (if c = cmd_Bind then Bound else if c = cmd_ResetDevice then Idle else Initialized)"
  "abstract_step c Bound = (if c = cmd_Connect then DeviceReady else if c = cmd_ResetDevice then Idle else Bound)"
  "abstract_step c DeviceReady = (if c = cmd_InitTask then Ready else if c = cmd_ResetDevice then Idle else DeviceReady)"
  "abstract_step c Ready = (if c = cmd_Run then Running else if c = cmd_ResetTask then DeviceReady else Ready)"
  "abstract_step c Running = (if c = cmd_Stop then Ready else Running)"
  "s \<notin> {Idle, InitializingDevice, Initialized, Bound, DeviceReady, Ready, Running} \<Longrightarrow> abstract_step c s = s"
  by (simp_all add: abstract_step_def command_transitions_def command_names device_table split: option.split)

lemma moves_reset:
  assumes "fairmq_device pf hs pend" and "at_rest hs pend s (pw p)" and "leads_to (device_path s T_ResetDevice) Idle"
  shows "moves hs pend (seqM request_reset (go hs T_ResetDevice Idle)) p Idle"
  using assms by (intro moves_seq [OF moves_request_reset] moves_go)

lemma seqM_ret [simp]: "seqM (ret ()) n = n" "only_if True m = m" "only_if False m = ret ()"
  by (simp_all add: seqM_def only_if_def)

lemma moves_gets: "moves hs pend (bindM (gets g) f) p s \<longleftrightarrow> moves hs pend (f (g p)) p s"
  by (simp add: moves_def op_simps)

lemma moves_single:
  assumes d: "fairmq_device pf hs pend" and p: "at_rest hs pend s (pw p)"
  shows "moves hs pend (ChangeDeviceStateBySingleCommand pf hs c) p (abstract_step c s)"
proof -
  note go = moves_go [OF d p] and reset = moves_reset [OF d p]
  have timed: "moves hs pend (seqM (go hs t s') (write_time pf hs k kNS)) p s'" if "leads_to (device_path s t) s'" for t s' k kNS
    by (rule moves_seq [OF moves_go [OF d p that] moves_write_time [OF d]])
  have cur: "GetCurrentDeviceState hs (pw p) = s" using p by (simp add: at_rest_def)
  have stay: "moves hs pend (ret ()) p s'" "moves hs pend (only_if b request_reset) p s'" if "s' = s" for b s'
    using p that by (simp_all add: moves_ret moves_only_if moves_request_reset)
  have last: "moves hs pend (seqM m (ret ())) p s'" if "moves hs pend m p s'" for m s'
    using that by (rule moves_seq) (rule moves_ret)
  have distinct: "cmd_Bind \<noteq> cmd_ResetDevice" "cmd_Connect \<noteq> cmd_ResetDevice" "cmd_InitTask \<noteq> cmd_ResetDevice"
    "cmd_Run \<noteq> cmd_ResetTask"
    by (simp_all add: command_names)
  show ?thesis
    unfolding ChangeDeviceStateBySingleCommand_def WriteStartTime_def WriteStopTime_def moves_gets cur
    using distinct by (cases s) (simp_all add: abstract_table go leads_to_table reset timed stay last)
qed

section \<open>Sequences of commands\<close>

text \<open>
  The contract between one command and those who issue several: a command moves the state it
  represents as its specification says, or fails. A client that issues them in a row does the same.
\<close>

locale command_simulation =
  fixes R :: "'a \<Rightarrow> 'p \<Rightarrow> bool" and F :: "fault \<Rightarrow> 'p \<Rightarrow> bool"
    and command :: "'c \<Rightarrow> ('p, unit) opn" and spec :: "'c \<Rightarrow> 'a \<Rightarrow> 'a"
  assumes step: "R s p \<Longrightarrow>
    (\<exists>q. command c p = (Inr (), q) \<and> R (spec c s) q) \<or> (\<exists>e q. command c p = (Inl e, q) \<and> F e q)"
begin

lemma run:
  "R s p \<Longrightarrow> (\<exists>q. for_each cs command p = (Inr (), q) \<and> R (fold spec cs s) q) \<or>
     (\<exists>e q. for_each cs command p = (Inl e, q) \<and> F e q)"
proof (induction cs arbitrary: s p)
  case Nil
  then show ?case by (simp add: ret_apply)
next
  case (Cons c cs)
  from step [OF Cons.prems, of c] show ?case
  proof (elim disjE exE conjE)
    fix q assume q: "command c p = (Inr (), q)" "R (spec c s) q"
    from Cons.IH [OF q(2)] q(1) show ?thesis by (simp add: seqM_def bindM_def)
  next
    fix e q assume "command c p = (Inl e, q)" "F e q"
    then show ?thesis by (simp add: seqM_def bindM_def)
  qed
qed

end

definition control_state ::
  "'w platform \<Rightarrow> 'w host \<Rightarrow> ('w \<Rightarrow> DeviceState list) \<Rightarrow> string \<times> string \<times> string \<times> string \<times> bool \<Rightarrow>
   DeviceState \<Rightarrow> 'w plugin \<Rightarrow> bool" where
  "control_state pf hs pend i s p \<longleftrightarrow> fairmq_device pf hs pend \<and> at_rest hs pend s (pw p) \<and> config p = i"

definition control_failed ::
  "'w host \<Rightarrow> string \<times> string \<times> string \<times> string \<times> bool \<Rightarrow> fault \<Rightarrow> 'w plugin \<Rightarrow> bool" where
  "control_failed hs i e p \<longleftrightarrow> e = device_error \<and> GetCurrentDeviceState hs (pw p) = Error \<and> config p = i"

interpretation single: command_simulation "control_state pf hs pend i" "control_failed hs i"
    "ChangeDeviceStateBySingleCommand pf hs" abstract_step for pf hs pend i
proof
  fix s c and p :: "'a plugin"
  assume a: "control_state pf hs pend i s p"
  then have "moves hs pend (ChangeDeviceStateBySingleCommand pf hs c) p (abstract_step c s)"
    by (intro moves_single) (simp_all add: control_state_def)
  with a show "(\<exists>q. ChangeDeviceStateBySingleCommand pf hs c p = (Inr (), q) \<and> control_state pf hs pend i (abstract_step c s) q) \<or>
      (\<exists>e q. ChangeDeviceStateBySingleCommand pf hs c p = (Inl e, q) \<and> control_failed hs i e q)"
    unfolding moves_def control_state_def control_failed_def by auto
qed

section \<open>The goal of a command\<close>

fun state_rank :: "DeviceState \<Rightarrow> nat" where
  "state_rank Undefined = 0" | "state_rank Ok = 1" | "state_rank Error = 2" | "state_rank Idle = 3"
| "state_rank InitializingDevice = 4" | "state_rank Initialized = 5" | "state_rank Binding = 6"
| "state_rank Bound = 7" | "state_rank Connecting = 8" | "state_rank DeviceReady = 9"
| "state_rank InitializingTask = 10" | "state_rank Ready = 11" | "state_rank Running = 12"
| "state_rank ResettingTask = 13" | "state_rank ResettingDevice = 14" | "state_rank Exiting = 15"

lemma state_rank_inj: "state_rank s = state_rank t \<Longrightarrow> s = t"
  by (cases s; cases t; simp)

instantiation DeviceState :: linorder
begin

definition less_eq_DeviceState :: "DeviceState \<Rightarrow> DeviceState \<Rightarrow> bool" where
  "less_eq_DeviceState s t \<longleftrightarrow> state_rank s \<le> state_rank t"

definition less_DeviceState :: "DeviceState \<Rightarrow> DeviceState \<Rightarrow> bool" where
  "less_DeviceState s t \<longleftrightarrow> state_rank s < state_rank t"

instance
  by standard (auto simp: less_eq_DeviceState_def less_DeviceState_def dest: state_rank_inj)

end

lemmas state_order = less_eq_DeviceState_def less_DeviceState_def

definition resting :: "DeviceState \<Rightarrow> bool" where
  "resting s \<longleftrightarrow> s \<in> {Idle, InitializingDevice, Initialized, Bound, DeviceReady, Ready, Running}"

text \<open>The state a command names, and whether it is reached by going forward.\<close>

definition command_goals :: "(string \<times> bool \<times> DeviceState) list" where
  "command_goals =
     [(cmd_InitDevice, True, Initialized), (cmd_CompleteInit, True, Initialized), (cmd_Bind, True, Bound),
      (cmd_Connect, True, DeviceReady), (cmd_InitTask, True, Ready), (cmd_Run, True, Running), (daq_Start, True, Running),
      (cmd_Stop, False, Ready), (cmd_ResetTask, False, DeviceReady), (cmd_ResetDevice, False, Idle), (daq_Reset, False, Idle)]"

definition on_the_way :: "string \<Rightarrow> bool \<Rightarrow> DeviceState \<Rightarrow> DeviceState \<Rightarrow> bool" where
  "on_the_way cmd forward s g \<longleftrightarrow>
     resting s \<and> (if forward then s < g \<and> \<not> (s = InitializingDevice \<and> cmd = cmd_InitDevice)
                  else g < s \<and> s \<noteq> InitializingDevice)"

definition goal_state :: "string \<Rightarrow> DeviceState \<Rightarrow> DeviceState" where
  "goal_state cmd s =
     (case map_of command_goals cmd of None \<Rightarrow> s
      | Some (forward, g) \<Rightarrow> if on_the_way cmd forward s g then g else s)"

text \<open>A planner that computes the commands from the chain of the states.\<close>

definition forward_chain :: "(DeviceState \<times> string \<times> DeviceState) list" where
  "forward_chain =
     [(Idle, cmd_InitDevice, InitializingDevice), (InitializingDevice, cmd_CompleteInit, Initialized),
      (Initialized, cmd_Bind, Bound), (Bound, cmd_Connect, DeviceReady), (DeviceReady, cmd_InitTask, Ready),
      (Ready, cmd_Run, Running)]"

definition plan :: "string \<Rightarrow> DeviceState \<Rightarrow> string list" where
  "plan cmd s =
     (case map_of command_goals cmd of None \<Rightarrow> []
      | Some (forward, g) \<Rightarrow>
          if \<not> on_the_way cmd forward s g then []
          else if forward then map (fst \<circ> snd) (filter (\<lambda>(x, _, y). s \<le> x \<and> y \<le> g) forward_chain)
          else map (fst \<circ> snd) (filter (\<lambda>(x, _, y). x \<le> s \<and> g \<le> y)
                 [(Running, cmd_Stop, Ready), (Ready, cmd_ResetTask, DeviceReady)]) @
               (if g = Idle then [cmd_ResetDevice] else []))"

lemma goal_cases:
  "map_of command_goals cmd = None \<Longrightarrow> plan cmd s = [] \<and> goal_state cmd s = s"
  by (simp add: plan_def goal_state_def)

lemma known_command:
  assumes "map_of command_goals cmd \<noteq> None"
  shows "cmd \<in> {cmd_InitDevice, cmd_CompleteInit, cmd_Bind, cmd_Connect, cmd_InitTask, cmd_Run, daq_Start,
    cmd_Stop, cmd_ResetTask, cmd_ResetDevice, daq_Reset}"
  using assms by (auto simp: command_goals_def split: if_splits)

lemma unknown_command:
  "map_of command_goals cmd = None \<Longrightarrow> multi_commands s cmd = []"
  by (cases s) (auto simp: command_goals_def multi_commands_def from_Idle_def from_InitializingDevice_def from_Initialized_def
      from_Bound_def from_DeviceReady_def from_Ready_def from_Running_def split: if_splits)

definition goal_commands :: "string list" where
  "goal_commands =
     [cmd_InitDevice, cmd_CompleteInit, cmd_Bind, cmd_Connect, cmd_InitTask, cmd_Run, daq_Start, cmd_Stop,
      cmd_ResetTask, cmd_ResetDevice, daq_Reset]"

definition device_states :: "DeviceState list" where
  "device_states =
     [Undefined, Ok, Error, Idle, InitializingDevice, Initialized, Binding, Bound, Connecting, DeviceReady,
      InitializingTask, Ready, Running, ResettingTask, ResettingDevice, Exiting]"

lemma all_device_states: "s \<in> set device_states"
  by (cases s) (simp_all add: device_states_def)

text \<open>The tables, checked entry by entry.\<close>

lemma plan_table: "list_all (\<lambda>s. list_all (\<lambda>c. multi_commands s c = plan c s) goal_commands) device_states"
  by code_simp

lemma goal_table:
  "list_all (\<lambda>s. list_all (\<lambda>c. fold abstract_step (plan c s) s = goal_state c s) goal_commands) device_states"
  by code_simp

lemma multi_commands_plan: "multi_commands s cmd = plan cmd s"
proof (cases "map_of command_goals cmd")
  case None
  then show ?thesis by (simp add: unknown_command goal_cases)
next
  case (Some g)
  then have "cmd \<in> set goal_commands" using known_command [of cmd] by (simp add: goal_commands_def)
  with plan_table all_device_states [of s] show ?thesis by (simp add: list_all_iff)
qed

lemma fold_multi_commands: "fold abstract_step (multi_commands s cmd) s = goal_state cmd s"
proof (cases "map_of command_goals cmd")
  case None
  then show ?thesis by (simp add: unknown_command goal_cases)
next
  case (Some g)
  then have "cmd \<in> set goal_commands" using known_command [of cmd] by (simp add: goal_commands_def)
  with goal_table all_device_states [of s] show ?thesis by (simp add: list_all_iff multi_commands_plan)
qed

section \<open>Multi commands, startup\<close>

text \<open>An operation that leaves the device at rest, or reports that it failed.\<close>

definition control_moves ::
  "'w platform \<Rightarrow> 'w host \<Rightarrow> ('w \<Rightarrow> DeviceState list) \<Rightarrow> ('w plugin, unit) opn \<Rightarrow> 'w plugin \<Rightarrow> DeviceState \<Rightarrow> bool" where
  "control_moves pf hs pend m p s \<longleftrightarrow>
     (\<exists>q. m p = (Inr (), q) \<and> control_state pf hs pend (config p) s q) \<or>
     (\<exists>e q. m p = (Inl e, q) \<and> control_failed hs (config p) e q)"

lemma moves_control: "fairmq_device pf hs pend \<Longrightarrow> moves hs pend m p s \<Longrightarrow> control_moves pf hs pend m p s"
  by (auto simp: moves_def control_moves_def control_state_def control_failed_def)

lemma multi_moves:
  assumes "fairmq_device pf hs pend" and "at_rest hs pend s (pw p)"
  shows "control_moves pf hs pend (ChangeDeviceStateByMultiCommand pf hs cmd) p (goal_state cmd s)"
proof -
  have start: "control_state pf hs pend (config p) s p" using assms by (simp add: control_state_def)
  have "ChangeDeviceStateByMultiCommand pf hs cmd p =
      for_each (multi_commands s cmd) (ChangeDeviceStateBySingleCommand pf hs) p"
    using assms(2) by (simp add: ChangeDeviceStateByMultiCommand_def op_simps at_rest_def)
  with single.run [OF start, of "multi_commands s cmd"] show ?thesis
    by (simp add: control_moves_def fold_multi_commands)
qed

text \<open>
  C30. The single commands that \<open>ChangeDeviceStateByMultiCommand\<close> issues in a state are those that a
  planner computes from the chain of FairMQ's states: the steps between the state and the goal of the
  command, forward or backward, and none when the command does not apply.
\<close>

theorem multi_command_plan: "multi_commands s cmd = plan cmd s"
  by (rule multi_commands_plan)

text \<open>
  C7. On a device at rest, \<open>ChangeDeviceStateByMultiCommand\<close> refines the abstract device: it returns
  with the device at rest in the goal of the command (in the same state when the command does not
  apply), unless the device itself fails on the way, which it reports.
\<close>

theorem multi_command_reaches_goal:
  assumes "fairmq_device pf hs pend" and "at_rest hs pend s (pw p)"
  shows "(\<exists>q. ChangeDeviceStateByMultiCommand pf hs cmd p = (Inr (), q) \<and> at_rest hs pend (goal_state cmd s) (pw q)) \<or>
    (\<exists>q. ChangeDeviceStateByMultiCommand pf hs cmd p = (Inl device_error, q) \<and> GetCurrentDeviceState hs (pw q) = Error)"
  using multi_moves [OF assms, of cmd] unfolding control_moves_def control_state_def control_failed_def by blast

text \<open>What \<open>RunStartupSequence\<close> does with the name of the startup state; other names mean \<open>Running\<close>.\<close>

definition startup_names :: "(string \<times> nat \<times> DeviceState) list" where
  "startup_names =
     [(''idle'', 0, Idle), (''initialingdevice'', 1, InitializingDevice), (''initializing-device'', 1, InitializingDevice),
      (''initialized'', 2, Initialized), (''bound'', 3, Bound), (''deviceready'', 4, DeviceReady),
      (''device-ready'', 4, DeviceReady), (''ready'', 5, Ready), (''running'', 6, Running)]"

definition startup_depth :: "string \<Rightarrow> nat" where
  "startup_depth s = (case map_of startup_names (to_lower s) of None \<Rightarrow> 6 | Some (n, _) \<Rightarrow> n)"

definition startup_target :: "string \<Rightarrow> DeviceState" where
  "startup_target s = (case map_of startup_names (to_lower s) of None \<Rightarrow> Running | Some (_, t) \<Rightarrow> t)"

definition startup_commands :: "string list" where
  "startup_commands = [cmd_InitDevice, cmd_CompleteInit, cmd_Bind, cmd_Connect, cmd_InitTask, cmd_Run]"

lemma startup_as_commands:
  "RunStartupSequence pf hs p =
     for_each (take (startup_depth (pl_startupState p)) startup_commands) (ChangeDeviceStateBySingleCommand pf hs) p"
proof -
  define u where "u = to_lower (pl_startupState p)"
  have "RunStartupSequence pf hs p = (if u = ''idle'' then ret () else
       seqM (ChangeDeviceStateBySingleCommand pf hs cmd_InitDevice)
      (if u = ''initialingdevice'' \<or> u = ''initializing-device'' then ret () else
       seqM (ChangeDeviceStateBySingleCommand pf hs cmd_CompleteInit)
      (if u = ''initialized'' then ret () else
       seqM (ChangeDeviceStateBySingleCommand pf hs cmd_Bind)
      (if u = ''bound'' then ret () else
       seqM (ChangeDeviceStateBySingleCommand pf hs cmd_Connect)
      (if u = ''deviceready'' \<or> u = ''device-ready'' then ret () else
       seqM (ChangeDeviceStateBySingleCommand pf hs cmd_InitTask)
      (if u = ''ready'' then ret () else
       seqM (ChangeDeviceStateBySingleCommand pf hs cmd_Run) (ret ()))))))) p"
    unfolding RunStartupSequence_def bindM_gets u_def by (rule refl)
  then show ?thesis
    by (simp add: startup_depth_def u_def [symmetric] startup_names_def startup_commands_def)
qed

lemma startup_table:
  "list_all (\<lambda>(n, k, t). fold abstract_step (take k startup_commands) Idle = t) ((undefined, 6, Running) # startup_names)"
  by (simp add: startup_names_def startup_commands_def abstract_table)

lemma startup_fold: "fold abstract_step (take (startup_depth s) startup_commands) Idle = startup_target s"
proof (cases "map_of startup_names (to_lower s)")
  case None
  with startup_table show ?thesis by (simp add: startup_depth_def startup_target_def)
next
  case (Some nt)
  obtain n t where nt: "nt = (n, t)" by fastforce
  from map_of_SomeD [OF Some] startup_table nt have "fold abstract_step (take n startup_commands) Idle = t"
    by (force simp: list_all_iff)
  with Some nt show ?thesis by (simp add: startup_depth_def startup_target_def)
qed

lemma startup_moves:
  assumes "fairmq_device pf hs pend" and "at_rest hs pend Idle (pw p)"
  shows "control_moves pf hs pend (RunStartupSequence pf hs) p (startup_target (pl_startupState p))"
proof -
  have "control_state pf hs pend (config p) Idle p" using assms by (simp add: control_state_def)
  from single.run [OF this, of "take (startup_depth (pl_startupState p)) startup_commands"] show ?thesis
    by (simp add: control_moves_def startup_as_commands startup_fold)
qed


section \<open>The shutdown\<close>

text \<open>The state a device at rest is brought to by one round of the shutdown, and the rounds it needs.\<close>

definition shutdown_request :: "DeviceState \<Rightarrow> DeviceStateTransition" where
  "shutdown_request s =
     (case s of Idle \<Rightarrow> T_End | InitializingDevice \<Rightarrow> T_CompleteInit | Ready \<Rightarrow> T_ResetTask | Running \<Rightarrow> T_Stop
      | _ \<Rightarrow> T_ResetDevice)"

definition shutdown_rounds :: "DeviceState \<Rightarrow> nat" where
  "shutdown_rounds s =
     (case s of Idle \<Rightarrow> 1 | Initialized \<Rightarrow> 2 | Bound \<Rightarrow> 2 | DeviceReady \<Rightarrow> 2 | InitializingDevice \<Rightarrow> 3 | Ready \<Rightarrow> 3
      | Running \<Rightarrow> 4 | _ \<Rightarrow> 0)"

definition transitional :: "DeviceState \<Rightarrow> bool" where
  "transitional s \<longleftrightarrow> \<not> resting s \<and> s \<noteq> Exiting \<and> s \<noteq> Error"

lemma shutdown_ends: "s = Exiting \<or> s = Error \<Longrightarrow> shutdown_loop pf hs s p = Some (Inr (), p)"
  by (subst shutdown_loop.simps) simp

lemma transitional_step: "transitional s \<Longrightarrow> shutdown_step pf hs s = WaitForNextState hs"
  by (cases s) (simp_all add: transitional_def resting_def shutdown_step_def)

text \<open>In a transitional state the loop only waits for the next one.\<close>

lemma shutdown_drain:
  assumes "queue_ok hs pend" and "transitional s"
  shows "\<lbrakk>pend (pw p) = xs @ [z]; list_all transitional xs; z \<noteq> Error\<rbrakk> \<Longrightarrow>
      \<exists>v. shutdown_loop pf hs s p = shutdown_loop pf hs z (with_pw v p) \<and> at_rest hs pend z v"
    and "\<lbrakk>pend (pw p) = xs @ [Error]; list_all transitional xs\<rbrakk> \<Longrightarrow>
      \<exists>v. shutdown_loop pf hs s p = Some (Inl device_error, with_pw v p) \<and> GetCurrentDeviceState hs v = Error"
proof -
  have loop: "shutdown_loop pf hs s p = (case WaitForNext hs (pw p) of None \<Rightarrow> None
      | Some (Inl e, w) \<Rightarrow> if e = NoReturn then None else Some (Inl e, with_pw w p)
      | Some (Inr x, w) \<Rightarrow> shutdown_loop pf hs x (with_pw w p))" if "transitional s" for s p
    using that by (subst shutdown_loop.simps)
      (auto simp: transitional_step transitional_def WaitForNextState_def split: option.split sum.split)
  show "\<exists>v. shutdown_loop pf hs s p = shutdown_loop pf hs z (with_pw v p) \<and> at_rest hs pend z v"
    if "pend (pw p) = xs @ [z]" "list_all transitional xs" "z \<noteq> Error"
    using that assms(2)
  proof (induction xs arbitrary: s p)
    case Nil
    then obtain v where "WaitForNext hs (pw p) = Some (Inr z, v)" "pend v = []" "GetCurrentDeviceState hs v = z"
      using queue_next [OF assms(1), of "pw p" z "[]"] by auto
    then show ?case by (intro exI [of _ v]) (simp add: loop [OF Nil.prems(4)] at_rest_def)
  next
    case (Cons x xs)
    then have "x \<noteq> Error" by (auto simp: transitional_def)
    then obtain v where v: "WaitForNext hs (pw p) = Some (Inr x, v)" "pend v = xs @ [z]"
      using queue_next [OF assms(1), of "pw p" x "xs @ [z]"] Cons.prems(1) by auto
    from Cons.IH [of "with_pw v p" x] v(2) Cons.prems
    obtain u where "shutdown_loop pf hs x (with_pw v p) = shutdown_loop pf hs z (with_pw u p)" "at_rest hs pend z u"
      by auto
    then show ?case by (intro exI [of _ u]) (simp add: loop [OF Cons.prems(4)] v(1))
  qed
  show "\<exists>v. shutdown_loop pf hs s p = Some (Inl device_error, with_pw v p) \<and> GetCurrentDeviceState hs v = Error"
    if "pend (pw p) = xs @ [Error]" "list_all transitional xs"
    using that assms(2)
  proof (induction xs arbitrary: s p)
    case Nil
    then obtain v where "WaitForNext hs (pw p) = Some (Inl device_error, v)" "GetCurrentDeviceState hs v = Error"
      using queue_error [OF assms(1), of "pw p" "[]"] by auto
    then show ?case by (intro exI [of _ v]) (simp add: loop [OF Nil.prems(3)] device_error_def)
  next
    case (Cons x xs)
    then have "x \<noteq> Error" by (auto simp: transitional_def)
    then obtain v where v: "WaitForNext hs (pw p) = Some (Inr x, v)" "pend v = xs @ [Error]"
      using queue_next [OF assms(1), of "pw p" x "xs @ [Error]"] Cons.prems(1) by auto
    from Cons.IH [of "with_pw v p" x] v(2) Cons.prems
    obtain u where "shutdown_loop pf hs x (with_pw v p) = Some (Inl device_error, with_pw u p)"
      "GetCurrentDeviceState hs u = Error"
      by auto
    then show ?case by (intro exI [of _ u]) (simp add: loop [OF Cons.prems(3)] v(1))
  qed
qed

lemma shutdown_paths:
  "resting s \<Longrightarrow> leads_to (device_path s (shutdown_request s)) (after_transition s (shutdown_request s)) \<and>
     list_all transitional (butlast (device_path s (shutdown_request s))) \<and>
     shutdown_rounds (after_transition s (shutdown_request s)) < shutdown_rounds s \<and>
     (resting (after_transition s (shutdown_request s)) \<or> after_transition s (shutdown_request s) = Exiting)"
  by (cases s) (simp_all add: resting_def leads_to_def device_table shutdown_request_def transitional_def shutdown_rounds_def)

lemma shutdown_round:
  assumes d: "fairmq_device pf hs pend" and p: "at_rest hs pend s (pw p)" and s: "resting s"
  shows "\<exists>q. config q = config p \<and> announces (device_path s (shutdown_request s)) (pend (pw q)) \<and>
    shutdown_loop pf hs s p = shutdown_loop pf hs Binding q"
proof -
  let ?t = "shutdown_request s"
  obtain v where v: "ChangeDeviceState hs ?t (pw p) = (Inr (), v)" "announces (device_path s ?t) (pend v)"
    using d p unfolding fairmq_device_def requests_ok_def by blast
  define q where "q = (if s = Running then snd (WriteStopTime pf hs (with_pw v p)) else with_pw v p)"
  obtain u where stop: "WriteStopTime pf hs (with_pw v p) = (Inr (), u)"
    by (simp add: WriteStopTime_def write_time_def op_simps)
  have q: "config q = config p" "pend (pw q) = pend v"
    using d by (simp_all add: q_def WriteStopTime_def write_time_def op_simps fairmq_device_def device_frame_def)
  have request: "change_state hs ?t p = (Inr (), with_pw v p)" by (simp add: change_state_def v(1))
  have "shutdown_step pf hs s p = WaitForNextState hs q"
    using s request stop by (cases s)
      (simp_all add: resting_def shutdown_step_def shutdown_request_def seqM_def bindM_def q_def)
  moreover have "shutdown_step pf hs Binding q = WaitForNextState hs q"
    by (simp add: transitional_step transitional_def resting_def)
  ultimately have "shutdown_loop pf hs s p = shutdown_loop pf hs Binding q"
    using s by (subst (1 2) shutdown_loop.simps) (auto simp: resting_def)
  with q v(2) show ?thesis by auto
qed

lemma list_all_take: "list_all P xs \<Longrightarrow> list_all P (take n xs)"
  by (auto simp: list_all_iff dest: in_set_takeD)

lemma shutdown_from:
  assumes d: "fairmq_device pf hs pend"
  shows "at_rest hs pend s (pw p) \<Longrightarrow> resting s \<or> s = Exiting \<or> s = Error \<Longrightarrow>
    (\<exists>q. shutdown_loop pf hs s p = Some (Inr (), q) \<and> GetCurrentDeviceState hs (pw q) \<in> {Exiting, Error} \<and> config q = config p) \<or>
    (\<exists>q. shutdown_loop pf hs s p = Some (Inl device_error, q) \<and> GetCurrentDeviceState hs (pw q) = Error \<and> config q = config p)"
proof (induction "shutdown_rounds s" arbitrary: s p rule: less_induct)
  case less
  show ?case
  proof (cases "resting s")
    case False
    with less.prems show ?thesis by (auto simp: shutdown_ends at_rest_def)
  next
    case True
    let ?path = "device_path s (shutdown_request s)" and ?z = "after_transition s (shutdown_request s)"
    note path = shutdown_paths [OF True]
    have split: "?path = butlast ?path @ [?z]" using path append_butlast_last_id [of ?path] by (auto simp: leads_to_def)
    have z: "?z \<noteq> Error" using path last_in_set [of ?path] by (auto simp: leads_to_def)
    have q: "queue_ok hs pend" and bind: "transitional Binding"
      using d by (simp_all add: fairmq_device_def transitional_def resting_def)
    obtain u where u: "config u = config p" "announces ?path (pend (pw u))"
      "shutdown_loop pf hs s p = shutdown_loop pf hs Binding u"
      using shutdown_round [OF d less.prems(1) True] by blast
    from split_announced [OF split u(2)] consider "pend (pw u) = butlast ?path @ [?z]"
      | n where "pend (pw u) = take n (butlast ?path) @ [Error]" by blast
    then show ?thesis
    proof cases
      case 1
      from shutdown_drain(1) [OF q bind this] path z obtain v where
        v: "shutdown_loop pf hs Binding u = shutdown_loop pf hs ?z (with_pw v u)" "at_rest hs pend ?z v" by blast
      from less.hyps [of ?z "with_pw v u"] path v(2) u(1) show ?thesis unfolding u(3) v(1) by auto
    next
      case 2
      from shutdown_drain(2) [OF q bind 2] path obtain v where
        "shutdown_loop pf hs Binding u = Some (Inl device_error, with_pw v u)" "GetCurrentDeviceState hs v = Error"
        using list_all_take by blast
      then show ?thesis using u(1,3) by auto
    qed
  qed
qed

lemma shutdown_outcome:
  assumes "fairmq_device pf hs pend" and "at_rest hs pend s (pw p)" and "resting s \<or> s = Exiting \<or> s = Error"
  shows "(\<exists>q w. RunShutdownSequence pf hs p = (Inr (), q) \<and> pw q = ReleaseDeviceControl hs w \<and>
       GetCurrentDeviceState hs w \<in> {Exiting, Error}) \<or>
    (\<exists>q. RunShutdownSequence pf hs p = (Inl device_error, q) \<and> GetCurrentDeviceState hs (pw q) = Error)"
proof -
  define q where "q = snd (only_if (s \<noteq> Error) (on_pw (ClearStates hs)) p)"
  have q: "at_rest hs pend s (pw q)"
  proof -
    have "at_rest hs pend s (ClearStates hs (pw p))"
      using assms(1,2) unfolding fairmq_device_def queue_ok_def by blast
    with assms(2) show ?thesis by (auto simp: q_def only_if_def op_simps)
  qed
  have run: "RunShutdownSequence pf hs p = seqM (\<lambda>p. case shutdown_loop pf hs s p of None \<Rightarrow> (Inl NoReturn, p) | Some r \<Rightarrow> r)
      (on_pw (ReleaseDeviceControl hs)) q"
    using assms(2) by (simp add: RunShutdownSequence_def op_simps at_rest_def q_def seqM_def bindM_def only_if_def split: option.split)
  from shutdown_from [OF assms(1) q assms(3)] show ?thesis
  proof (elim disjE exE conjE)
    fix u assume u: "shutdown_loop pf hs s q = Some (Inr (), u)" "GetCurrentDeviceState hs (pw u) \<in> {Exiting, Error}"
    have "RunShutdownSequence pf hs p = (Inr (), with_pw (ReleaseDeviceControl hs (pw u)) u)"
      by (simp add: run seqM_def bindM_def u(1) on_pw_apply)
    with u(2) show ?thesis by (metis with_pw_simps(1))
  next
    fix u assume u: "shutdown_loop pf hs s q = Some (Inl device_error, u)" "GetCurrentDeviceState hs (pw u) = Error"
    then show ?thesis by (simp add: run seqM_def bindM_def)
  qed
qed

text \<open>
  C31. The shutdown sequence of a device at rest ends: it releases the control of the device in state
  \<open>Exiting\<close>, or the device failed and the failure is reported.
\<close>

theorem shutdown_terminates:
  assumes "fairmq_device pf hs pend" and "at_rest hs pend s (pw p)" and "resting s \<or> s = Exiting \<or> s = Error"
  shows "(\<exists>q w. RunShutdownSequence pf hs p = (Inr (), q) \<and> pw q = ReleaseDeviceControl hs w \<and>
       GetCurrentDeviceState hs w \<in> {Exiting, Error}) \<or>
    (\<exists>q. RunShutdownSequence pf hs p = (Inl device_error, q) \<and> GetCurrentDeviceState hs (pw q) = Error)"
  by (rule shutdown_outcome [OF assms])

section \<open>The command loop\<close>

text \<open>Where the thread stands: the device rests, or it has failed.\<close>

definition ready_for_commands :: "'w host \<Rightarrow> ('w \<Rightarrow> DeviceState list) \<Rightarrow> 'w plugin \<Rightarrow> bool" where
  "ready_for_commands hs pend p \<longleftrightarrow> (\<exists>s. at_rest hs pend s (pw p) \<and> resting s)"

definition has_failed :: "'w host \<Rightarrow> 'w plugin \<Rightarrow> bool" where
  "has_failed hs p \<longleftrightarrow> GetCurrentDeviceState hs (pw p) = Error"

definition json_total :: "'w platform \<Rightarrow> bool" where
  "json_total pf \<longleftrightarrow> (\<forall>m e. json_read pf m = Inl e \<longrightarrow> catchable e)"

definition ids :: "'w plugin \<Rightarrow> string \<times> string \<times> string" where
  "ids p = (pl_serviceName p, pl_id p, pl_separator p)"

lemma config_ids: "config p = config q \<Longrightarrow> ids p = ids q \<and> pluginShutdownRequested p = pluginShutdownRequested q"
  by (simp add: config_def ids_def)

lemma goal_resting: "resting s \<Longrightarrow> resting (goal_state cmd s)"
  by (auto simp: goal_state_def command_goals_def resting_def split: option.split if_splits)

lemma device_error_catchable [simp]: "catchable device_error"
  by (simp add: catchable_def device_error_def)

text \<open>What a message may do to a device that waits for commands.\<close>

definition message_outcome :: "'w host \<Rightarrow> ('w \<Rightarrow> DeviceState list) \<Rightarrow> 'w plugin \<Rightarrow> unit res \<times> 'w plugin \<Rightarrow> bool" where
  "message_outcome hs pend p r \<longleftrightarrow>
     ids (snd r) = ids p \<and>
     (case fst r of Inr _ \<Rightarrow> ready_for_commands hs pend (snd r)
      | Inl e \<Rightarrow> catchable e \<and> (ready_for_commands hs pend (snd r) \<or> has_failed hs (snd r)))"

lemma outcome_still:
  "ready_for_commands hs pend p \<Longrightarrow> message_outcome hs pend p (Inr (), p)"
  "ready_for_commands hs pend p \<Longrightarrow> catchable e \<Longrightarrow> message_outcome hs pend p (Inl e, p)"
  by (simp_all add: message_outcome_def)

lemma multi_outcome:
  assumes "fairmq_device pf hs pend" and "ready_for_commands hs pend p"
  obtains q where "ChangeDeviceStateByMultiCommand pf hs cmd p = (Inr (), q)" and "ready_for_commands hs pend q" and "config q = config p"
  | q where "ChangeDeviceStateByMultiCommand pf hs cmd p = (Inl device_error, q)" and "has_failed hs q" and "config q = config p"
proof -
  from assms(2) obtain s where s: "at_rest hs pend s (pw p)" "resting s" by (auto simp: ready_for_commands_def)
  from multi_moves [OF assms(1) s(1), of cmd] goal_resting [OF s(2), of cmd] that show thesis
    unfolding control_moves_def control_state_def control_failed_def has_failed_def ready_for_commands_def by metis
qed

lemma child_values_catchable: "child_values obj k = Inl e \<Longrightarrow> catchable e"
  by (auto simp: child_values_def catchable_def split: option.splits)

lemma message_effect:
  assumes "fairmq_device pf hs pend" and "json_total pf" and "ready_for_commands hs pend p"
  shows "message_outcome hs pend p (on_message pf hs channel msg p)"
proof -
  note still = outcome_still [OF assms(3)]
  have command: "message_outcome hs pend p (seqM (ChangeDeviceStateByMultiCommand pf hs val)
      (only_if b (modify (\<lambda>p. p\<lparr>pluginShutdownRequested := True\<rparr>))) p)" for val b
    by (rule multi_outcome [OF assms(1,3), of val])
      (auto simp: message_outcome_def seqM_def bindM_def only_if_def op_simps ids_def config_def ready_for_commands_def)
  show ?thesis
    unfolding on_message_def
    using assms(2) command
    by (auto simp: op_simps bindM_def still only_if_def json_total_def child_values_catchable split: sum.split option.split)
qed

definition exit_message :: "'w platform \<Rightarrow> 'w plugin \<Rightarrow> string \<Rightarrow> bool" where
  "exit_message pf p msg \<longleftrightarrow>
     (case json_read pf msg of Inl _ \<Rightarrow> False
      | Inr obj \<Rightarrow> ptree_get obj ''command'' = Some ''change_state'' \<and>
          ptree_get obj ''value'' \<in> Some ` {daq_Exit, daq_Quit, cmd_End} \<and>
          (\<exists>services instances. child_values obj ''services'' = Inr services \<and> child_values obj ''instances'' = Inr instances \<and>
             services \<noteq> [] \<and> instances \<noteq> [] \<and> addressed p services instances))"

lemma exit_message_ids: "ids p = ids q \<Longrightarrow> exit_message pf p msg = exit_message pf q msg"
  by (simp add: exit_message_def addressed_def long_instance_id_def ids_def split: sum.split)

lemma exit_effect:
  assumes "fairmq_device pf hs pend" and "ready_for_commands hs pend p" and "exit_message pf p msg"
  obtains q where "on_message pf hs CommandChannelName msg p = (Inr (), q)" and "ready_for_commands hs pend q"
      and "pluginShutdownRequested q"
  | q where "on_message pf hs CommandChannelName msg p = (Inl device_error, q)" and "has_failed hs q"
proof -
  from assms(3) obtain obj val services instances where
    m: "json_read pf msg = Inr obj" "ptree_get obj ''command'' = Some ''change_state''" "ptree_get obj ''value'' = Some val"
      "val \<in> {daq_Exit, daq_Quit, cmd_End}" "child_values obj ''services'' = Inr services"
      "child_values obj ''instances'' = Inr instances" "services \<noteq> []" "instances \<noteq> []" "addressed p services instances"
    unfolding exit_message_def by (auto split: sum.splits)
  let ?set = "modify (\<lambda>p. p\<lparr>pluginShutdownRequested := True\<rparr>) :: ('a plugin, unit) opn"
  have run: "on_message pf hs CommandChannelName msg p = seqM (ChangeDeviceStateByMultiCommand pf hs val) ?set p"
    using m by (auto simp: on_message_def bindM_def lift_res_apply gets_apply only_if_def)
  show thesis
  proof (rule multi_outcome [OF assms(1,2), of val])
    fix q assume q: "ChangeDeviceStateByMultiCommand pf hs val p = (Inr (), q)" "ready_for_commands hs pend q"
    show thesis
    proof (rule that(1))
      show "on_message pf hs CommandChannelName msg p = (Inr (), q\<lparr>pluginShutdownRequested := True\<rparr>)"
        by (simp add: run seqM_def bindM_def q(1) modify_apply)
      show "ready_for_commands hs pend (q\<lparr>pluginShutdownRequested := True\<rparr>)"
        using q(2) by (simp add: ready_for_commands_def)
    qed simp
  next
    fix q assume "ChangeDeviceStateByMultiCommand pf hs val p = (Inl device_error, q)" "has_failed hs q"
    then show thesis by (intro that(2) [of q]) (simp_all add: run seqM_def bindM_def)
  qed
qed

text \<open>What ends the loop: a message that tells this device to exit, or the loss of the connection.\<close>

definition ends_loop :: "'w platform \<Rightarrow> 'w plugin \<Rightarrow> consumed \<Rightarrow> bool" where
  "ends_loop pf p c \<longleftrightarrow>
     (case c of Message channel m \<Rightarrow> channel = CommandChannelName \<and> exit_message pf p m | TimedOut \<Rightarrow> False | Broken e \<Rightarrow> True)"

lemma ends_loop_ids: "ids p = ids q \<Longrightarrow> ends_loop pf p c = ends_loop pf q c"
  using exit_message_ids [of p q] by (simp add: ends_loop_def split: consumed.split)

definition broken_catchable :: "consumed \<Rightarrow> bool" where
  "broken_catchable c = (case c of Broken e \<Rightarrow> catchable e | _ \<Rightarrow> True)"

lemma consume_effect:
  assumes "fairmq_device pf hs pend" and "json_total pf" and "ready_for_commands hs pend p" and "broken_catchable c"
  shows "message_outcome hs pend p (consume pf hs c p) \<and>
    (ends_loop pf p c \<longrightarrow> (case consume pf hs c p of (Inr _, q) \<Rightarrow> pluginShutdownRequested q | _ \<Rightarrow> True))"
proof (cases c)
  case (Message channel m)
  have "case on_message pf hs CommandChannelName m p of (Inr _, q) \<Rightarrow> pluginShutdownRequested q | _ \<Rightarrow> True"
    if "exit_message pf p m"
    by (rule exit_effect [OF assms(1,3) that]) simp_all
  with message_effect [OF assms(1-3)] Message show ?thesis by (simp add: consume_def ends_loop_def)
qed (use assms(3,4) in \<open>simp_all add: consume_def op_simps outcome_still ends_loop_def broken_catchable_def\<close>)

lemma loop_stops: "pluginShutdownRequested p \<Longrightarrow> SubscribeToDaqCommand pf hs cs p = (Inr (), p)"
  by (cases cs) simp_all

lemma loop_returns:
  assumes "fairmq_device pf hs pend" and "json_total pf"
  shows "ready_for_commands hs pend p \<Longrightarrow> list_all broken_catchable cs \<Longrightarrow> \<exists>c\<in>set cs. ends_loop pf p c \<Longrightarrow>
    \<exists>q. SubscribeToDaqCommand pf hs cs p = (Inr (), q) \<and> (ready_for_commands hs pend q \<or> has_failed hs q)"
proof (induction cs arbitrary: p)
  case (Cons c cs)
  show ?case
  proof (cases "pluginShutdownRequested p")
    case True
    with Cons.prems(1) show ?thesis by (simp add: loop_stops)
  next
    case False
    obtain r q where rq: "consume pf hs c p = (r, q)" by fastforce
    have c: "message_outcome hs pend p (r, q)" "ends_loop pf p c \<Longrightarrow> case r of Inr _ \<Rightarrow> pluginShutdownRequested q | _ \<Rightarrow> True"
      using consume_effect [OF assms Cons.prems(1), of c] Cons.prems(2) by (simp_all add: rq)
    show ?thesis
    proof (cases r)
      case (Inl e)
      with c(1) show ?thesis using False rq by (auto simp: message_outcome_def)
    next
      case (Inr u)
      have q: "ready_for_commands hs pend q" "ids q = ids p" using c(1) Inr by (simp_all add: message_outcome_def)
      have next_: "SubscribeToDaqCommand pf hs (c # cs) p = SubscribeToDaqCommand pf hs cs q"
        using False rq Inr by simp
      show ?thesis
      proof (cases "ends_loop pf p c")
        case True
        with c(2) Inr have "pluginShutdownRequested q" by simp
        with q(1) show ?thesis unfolding next_ by (simp add: loop_stops)
      next
        case False
        with Cons.prems(3) obtain d where "d \<in> set cs" "ends_loop pf p d" by auto
        then have "\<exists>d\<in>set cs. ends_loop pf q d"
          using ends_loop_ids [OF q(2)] by blast
        with Cons.IH [OF q(1)] Cons.prems(2) show ?thesis unfolding next_ by simp
      qed
    qed
  qed
qed simp

lemma shutdown_failed: "has_failed hs p \<Longrightarrow> RunShutdownSequence pf hs p = (Inr (), with_pw (ReleaseDeviceControl hs (pw p)) p)"
  by (simp add: RunShutdownSequence_def has_failed_def op_simps seqM_def bindM_def only_if_def shutdown_ends)

text \<open>The control thread has ended: in a final state with the control released, or with the failure of the device.\<close>

definition control_ended :: "'w host \<Rightarrow> unit res \<times> 'w plugin \<Rightarrow> bool" where
  "control_ended hs r \<longleftrightarrow>
     (\<exists>v w. r = (Inr (), v) \<and> pw v = ReleaseDeviceControl hs w \<and> GetCurrentDeviceState hs w \<in> {Exiting, Error}) \<or>
     (\<exists>v. r = (Inl device_error, v) \<and> GetCurrentDeviceState hs (pw v) = Error)"

lemma startup_outcome:
  assumes "fairmq_device pf hs pend" and "at_rest hs pend Idle (pw p)"
  shows "(\<exists>q. RunStartupSequence pf hs p = (Inr (), q) \<and> ready_for_commands hs pend q \<and> config q = config p) \<or>
    (\<exists>q. RunStartupSequence pf hs p = (Inl device_error, q) \<and> GetCurrentDeviceState hs (pw q) = Error)"
proof -
  have "resting (startup_target s)" for s
    by (auto simp: startup_target_def startup_names_def resting_def split: option.split if_splits)
  with startup_moves [OF assms] show ?thesis
    unfolding control_moves_def control_state_def control_failed_def ready_for_commands_def by metis
qed

lemma commands_and_shutdown:
  assumes "fairmq_device pf hs pend" and "json_total pf" and "ready_for_commands hs pend q"
    and "list_all broken_catchable cs" and "\<exists>c\<in>set cs. ends_loop pf q c"
  shows "control_ended hs (seqM (SubscribeToDaqCommand pf hs cs) (RunShutdownSequence pf hs) q)"
proof -
  from loop_returns [OF assms] obtain u
    where u: "SubscribeToDaqCommand pf hs cs q = (Inr (), u)" "ready_for_commands hs pend u \<or> has_failed hs u"
    by blast
  then have run: "seqM (SubscribeToDaqCommand pf hs cs) (RunShutdownSequence pf hs) q = RunShutdownSequence pf hs u"
    by (simp add: seqM_def bindM_def)
  show ?thesis
  proof (cases "has_failed hs u")
    case True
    then have "GetCurrentDeviceState hs (pw u) = Error" by (simp add: has_failed_def)
    with True show ?thesis by (auto simp: run shutdown_failed control_ended_def)
  next
    case False
    with u(2) obtain s where "at_rest hs pend s (pw u)" "resting s" by (auto simp: ready_for_commands_def)
    with shutdown_outcome [OF assms(1), of s u] show ?thesis by (simp add: run control_ended_def)
  qed
qed

lemma control_thread_released:
  assumes "control_ended hs (seqM (RunStartupSequence pf hs) (seqM (SubscribeToDaqCommand pf hs cs) (RunShutdownSequence pf hs)) p)"
  shows "\<exists>q w. state_control pf hs cs p = (Inr (), q) \<and> pw q = ReleaseDeviceControl hs w \<and>
    GetCurrentDeviceState hs w \<in> {Exiting, Error}"
proof -
  have differ: "device_error \<noteq> control_error" by (simp add: device_error_def control_error_def)
  from assms show ?thesis
    unfolding control_ended_def
  proof (elim disjE exE conjE)
    fix v
    assume "seqM (RunStartupSequence pf hs) (seqM (SubscribeToDaqCommand pf hs cs) (RunShutdownSequence pf hs)) p = (Inl device_error, v)"
      "GetCurrentDeviceState hs (pw v) = Error"
    with differ show ?thesis
      by (intro exI [of _ "with_pw (ReleaseDeviceControl hs (pw v)) v"] exI [of _ "pw v"]) (simp add: state_control_def on_pw_apply)
  qed (auto simp: state_control_def)
qed


text \<open>
  A message that is not addressed to this device, by service or by instance, or that comes on
  another channel, changes nothing.
\<close>

theorem foreign_message_ignored:
  assumes "channel \<noteq> CommandChannelName \<or>
    (\<exists>obj services instances. json_read pf msg = Inr obj \<and> child_values obj ''services'' = Inr services \<and>
       child_values obj ''instances'' = Inr instances \<and> \<not> addressed p services instances)"
  shows "on_message pf hs channel msg p = (Inr (), p)"
  using assms by (auto simp: on_message_def op_simps bindM_def only_if_def split: option.split)

text \<open>
  A message that is not JSON, or a \<^verbatim>\<open>change_state\<close> without its \<^verbatim>\<open>services\<close> or \<^verbatim>\<open>instances\<close>, ends
  the command loop, whatever would have come after it: the device runs its shutdown sequence.
\<close>

theorem malformed_message_ends_loop:
  assumes "\<not> pluginShutdownRequested p"
    and "(\<exists>e. json_read pf msg = Inl e \<and> catchable e) \<or>
      (\<exists>obj. json_read pf msg = Inr obj \<and> ptree_get obj ''command'' = Some ''change_state'' \<and>
         (ptree_child obj ''services'' = None \<or> ptree_child obj ''instances'' = None))"
  shows "SubscribeToDaqCommand pf hs (Message CommandChannelName msg # cs) p = (Inr (), p)"
proof -
  have "\<exists>e. on_message pf hs CommandChannelName msg p = (Inl e, p) \<and> catchable e"
    using assms(2) by (auto simp: on_message_def op_simps bindM_def child_values_def catchable_def split: sum.split option.split)
  then show ?thesis using assms(1) by (auto simp: consume_def)
qed

section \<open>A reference device\<close>

text \<open>A world with a device in it, and the host through which the plugin drives it.\<close>

record dev_world = world +
  dev_current :: DeviceState
  dev_pending :: "DeviceState list"

definition ref_host :: "dev_world host" where
  "ref_host = idle_host
     \<lparr>GetCurrentDeviceState := dev_current,
      ChangeDeviceState := (\<lambda>t w. (Inr (), if dev_pending w = []
        then w\<lparr>dev_pending := device_path (dev_current w) t\<rparr> else w)),
      WaitForNext := (\<lambda>w. case dev_pending w of [] \<Rightarrow> None
        | s # ss \<Rightarrow> if s = Error then Some (Inl device_error, w\<lparr>dev_current := Error\<rparr>)
                   else Some (Inr s, w\<lparr>dev_current := s, dev_pending := ss\<rparr>))\<rparr>"

definition sample_json :: "string \<Rightarrow> ptree res" where
  "sample_json msg =
     (if msg = ''exit'' then
        Inr (PTree [] [(''command'', PTree ''change_state'' []), (''value'', PTree ''exit'' []),
          (''services'', PTree [] [([], PTree ''all'' [])]), (''instances'', PTree [] [([], PTree ''all'' [])])])
      else if msg = ''other'' then
        Inr (PTree [] [(''command'', PTree ''change_state'' []), (''value'', PTree ''RUN'' []),
          (''services'', PTree [] [([], PTree ''Sink'' [])]), (''instances'', PTree [] [([], PTree ''all'' [])])])
      else Inl (Failure ''not JSON''))"

definition json_platform :: "dev_world platform" where
  "json_platform = ref_platform\<lparr>json_read := sample_json\<rparr>"

definition sample_device :: "DeviceState \<Rightarrow> dev_world" where
  "sample_device s = \<lparr>store = [], props = [], canceled = False, pauses = 0, dev_current = s, dev_pending = []\<rparr>"

lemma ref_run_device: "dev_pending (ref_run c w) = dev_pending w" "dev_current (ref_run c w) = dev_current w"
  by (simp_all add: ref_run_def Let_def)

lemma json_platform_sel:
  "rd_run json_platform = ref_run" "pr_set json_platform = (\<lambda>k v w. w\<lparr>props := smap_put k v (props w)\<rparr>)"
  "json_read json_platform = sample_json"
  by (simp_all add: json_platform_def ref_sel)

lemma ref_device: "fairmq_device json_platform ref_host dev_pending"
proof -
  have "requests_ok ref_host dev_pending"
    by (auto simp: requests_ok_def at_rest_def announces_def ref_host_def)
  moreover have "queue_ok ref_host dev_pending"
    by (auto simp: queue_ok_def at_rest_def ref_host_def idle_host_def)
  moreover have "device_frame json_platform ref_host dev_pending"
    by (simp add: device_frame_def json_platform_sel ref_run_device ref_host_def)
  ultimately show ?thesis by (simp add: fairmq_device_def)
qed

lemma sample_at_rest: "at_rest ref_host dev_pending s (pw (sample_plugin (sample_device s)))"
  by (simp add: at_rest_def sample_device_def ref_host_def)

theorem multi_command_reaches_goal_witness:
  "(\<exists>q. ChangeDeviceStateByMultiCommand json_platform ref_host daq_Reset (sample_plugin (sample_device Running)) = (Inr (), q) \<and>
      at_rest ref_host dev_pending (goal_state daq_Reset Running) (pw q)) \<or>
   (\<exists>q. ChangeDeviceStateByMultiCommand json_platform ref_host daq_Reset (sample_plugin (sample_device Running)) = (Inl device_error, q) \<and>
      GetCurrentDeviceState ref_host (pw q) = Error)"
  by (rule multi_command_reaches_goal [OF ref_device sample_at_rest])


theorem shutdown_terminates_witness:
  "(\<exists>q w. RunShutdownSequence json_platform ref_host (sample_plugin (sample_device Running)) = (Inr (), q) \<and>
      pw q = ReleaseDeviceControl ref_host w \<and> GetCurrentDeviceState ref_host w \<in> {Exiting, Error}) \<or>
   (\<exists>q. RunShutdownSequence json_platform ref_host (sample_plugin (sample_device Running)) = (Inl device_error, q) \<and>
      GetCurrentDeviceState ref_host (pw q) = Error)"
  by (rule shutdown_terminates [OF ref_device sample_at_rest]) (simp add: resting_def)


theorem foreign_message_ignored_witness:
  "on_message json_platform ref_host ''daqctl'' ''other'' (sample_plugin (sample_device Idle)) =
     (Inr (), sample_plugin (sample_device Idle))"
  by (rule foreign_message_ignored)
    (simp add: json_platform_sel sample_json_def child_values_def ptree_child_def addressed_def)

theorem malformed_message_ends_loop_witness:
  "SubscribeToDaqCommand json_platform ref_host [Message CommandChannelName ''gibberish'', Message CommandChannelName ''exit'']
     (sample_plugin (sample_device Idle)) = (Inr (), sample_plugin (sample_device Idle))"
  by (rule malformed_message_ends_loop)
    (simp_all add: json_platform_sel sample_json_def sample_plugin_def catchable_def)

end
