(* ===== verification/WebControl.thy ===== *)
theory WebControl
  imports Connect DeviceControl
begin

text \<open>
  The web controller (\<^verbatim>\<open>controller/WebGui.cxx\<close>, \<^verbatim>\<open>controller/WebGui.h\<close>): the requests of the web
  clients, the run number, the commands it publishes to the devices and the waiting for their states.
\<close>

section \<open>State\<close>

text \<open>
  What the controller uses beside the registry: INCR, the hooks run by the shell, the writer of JSON
  and FairMQ's reading of a state name.
\<close>

record 'w gui_env =
  rd_incr :: "string \<Rightarrow> 'w \<Rightarrow> int \<times> 'w"
  run_hook :: "string \<Rightarrow> 'w \<Rightarrow> 'w"
  json_write :: "ptree \<Rightarrow> string"
  GetState :: "string \<Rightarrow> nat res"

record inst_state =
  is_state :: string
  is_date :: string

record service_state =
  ss_instances :: "inst_state smap"
  ss_counts :: "nat list"
  ss_date :: string

type_synonym summary = "service_state smap"

text \<open>\<open>gw_sent\<close> are the messages sent, each with the client it goes to; client 0 stands for all.\<close>

record 'w webgui =
  gw_separator :: string
  gw_channel :: string
  gw_functions :: "string list"
  gw_pre_run :: string
  gw_post_run :: string
  gw_pre_stop :: string
  gw_post_stop :: string
  gw_prev :: summary
  gw_sent :: "(nat \<times> string) list"
  gw_world :: 'w

definition on_gw :: "('w \<Rightarrow> 'w) \<Rightarrow> ('w webgui, unit) opn" where
  "on_gw f = modify (\<lambda>g. g\<lparr>gw_world := f (gw_world g)\<rparr>)"

definition Send :: "nat \<Rightarrow> string \<Rightarrow> ('w webgui, unit) opn" where
  "Send connid arg = modify (\<lambda>g. g\<lparr>gw_sent := gw_sent g @ [(connid, arg)]\<rparr>)"

lemma on_gw_apply [op_simps]: "on_gw f g = (Inr (), g\<lparr>gw_world := f (gw_world g)\<rparr>)"
  by (simp add: on_gw_def op_simps)

lemma Send_apply [op_simps]: "Send c a g = (Inr (), g\<lparr>gw_sent := gw_sent g @ [(c, a)]\<rparr>)"
  by (simp add: Send_def op_simps)

lemma seqM_on_gw [op_simps]: "seqM (on_gw f) m g = m (g\<lparr>gw_world := f (gw_world g)\<rparr>)"
  by (simp add: seqM_def bindM_def on_gw_apply)

lemma seqM_Send [op_simps]: "seqM (Send c a) m g = m (g\<lparr>gw_sent := gw_sent g @ [(c, a)]\<rparr>)"
  by (simp add: seqM_def bindM_def Send_apply)

section \<open>The run number\<close>

definition LatestRunNumber :: string where "LatestRunNumber = ''latest_run_number''"
definition WaitDeviceReady :: string where "WaitDeviceReady = ''wait-device-ready''"
definition WaitReady :: string where "WaitReady = ''wait-ready''"

definition knownRunInfoList :: "string list" where
  "knownRunInfoList = [RunNumber, WaitDeviceReady, WaitReady]"

definition run_info_key :: "'w webgui \<Rightarrow> string \<Rightarrow> string" where
  "run_info_key g name = RunInfoPrefix @ gw_separator g @ name"

definition quoted :: "string \<Rightarrow> string" where
  "quoted s = CHR 0x22 # s @ [CHR 0x22]"

text \<open>The error replies are literal JSON texts.\<close>

definition error_reply :: "string \<Rightarrow> string" where
  "error_reply msg = ''{ '' @ quoted ''type'' @ '': '' @ quoted ''error'' @ '', '' @ quoted ''value'' @ '': '' @ quoted msg @ '' }''"

definition value_reply :: "'w gui_env \<Rightarrow> string \<Rightarrow> string \<Rightarrow> string" where
  "value_reply env ty v = json_write env (PTree [] [(''type'', PTree ty []), (''value'', PTree v [])])"

definition CopyLatestRunNumber :: "'w platform \<Rightarrow> 'w gui_env \<Rightarrow> nat \<Rightarrow> ('w webgui, unit) opn" where
  "CopyLatestRunNumber pf env connid =
     bindM (gets (\<lambda>g. rd_get pf (gw_world g) (run_info_key g RunNumber))) (\<lambda>v. case v of
       None \<Rightarrow> Send connid (error_reply ''could not get run number from redis.'')
     | Some n \<Rightarrow>
         bindM (gets (\<lambda>g. run_info_key g LatestRunNumber)) (\<lambda>name.
           seqM (on_gw (rd_run pf (SetKey name n))) (Send connid (value_reply env ''set latest_run_number'' n))))"

definition IncrementRunNumber :: "'w gui_env \<Rightarrow> nat \<Rightarrow> ('w webgui, unit) opn" where
  "IncrementRunNumber env connid =
     bindM (gets (\<lambda>g. rd_incr env (run_info_key g RunNumber) (gw_world g))) (\<lambda>(newValue, w).
       seqM (on_gw (\<lambda>_. w)) (Send connid (value_reply env ''set run_number'' (show_int newValue))))"

definition read_number :: "'w platform \<Rightarrow> 'w gui_env \<Rightarrow> string \<Rightarrow> string \<Rightarrow> string \<Rightarrow> nat \<Rightarrow> ('w webgui, unit) opn" where
  "read_number pf env name missing ty connid =
     bindM (gets (\<lambda>g. rd_get pf (gw_world g) (run_info_key g name))) (\<lambda>v. case v of
       None \<Rightarrow> Send connid (error_reply missing)
     | Some n \<Rightarrow> Send connid (value_reply env ty n))"

definition ReadLatestRunNumber :: "'w platform \<Rightarrow> 'w gui_env \<Rightarrow> nat \<Rightarrow> ('w webgui, unit) opn" where
  "ReadLatestRunNumber pf env =
     read_number pf env LatestRunNumber ''could not get latest run number from redis.'' ''set latest_run_number''"

definition SendRunNumber :: "'w platform \<Rightarrow> 'w gui_env \<Rightarrow> nat \<Rightarrow> ('w webgui, unit) opn" where
  "SendRunNumber pf env = read_number pf env RunNumber ''could not get run number from redis.'' ''set run_number''"

definition RedisGet :: "'w platform \<Rightarrow> 'w gui_env \<Rightarrow> nat \<Rightarrow> ptree \<Rightarrow> ('w webgui, unit) opn" where
  "RedisGet pf env connid arg =
     only_if (ptree_get arg ''value'' = Some ''run_number'')
       (seqM (SendRunNumber pf env connid) (ReadLatestRunNumber pf env connid))"

definition RedisIncr :: "'w gui_env \<Rightarrow> nat \<Rightarrow> ptree \<Rightarrow> ('w webgui, unit) opn" where
  "RedisIncr env connid arg =
     only_if (ptree_get arg ''value'' = Some ''run_number'') (IncrementRunNumber env connid)"

definition RedisSet :: "'w platform \<Rightarrow> nat \<Rightarrow> ptree \<Rightarrow> ('w webgui, unit) opn" where
  "RedisSet pf connid arg =
     (case ptree_get arg ''name'' of None \<Rightarrow> ret ()
      | Some name \<Rightarrow>
          if name \<notin> set knownRunInfoList then ret ()
          else case ptree_get arg ''value'' of None \<Rightarrow> ret ()
            | Some val \<Rightarrow> bindM (gets (\<lambda>g. run_info_key g name)) (\<lambda>key. on_gw (rd_run pf (SetKey key val))))"

section \<open>Waiting for the devices\<close>

definition waitDeviceReadyTargets :: "'w platform \<Rightarrow> string list" where
  "waitDeviceReadyTargets pf = map (GetStateName pf) [DeviceReady, Ready, Running]"

definition waitReadyTargets :: "'w platform \<Rightarrow> string list" where
  "waitReadyTargets pf = map (GetStateName pf) [Ready, Running]"

text \<open>One round of the loop: whether it returns at once (\<open>False\<close>), is done (\<open>True\<close>) or goes on.\<close>

definition wait_verdict :: "'w platform \<Rightarrow> string list \<Rightarrow> string list \<Rightarrow> 'w \<Rightarrow> bool res option" where
  "wait_verdict pf targets patterns w =
     (case scan_merge pf w patterns [] of
        Inl e \<Rightarrow> Some (Inl e)
      | Inr stateKeys \<Rightarrow>
          if stateKeys = [] then Some (Inr False)
          else let states = List.map_filter (\<lambda>x. x) (rd_mget pf w stateKeys)
               in if list_ex (\<lambda>t. list_all (\<lambda>x. x = t) states) targets then Some (Inr True) else None)"

definition wait_keys :: "'w platform \<Rightarrow> string list \<Rightarrow> string list \<Rightarrow> 'w \<Rightarrow> (unit res \<times> 'w) option" where
  "wait_keys pf targets patterns w =
     (case poll (wait_verdict pf targets patterns) (pause pf) w of
        None \<Rightarrow> None
      | Some (Inl e, v) \<Rightarrow> Some (Inl e, v)
      | Some (Inr True, v) \<Rightarrow> Some (Inr (), pause pf v)
      | Some (Inr False, v) \<Rightarrow> Some (Inr (), v))"

definition WaitKeys :: "'w platform \<Rightarrow> string list \<Rightarrow> string list \<Rightarrow> ('w webgui, unit) opn" where
  "WaitKeys pf targets keys g =
     (case wait_keys pf targets (map (\<lambda>k. join [TopPrefix, k, FairMQStatePrefix] (gw_separator g)) keys) (gw_world g) of
        None \<Rightarrow> (Inl NoReturn, g) | Some (r, w) \<Rightarrow> (r, g\<lparr>gw_world := w\<rparr>))"

definition Wait :: "'w platform \<Rightarrow> string list \<Rightarrow> string list \<Rightarrow> string list \<Rightarrow> ('w webgui, unit) opn" where
  "Wait pf targets services instances =
     bindM (gets gw_separator) (\<lambda>sep.
       if ''all'' \<in> set services then WaitKeys pf targets [join [''*'', ''*''] sep]
       else if ''all'' \<in> set instances then
         for_each services (\<lambda>service. WaitKeys pf targets [join [service, ''*''] sep])
       else WaitKeys pf targets instances)"

section \<open>Publishing commands\<close>

definition isWaitFlagSet :: "'w platform \<Rightarrow> 'w webgui \<Rightarrow> string \<Rightarrow> bool" where
  "isWaitFlagSet pf g s =
     (case rd_get pf (gw_world g) (run_info_key g s) of None \<Rightarrow> False | Some v \<Rightarrow> parse_flag v)"

definition toMessage :: "'w gui_env \<Rightarrow> ptree \<Rightarrow> string \<Rightarrow> string res" where
  "toMessage env arg v =
     (case (ptree_child arg ''services'', ptree_child arg ''instances'') of
        (Some s, Some i) \<Rightarrow>
          Inr (json_write env (PTree []
            [(''command'', PTree ''change_state'' []), (''value'', PTree v []), (''services'', s), (''instances'', i)]))
      | _ \<Rightarrow> Inl (Failure ''No such node''))"

definition publish :: "'w platform \<Rightarrow> 'w gui_env \<Rightarrow> ptree \<Rightarrow> string \<Rightarrow> ('w webgui, unit) opn" where
  "publish pf env arg v =
     bindM (lift_res (toMessage env arg v)) (\<lambda>msg.
     bindM (gets gw_channel) (\<lambda>c. on_gw (rd_run pf (Publish c msg))))"

definition hook :: "'w gui_env \<Rightarrow> ('w webgui \<Rightarrow> string) \<Rightarrow> ('w webgui, unit) opn" where
  "hook env sel = bindM (gets sel) (\<lambda>c. on_gw (run_hook env c))"

definition knownCommandList :: "string list" where
  "knownCommandList =
     [cmd_Bind, cmd_CompleteInit, cmd_Connect, cmd_End, cmd_InitDevice, cmd_InitTask, cmd_ResetDevice, cmd_ResetTask,
      cmd_Run, cmd_Stop, daq_Exit, daq_Quit, daq_Reset, daq_Start]"

definition same_ignoring_case :: "string \<Rightarrow> string \<Rightarrow> bool" where
  "same_ignoring_case s t \<longleftrightarrow> to_lower s = to_lower t"

definition publish_command :: "'w platform \<Rightarrow> 'w gui_env \<Rightarrow> ptree \<Rightarrow> string \<Rightarrow> ('w webgui, unit) opn" where
  "publish_command pf env arg v =
     bindM (gets (\<lambda>g. (isWaitFlagSet pf g WaitDeviceReady, isWaitFlagSet pf g WaitReady))) (\<lambda>(waitDeviceReadyFlag, waitReadyFlag).
     bindM (lift_res (child_values arg ''services'')) (\<lambda>services.
     bindM (lift_res (child_values arg ''instances'')) (\<lambda>instances.
       let waitDeviceReady = Wait pf (waitDeviceReadyTargets pf) (remdups services) (remdups instances);
           waitReady = Wait pf (waitReadyTargets pf) (remdups services) (remdups instances)
       in if same_ignoring_case v cmd_Connect then
            seqM (publish pf env arg cmd_Connect) (only_if waitDeviceReadyFlag waitDeviceReady)
          else if same_ignoring_case v cmd_InitTask then
            seqM (only_if waitDeviceReadyFlag (seqM (publish pf env arg cmd_Connect) waitDeviceReady))
           (seqM (publish pf env arg cmd_InitTask) (only_if waitReadyFlag waitReady))
          else if same_ignoring_case v cmd_Run then
            seqM (only_if waitDeviceReadyFlag (seqM (publish pf env arg cmd_Connect) waitDeviceReady))
           (seqM (only_if waitReadyFlag (seqM (publish pf env arg cmd_InitTask) waitReady))
           (seqM (hook env gw_pre_run)
           (seqM (publish pf env arg cmd_Run)
                 (hook env gw_post_run))))
          else if same_ignoring_case v cmd_Stop then
            seqM (hook env gw_pre_stop) (seqM (publish pf env arg cmd_Stop) (hook env gw_post_stop))
          else publish pf env arg v)))"

definition RedisPublishDaqCommand :: "'w platform \<Rightarrow> 'w gui_env \<Rightarrow> nat \<Rightarrow> ptree \<Rightarrow> ('w webgui, unit) opn" where
  "RedisPublishDaqCommand pf env connid arg =
     (case ptree_get arg ''value'' of None \<Rightarrow> ret ()
      | Some v \<Rightarrow>
          seqM (only_if (v = cmd_Run) (CopyLatestRunNumber pf env connid))
               (only_if (v \<in> set knownCommandList) (try_log (publish_command pf env arg v))))"

section \<open>The requests of the clients\<close>

definition InitializeFunctionList :: "string list" where
  "InitializeFunctionList = [''redis-publish'', ''redis-get'', ''redis-set'', ''redis-incr'']"

text \<open>
  \<^verbatim>\<open>fFuncList[key]\<close> adds an empty function for a name it does not have; calling that throws.
\<close>

definition call_function :: "'w platform \<Rightarrow> 'w gui_env \<Rightarrow> string \<Rightarrow> nat \<Rightarrow> ptree \<Rightarrow> ('w webgui, unit) opn" where
  "call_function pf env key connid obj =
     seqM (modify (\<lambda>g. g\<lparr>gw_functions := List.insert key (gw_functions g)\<rparr>))
      (if key = ''redis-publish'' then RedisPublishDaqCommand pf env connid obj
       else if key = ''redis-get'' then RedisGet pf env connid obj
       else if key = ''redis-set'' then RedisSet pf connid obj
       else if key = ''redis-incr'' then RedisIncr env connid obj
       else raise (Failure ''bad_function_call''))"

definition ProcessData :: "'w platform \<Rightarrow> 'w gui_env \<Rightarrow> nat \<Rightarrow> string \<Rightarrow> ('w webgui, unit) opn" where
  "ProcessData pf env connid arg =
     bindM (lift_res (json_read pf arg)) (\<lambda>obj.
       case ptree_get obj ''command'' of None \<Rightarrow> ret () | Some key \<Rightarrow> call_function pf env key connid obj)"

section \<open>What is published\<close>

text \<open>
  \<open>log w\<close> is what has been published so far, in order; sleeping, the hooks and writing a key publish
  nothing, and SET changes its own key only.
\<close>

definition publish_log :: "'w platform \<Rightarrow> 'w gui_env \<Rightarrow> ('w \<Rightarrow> (string \<times> string) list) \<Rightarrow> bool" where
  "publish_log pf env log \<longleftrightarrow>
     (\<forall>c m w. log (rd_run pf (Publish c m) w) = log w @ [(c, m)]) \<and>
     (\<forall>k v w. log (rd_run pf (SetKey k v) w) = log w) \<and>
     (\<forall>k v w q. q \<noteq> k \<longrightarrow> rd_get pf (rd_run pf (SetKey k v) w) q = rd_get pf w q) \<and>
     (\<forall>w. log (pause pf w) = log w) \<and> (\<forall>c w. log (run_hook env c w) = log w)"

text \<open>The commands a request for \<open>v\<close> leads to, by the two wait flags.\<close>

definition expected_commands :: "string \<Rightarrow> bool \<Rightarrow> bool \<Rightarrow> string list" where
  "expected_commands v waitDeviceReady waitReady =
     (if v = cmd_InitTask then (if waitDeviceReady then [cmd_Connect] else []) @ [cmd_InitTask]
      else if v = cmd_Run then
        (if waitDeviceReady then [cmd_Connect] else []) @ (if waitReady then [cmd_InitTask] else []) @ [cmd_Run]
      else [v])"

definition message_tree :: "ptree \<Rightarrow> ptree \<Rightarrow> string \<Rightarrow> ptree" where
  "message_tree s i v =
     PTree [] [(''command'', PTree ''change_state'' []), (''value'', PTree v []), (''services'', s), (''instances'', i)]"

text \<open>
  The operation publishes \<open>cs\<close>: it returns after all of it, or stops after a prefix of it and never
  returns.
\<close>

definition emits :: "('w \<Rightarrow> (string \<times> string) list) \<Rightarrow> string \<Rightarrow> ('w webgui, 'a) opn \<Rightarrow> (string \<times> string) list \<Rightarrow> bool" where
  "emits log ch m cs \<longleftrightarrow>
     (\<forall>g. gw_channel g = ch \<longrightarrow>
        (\<exists>sent rest. cs = sent @ rest \<and> log (gw_world (snd (m g))) = log (gw_world g) @ sent \<and>
           gw_channel (snd (m g)) = ch \<and> (fst (m g) = Inl NoReturn \<or> \<not> isl (fst (m g)) \<and> rest = [])))"

lemma emits_seqM:
  assumes "emits log ch m cs" and "emits log ch n ds"
  shows "emits log ch (seqM m n) (cs @ ds)"
  unfolding emits_def
proof (intro allI impI)
  fix g :: "'a webgui" assume g: "gw_channel g = ch"
  obtain r h where rh: "m g = (r, h)" by fastforce
  obtain sent rest where 1: "cs = sent @ rest" "log (gw_world h) = log (gw_world g) @ sent" "gw_channel h = ch"
    "r = Inl NoReturn \<or> \<not> isl r \<and> rest = []"
    using assms(1) [unfolded emits_def, rule_format, OF g] unfolding rh fst_conv snd_conv by blast
  show "\<exists>sent rest. cs @ ds = sent @ rest \<and> log (gw_world (snd (seqM m n g))) = log (gw_world g) @ sent \<and>
      gw_channel (snd (seqM m n g)) = ch \<and> (fst (seqM m n g) = Inl NoReturn \<or> \<not> isl (fst (seqM m n g)) \<and> rest = [])"
  proof (cases r)
    case (Inl e)
    with 1 rh show ?thesis by (intro exI [of _ sent] exI [of _ "rest @ ds"]) (simp add: seqM_def bindM_def)
  next
    case (Inr u)
    then have run: "seqM m n g = n h" using rh by (simp add: seqM_def bindM_def)
    obtain sent' rest' where 2: "ds = sent' @ rest'" "log (gw_world (snd (n h))) = log (gw_world h) @ sent'"
      "gw_channel (snd (n h)) = ch" "fst (n h) = Inl NoReturn \<or> \<not> isl (fst (n h)) \<and> rest' = []"
      using assms(2) 1(3) unfolding emits_def by blast
    show ?thesis
      using 1 2 Inr by (intro exI [of _ "sent @ sent'"] exI [of _ rest']) (simp add: run)
  qed
qed

lemma emits_quiet:
  assumes "\<And>g. log (gw_world (snd (m g))) = log (gw_world g) \<and> gw_channel (snd (m g)) = gw_channel g"
    and "\<And>g. fst (m g) = Inl NoReturn \<or> \<not> isl (fst (m g))"
  shows "emits log ch m []"
  unfolding emits_def using assms by simp

lemma emits_only_if: "emits log ch m cs \<Longrightarrow> emits log ch (only_if b m) (if b then cs else [])"
  by (cases b) (auto simp: emits_def only_if_def op_simps)

lemma pauses_log: "publish_log pf env log \<Longrightarrow> log ((pause pf ^^ n) w) = log w"
  by (induction n) (simp_all add: publish_log_def)

lemma scan_merge_fault: "scan_merge pf w ps keys = Inl e \<Longrightarrow> e = NoReturn"
  by (induction ps arbitrary: keys) (auto simp: bindR_Inl_iff scan_def split: option.splits)

lemma wait_keys_fault:
  assumes "wait_keys pf targets ps w = Some (Inl e, v)"
  shows "e = NoReturn"
proof -
  from assms have "poll (wait_verdict pf targets ps) (pause pf) w = Some (Inl e, v)"
    by (auto simp: wait_keys_def split: option.splits sum.splits bool.splits)
  then have "wait_verdict pf targets ps v = Some (Inl e)" by (auto simp: poll_Some)
  then show ?thesis
    by (auto simp: wait_verdict_def Let_def dest: scan_merge_fault split: sum.splits if_splits)
qed

lemma emits_WaitKeys:
  assumes "publish_log pf env log"
  shows "emits log ch (WaitKeys pf targets keys) []"
proof (rule emits_quiet)
  fix g :: "'a webgui"
  let ?ps = "map (\<lambda>k. join [TopPrefix, k, FairMQStatePrefix] (gw_separator g)) keys"
  have log: "log v = log (gw_world g)" if "wait_keys pf targets ?ps (gw_world g) = Some (r, v)" for r v
  proof -
    from that obtain x u where x: "poll (wait_verdict pf targets ?ps) (pause pf) (gw_world g) = Some (x, u)" "v = u \<or> v = pause pf u"
      by (auto simp: wait_keys_def split: option.splits sum.splits bool.splits)
    then obtain n where "u = (pause pf ^^ n) (gw_world g)" by (auto simp: poll_Some)
    with x(2) pauses_log [OF assms, of n] assms show ?thesis by (auto simp: publish_log_def)
  qed
  then show "log (gw_world (snd (WaitKeys pf targets keys g))) = log (gw_world g) \<and>
      gw_channel (snd (WaitKeys pf targets keys g)) = gw_channel g"
    by (simp add: WaitKeys_def split: option.split)
  show "fst (WaitKeys pf targets keys g) = Inl NoReturn \<or> \<not> isl (fst (WaitKeys pf targets keys g))"
    using wait_keys_fault by (auto simp: WaitKeys_def isl_def split: option.split)
qed

lemma emits_bindM_gets: "(\<And>a. emits log ch (f a) cs) \<Longrightarrow> emits log ch (bindM (gets h) f) cs"
  by (simp add: emits_def op_simps)

lemma emits_for_each: "(\<And>x. emits log ch (m x) []) \<Longrightarrow> emits log ch (for_each xs m) []"
proof (induction xs)
  case (Cons x xs)
  then have "emits log ch (seqM (m x) (for_each xs m)) ([] @ [])" by (intro emits_seqM) auto
  then show ?case by simp
qed (simp add: emits_def op_simps)

lemma emits_Wait: "publish_log pf env log \<Longrightarrow> emits log ch (Wait pf targets services instances) []"
  unfolding Wait_def by (intro emits_bindM_gets) (auto intro: emits_WaitKeys emits_for_each)

lemma emits_hook: "publish_log pf env log \<Longrightarrow> emits log ch (hook env sel) []"
  by (rule emits_quiet) (simp_all add: hook_def op_simps publish_log_def)

lemma emits_publish:
  assumes "publish_log pf env log" and "ptree_child arg ''services'' = Some s" and "ptree_child arg ''instances'' = Some i"
  shows "emits log ch (publish pf env arg v) [(ch, json_write env (message_tree s i v))]"
  unfolding emits_def publish_def toMessage_def assms(2,3)
  using assms(1) by (simp add: op_simps bindM_def publish_log_def message_tree_def)

text \<open>The case of a known command is never wrong.\<close>

lemma lower_commands:
  "to_lower cmd_Bind = ''bind''" "to_lower cmd_CompleteInit = ''complete init''" "to_lower cmd_Connect = ''connect''"
  "to_lower cmd_End = ''end''" "to_lower cmd_InitDevice = ''init device''" "to_lower cmd_InitTask = ''init task''"
  "to_lower cmd_ResetDevice = ''reset device''" "to_lower cmd_ResetTask = ''reset task''" "to_lower cmd_Run = ''run''"
  "to_lower cmd_Stop = ''stop''" "to_lower daq_Exit = ''exit''" "to_lower daq_Quit = ''quit''"
  "to_lower daq_Reset = ''reset''" "to_lower daq_Start = ''start''"
  by code_simp+

lemma known_case:
  "list_all (\<lambda>v. list_all (\<lambda>c. same_ignoring_case v c = (v = c)) [cmd_Connect, cmd_InitTask, cmd_Run, cmd_Stop]) knownCommandList"
  by (simp add: knownCommandList_def same_ignoring_case_def lower_commands, simp add: command_names)

lemma same_case:
  assumes "v \<in> set knownCommandList"
  shows "same_ignoring_case v cmd_Connect = (v = cmd_Connect)" "same_ignoring_case v cmd_InitTask = (v = cmd_InitTask)"
    "same_ignoring_case v cmd_Run = (v = cmd_Run)" "same_ignoring_case v cmd_Stop = (v = cmd_Stop)"
  using known_case assms by (simp_all add: list_all_iff)

lemma publish_command_emits:
  assumes log: "publish_log pf env log" and v: "v \<in> set knownCommandList"
    and child: "ptree_child arg ''services'' = Some s" "ptree_child arg ''instances'' = Some i"
    and f1: "isWaitFlagSet pf g WaitDeviceReady = f1" and f2: "isWaitFlagSet pf g WaitReady = f2"
  shows "\<exists>m. publish_command pf env arg v g = m g \<and>
    emits log ch m (map (\<lambda>c. (ch, json_write env (message_tree s i c))) (expected_commands v f1 f2))"
proof -
  note pub = emits_publish [OF log child] and wait = emits_Wait [OF log] and hook = emits_hook [OF log]
  let ?ss = "map (\<lambda>(_, x). pt_data x) (pt_children s)" and ?is = "map (\<lambda>(_, x). pt_data x) (pt_children i)"
  have kids: "child_values arg ''services'' = Inr ?ss" "child_values arg ''instances'' = Inr ?is"
    by (simp_all add: child_values_def child)
  let ?wd = "Wait pf (waitDeviceReadyTargets pf) (remdups ?ss) (remdups ?is)" and ?wr = "Wait pf (waitReadyTargets pf) (remdups ?ss) (remdups ?is)"
  note seqs = emits_seqM [OF pub emits_only_if [OF wait]]
  let ?m = "if v = cmd_Connect then seqM (publish pf env arg cmd_Connect) (only_if f1 ?wd)
          else if v = cmd_InitTask then
            seqM (only_if f1 (seqM (publish pf env arg cmd_Connect) ?wd))
           (seqM (publish pf env arg cmd_InitTask) (only_if f2 ?wr))
          else if v = cmd_Run then
            seqM (only_if f1 (seqM (publish pf env arg cmd_Connect) ?wd))
           (seqM (only_if f2 (seqM (publish pf env arg cmd_InitTask) ?wr))
           (seqM (hook env gw_pre_run)
           (seqM (publish pf env arg cmd_Run)
                 (hook env gw_post_run))))
          else if v = cmd_Stop then
            seqM (hook env gw_pre_stop) (seqM (publish pf env arg cmd_Stop) (hook env gw_post_stop))
          else publish pf env arg v"
  have "publish_command pf env arg v g = ?m g"
    unfolding publish_command_def bindM_gets prod.case f1 f2 kids same_case [OF v] Let_def
    by (simp add: op_simps bindM_def)
  moreover
  let ?msg = "\<lambda>c. (ch, json_write env (message_tree s i c))"
  have pw: "emits log ch (seqM (publish pf env arg c) (Wait pf t x y)) [?msg c]" for c t x y
  proof -
    have "emits log ch (seqM (publish pf env arg c) (Wait pf t x y)) ([?msg c] @ [])" by (intro emits_seqM pub wait)
    then show ?thesis by simp
  qed
  have conn: "emits log ch (only_if f1 (seqM (publish pf env arg cmd_Connect) ?wd)) (if f1 then [?msg cmd_Connect] else [])"
    by (rule emits_only_if [OF pw])
  have init: "emits log ch (only_if f2 (seqM (publish pf env arg cmd_InitTask) ?wr)) (if f2 then [?msg cmd_InitTask] else [])"
    by (rule emits_only_if [OF pw])
  have run: "emits log ch (seqM (hook env a) (seqM (publish pf env arg c) (hook env b))) [?msg c]" for a b c
  proof -
    have "emits log ch (seqM (hook env a) (seqM (publish pf env arg c) (hook env b))) ([] @ [?msg c] @ [])"
      by (intro emits_seqM pub hook)
    then show ?thesis by simp
  qed
  have first: "emits log ch (seqM (publish pf env arg c) (only_if b (Wait pf t x y))) [?msg c]" for b c t x y
  proof -
    have "emits log ch (seqM (publish pf env arg c) (only_if b (Wait pf t x y))) ([?msg c] @ (if b then [] else []))"
      by (intro emits_seqM pub emits_only_if wait)
    then show ?thesis by simp
  qed
  have distinct: "cmd_Connect \<noteq> cmd_InitTask" "cmd_Stop \<noteq> cmd_Connect" "cmd_Connect \<noteq> cmd_Run" "cmd_Stop \<noteq> cmd_InitTask" "cmd_Stop \<noteq> cmd_Run" "cmd_InitTask \<noteq> cmd_Run"
    by (simp_all add: command_names)
  have task: "emits log ch (seqM (only_if f1 (seqM (publish pf env arg cmd_Connect) ?wd))
           (seqM (publish pf env arg cmd_InitTask) (only_if f2 ?wr))) ((if f1 then [?msg cmd_Connect] else []) @ [?msg cmd_InitTask])"
    by (intro emits_seqM conn first)
  have full: "emits log ch (seqM (only_if f1 (seqM (publish pf env arg cmd_Connect) ?wd))
           (seqM (only_if f2 (seqM (publish pf env arg cmd_InitTask) ?wr))
           (seqM (hook env gw_pre_run) (seqM (publish pf env arg cmd_Run) (hook env gw_post_run)))))
        ((if f1 then [?msg cmd_Connect] else []) @ (if f2 then [?msg cmd_InitTask] else []) @ [?msg cmd_Run])"
    by (intro emits_seqM conn init run)
  have "emits log ch ?m (map ?msg (expected_commands v f1 f2))"
  proof -
    consider "v = cmd_InitTask" | "v = cmd_Run" | "v = cmd_Connect" | "v = cmd_Stop"
      | "v \<notin> {cmd_InitTask, cmd_Run, cmd_Connect, cmd_Stop}" by blast
    then show ?thesis
    proof cases
      case 1
      then have "map ?msg (expected_commands v f1 f2) = (if f1 then [?msg cmd_Connect] else []) @ [?msg cmd_InitTask]"
        by (simp add: expected_commands_def)
      with task 1 distinct show ?thesis by (simp only: if_True if_False simp_thms distinct [symmetric])
    next
      case 2
      then have "map ?msg (expected_commands v f1 f2) =
          (if f1 then [?msg cmd_Connect] else []) @ (if f2 then [?msg cmd_InitTask] else []) @ [?msg cmd_Run]"
        using distinct by (simp add: expected_commands_def)
      with full 2 distinct show ?thesis by (simp only: if_True if_False simp_thms distinct [symmetric])
    next
      case 3
      then show ?thesis using first [of cmd_Connect] distinct by (simp add: expected_commands_def)
    next
      case 4
      then show ?thesis using run [of gw_pre_stop cmd_Stop gw_post_stop] distinct by (simp add: expected_commands_def)
    next
      case 5
      then show ?thesis using pub [of ch v] by (simp add: expected_commands_def)
    qed
  qed
  ultimately show ?thesis by blast
qed

lemma CopyLatestRunNumber_quiet:
  assumes "publish_log pf env log"
  shows "fst (CopyLatestRunNumber pf env connid g) = Inr ()"
    "log (gw_world (snd (CopyLatestRunNumber pf env connid g))) = log (gw_world g)"
    "gw_channel (snd (CopyLatestRunNumber pf env connid g)) = gw_channel g"
  using assms by (simp_all add: CopyLatestRunNumber_def op_simps publish_log_def split: option.split)

lemma CopyLatestRunNumber_flag:
  assumes "publish_log pf env log" and "name \<in> {WaitDeviceReady, WaitReady}"
  shows "isWaitFlagSet pf (snd (CopyLatestRunNumber pf env connid g)) name = isWaitFlagSet pf g name"
proof -
  have "rd_get pf (rd_run pf (SetKey k v) w) q = rd_get pf w q" if "q \<noteq> k" for k v w q
    using assms(1) that by (simp add: publish_log_def)
  then show ?thesis
    using assms(2) by (auto simp: CopyLatestRunNumber_def isWaitFlagSet_def op_simps run_info_key_def
        LatestRunNumber_def WaitDeviceReady_def WaitReady_def split: option.split)
qed

lemma try_log_emits:
  assumes "emits log ch m cs" and "gw_channel g = ch"
  shows "\<exists>sent rest. cs = sent @ rest \<and> log (gw_world (snd (try_log m g))) = log (gw_world g) @ sent \<and>
    (fst (try_log m g) = Inl NoReturn \<or> fst (try_log m g) = Inr () \<and> rest = [])"
proof -
  obtain r h where rh: "m g = (r, h)" by fastforce
  have t: "fst (try_log m g) = (case r of Inl e \<Rightarrow> (if catchable e then Inr () else Inl e) | Inr u \<Rightarrow> Inr u)"
    by (simp add: try_log_def rh split: sum.split)
  have "r = Inl NoReturn \<or> \<not> isl r \<longleftrightarrow> r = Inl NoReturn \<or> r = Inr ()" by (cases r) auto
  obtain sent rest where "cs = sent @ rest" "log (gw_world h) = log (gw_world g) @ sent" "r = Inl NoReturn \<or> \<not> isl r \<and> rest = []"
    using assms unfolding emits_def by (metis rh fst_conv snd_conv)
  moreover have "fst (try_log m g) = Inl NoReturn" if "r = Inl NoReturn" using that by (simp add: t catchable_def)
  moreover have "fst (try_log m g) = Inr ()" if "\<not> isl r" using that by (cases r) (simp_all add: t)
  ultimately show ?thesis using rh by (intro exI [of _ sent] exI [of _ rest]) auto
qed

lemma request_emits:
  assumes "publish_log pf env log" and "v \<in> set knownCommandList" and "ptree_get arg ''value'' = Some v"
    and "ptree_child arg ''services'' = Some s" and "ptree_child arg ''instances'' = Some i"
  shows "\<exists>sent rest.
    expected_commands v (isWaitFlagSet pf g WaitDeviceReady) (isWaitFlagSet pf g WaitReady) = sent @ rest \<and>
    log (gw_world (snd (RedisPublishDaqCommand pf env connid arg g))) =
      log (gw_world g) @ map (\<lambda>c. (gw_channel g, json_write env (message_tree s i c))) sent \<and>
    (fst (RedisPublishDaqCommand pf env connid arg g) = Inl NoReturn \<or>
     fst (RedisPublishDaqCommand pf env connid arg g) = Inr () \<and> rest = [])"
proof -
  define h where "h = (if v = cmd_Run then snd (CopyLatestRunNumber pf env connid g) else g)"
  note quiet = CopyLatestRunNumber_quiet [OF assms(1), of connid g]
  have run: "RedisPublishDaqCommand pf env connid arg g = try_log (publish_command pf env arg v) h"
    using quiet(1) by (cases "CopyLatestRunNumber pf env connid g")
      (simp add: RedisPublishDaqCommand_def assms(2,3) only_if_def h_def seqM_def bindM_def op_simps)
  have h: "log (gw_world h) = log (gw_world g)" "gw_channel h = gw_channel g"
    "isWaitFlagSet pf h WaitDeviceReady = isWaitFlagSet pf g WaitDeviceReady"
    "isWaitFlagSet pf h WaitReady = isWaitFlagSet pf g WaitReady"
    by (simp_all add: h_def quiet CopyLatestRunNumber_flag [OF assms(1)])
  obtain m where m: "publish_command pf env arg v h = m h" and
    "emits log (gw_channel g) m (map (\<lambda>c. (gw_channel g, json_write env (message_tree s i c)))
      (expected_commands v (isWaitFlagSet pf h WaitDeviceReady) (isWaitFlagSet pf h WaitReady)))"
    using publish_command_emits [OF assms(1,2,4,5) refl refl] by blast
  from try_log_emits [OF this(2) h(2)] obtain sent rest where
    "map (\<lambda>c. (gw_channel g, json_write env (message_tree s i c)))
      (expected_commands v (isWaitFlagSet pf g WaitDeviceReady) (isWaitFlagSet pf g WaitReady)) = sent @ rest"
    "log (gw_world (snd (try_log m h))) = log (gw_world g) @ sent"
    "fst (try_log m h) = Inl NoReturn \<or> fst (try_log m h) = Inr () \<and> rest = []"
    unfolding h by blast
  moreover have "try_log (publish_command pf env arg v) h = try_log m h" by (simp add: try_log_def m)
  ultimately show ?thesis unfolding run by (auto simp: map_eq_append_conv)
qed

lemma request_published:
  assumes "publish_log pf env log" and "v \<in> set knownCommandList" and "ptree_get arg ''value'' = Some v"
    and "ptree_child arg ''services'' = Some s" and "ptree_child arg ''instances'' = Some i"
    and "RedisPublishDaqCommand pf env connid arg g = (Inr (), h)"
  shows "log (gw_world h) = log (gw_world g) @ map (\<lambda>c. (gw_channel g, json_write env (message_tree s i c)))
    (expected_commands v (isWaitFlagSet pf g WaitDeviceReady) (isWaitFlagSet pf g WaitReady))"
  using request_emits [OF assms(1-5), of g connid] assms(6) by auto


record gui_world = world +
  published :: "(string \<times> string) list"

text \<open>A registry that remembers what is published, and a writer of JSON that keeps the command only.\<close>

definition gui_platform :: "gui_world platform" where
  "gui_platform = ref_platform\<lparr>rd_run := \<lambda>c w.
     (case c of Publish ch m \<Rightarrow> w\<lparr>published := published w @ [(ch, m)]\<rparr> | _ \<Rightarrow> ref_run c w),
     json_read := sample_json\<rparr>"

definition sample_env :: "gui_world gui_env" where
  "sample_env = \<lparr>rd_incr = \<lambda>k w. (1, ref_run (SetKey k ''1'') w), run_hook = \<lambda>c w. w,
     json_write = \<lambda>t. (case ptree_get t ''value'' of None \<Rightarrow> [] | Some v \<Rightarrow> v), GetState = \<lambda>s. Inr (if s = ''READY'' then 11 else 3)\<rparr>"

definition sample_gui :: "(string \<times> rvalue) list \<Rightarrow> gui_world webgui" where
  "sample_gui st = \<lparr>gw_separator = '':'', gw_channel = ''daqctl'', gw_functions = InitializeFunctionList,
     gw_pre_run = [], gw_post_run = [], gw_pre_stop = [], gw_post_stop = [], gw_prev = [], gw_sent = [],
     gw_world = \<lparr>store = st, props = [], canceled = False, pauses = 0, published = []\<rparr>\<rparr>"

definition sample_run :: ptree where
  "sample_run = PTree [] [(''value'', PTree ''RUN'' []), (''services'', PTree [] []), (''instances'', PTree [] [])]"

lemma ref_run_published: "published (ref_run c w) = published w"
  by (simp add: ref_run_def Let_def)

lemma rd_run_gui:
  "rd_run gui_platform c w = (case c of Publish ch m \<Rightarrow> w\<lparr>published := published w @ [(ch, m)]\<rparr> | _ \<Rightarrow> ref_run c w)"
  by (simp add: gui_platform_def)

lemma gui_platform_sel:
  "rd_get gui_platform = rd_get ref_platform" "rd_mget gui_platform = rd_mget ref_platform"
  "rd_hget gui_platform = rd_hget ref_platform" "rd_hgetall gui_platform = rd_hgetall ref_platform"
  "rd_lrange gui_platform = rd_lrange ref_platform" "rd_scan gui_platform = rd_scan ref_platform"
  "pause gui_platform = pause ref_platform" "json_read gui_platform = sample_json"
  "GetStateName gui_platform = ref_state_name"
  by (simp_all add: gui_platform_def ref_sel)

lemma gui_server: "redis_server gui_platform ref_view glob"
proof -
  have cursor: "scan_cursor gui_platform w pat i = scan_cursor ref_platform w pat i" for w pat i
    by (induction i) (simp_all add: gui_platform_sel)
  have "ref_view (rd_run gui_platform c w) = cmd_effect c (ref_view w)" for c w
    unfolding rd_run_gui
  proof (cases c)
    case (Publish x1 x2)
    then show "ref_view (case c of Publish ch m \<Rightarrow> w\<lparr>published := published w @ [(ch, m)]\<rparr> | _ \<Rightarrow> ref_run c w) = cmd_effect c (ref_view w)"
      by (simp add: ref_view_def)
  qed (simp_all only: redis_cmd.case ref_view_run)
  with ref_redis_server [where 'a = "\<lparr>published :: (string \<times> string) list\<rparr>"] show ?thesis
    unfolding redis_server_def redis_reads_def scan_guarantee_def cursor gui_platform_sel by blast
qed

lemma gui_publish_log: "publish_log gui_platform sample_env published"
proof -
  have "rd_get gui_platform (rd_run gui_platform (SetKey k v) w) q = rd_get gui_platform w q" if "q \<noteq> k" for k v w q
    using that ref_view_run [of "SetKey k v" w, unfolded ref_view_def]
    by (simp add: rd_run_gui gui_platform_sel ref_sel)
  then show ?thesis
    by (simp add: publish_log_def rd_run_gui gui_platform_sel ref_run_published ref_sel sample_env_def)
qed


section \<open>What a request can change\<close>

text \<open>
  A run without the lists of services and instances: \<open>toMessage\<close> throws and nothing is published, but
  the run number has been copied before.
\<close>

lemma child_values_missing: "ptree_child t n = None \<Longrightarrow> \<exists>m. child_values t n = Inl (Failure m)"
  by (simp add: child_values_def)

text \<open>
  A RUN request without a service list is dropped: nothing is published. The latest run number has
  been overwritten all the same, and the client is told so.
\<close>

theorem dropped_run_recorded:
  assumes "redis_server pf view mt" and "publish_log pf env log"
    and "ptree_get arg ''value'' = Some cmd_Run" and "ptree_child arg ''services'' = None"
    and "view (gw_world g) (run_info_key g RunNumber) = Some (RStr n)"
  shows "\<exists>h. RedisPublishDaqCommand pf env connid arg g = (Inr (), h) \<and>
    log (gw_world h) = log (gw_world g) \<and>
    view (gw_world h) = (view (gw_world g))(run_info_key g LatestRunNumber \<mapsto> RStr n) \<and>
    gw_sent h = gw_sent g @ [(connid, value_reply env ''set latest_run_number'' n)]"
proof -
  define h where "h = g\<lparr>gw_world := rd_run pf (SetKey (run_info_key g LatestRunNumber) n) (gw_world g),
    gw_sent := gw_sent g @ [(connid, value_reply env ''set latest_run_number'' n)]\<rparr>"
  have "rd_get pf (gw_world g) (run_info_key g RunNumber) = Some n"
    using assms(5) redis_reads [OF assms(1)] by (simp add: redis_reads_def)
  then have copy: "CopyLatestRunNumber pf env connid g = (Inr (), h)"
    by (simp add: CopyLatestRunNumber_def op_simps h_def)
  obtain m where "child_values arg ''services'' = Inl (Failure m)" using child_values_missing [OF assms(4)] by blast
  then have "publish_command pf env arg cmd_Run h = (Inl (Failure m), h)"
    by (simp add: publish_command_def op_simps bindM_def)
  then have "RedisPublishDaqCommand pf env connid arg g = (Inr (), h)"
    by (simp add: RedisPublishDaqCommand_def assms(3) only_if_def seqM_def bindM_def copy try_log_def catchable_def
        knownCommandList_def)
  moreover have "log (gw_world h) = log (gw_world g)" using assms(2) by (simp add: h_def publish_log_def)
  moreover have "view (gw_world h) = (view (gw_world g))(run_info_key g LatestRunNumber \<mapsto> RStr n)"
    by (simp add: h_def view_run [OF assms(1)])
  ultimately show ?thesis by (auto simp: h_def)
qed

theorem dropped_run_recorded_witness:
  "\<exists>h. RedisPublishDaqCommand gui_platform sample_env 1 (PTree [] [(''value'', PTree ''RUN'' [])])
      (sample_gui [(''run_info:run_number'', RStr ''12'')]) = (Inr (), h) \<and>
    published (gw_world h) = [] \<and>
    ref_view (gw_world h) = [''run_info:run_number'' \<mapsto> RStr ''12'', ''run_info:latest_run_number'' \<mapsto> RStr ''12''] \<and>
    gw_sent h = [(1, ''12'')]"
proof -
  let ?g = "sample_gui [(''run_info:run_number'', RStr ''12'')]" and ?r = "PTree [] [(''value'', PTree ''RUN'' [])]"
  have "ptree_get ?r ''value'' = Some cmd_Run" "ptree_child ?r ''services'' = None"
    by (simp_all add: ptree_get_def ptree_child_def command_names)
  moreover have "run_info_key ?g RunNumber = ''run_info:run_number''"
      "run_info_key ?g LatestRunNumber = ''run_info:latest_run_number''"
    by (simp_all add: run_info_key_def sample_gui_def RunInfoPrefix_def RunNumber_def LatestRunNumber_def)
  moreover have "ref_view (gw_world ?g) = [''run_info:run_number'' \<mapsto> RStr ''12'']"
    by (simp add: sample_gui_def ref_view_def)
  moreover have "value_reply sample_env ty v = v" for ty v
    by (simp add: value_reply_def sample_env_def ptree_get_def ptree_child_def)
  moreover have "published (gw_world ?g) = []" "gw_sent ?g = []" by (simp_all add: sample_gui_def)
  ultimately show ?thesis
    using dropped_run_recorded [OF gui_server gui_publish_log, of ?r ?g "''12''" 1] by simp
qed

text \<open>\<open>q\<close> holds \<open>x\<close> and the settings of the controller are as at the start.\<close>

definition untouched :: "('w \<Rightarrow> keyspace) \<Rightarrow> string \<Rightarrow> string \<Rightarrow> rvalue option \<Rightarrow> 'w webgui \<Rightarrow> bool" where
  "untouched view sep q x g \<longleftrightarrow> gw_separator g = sep \<and> view (gw_world g) q = x"

text \<open>
  Nobody else writes \<open>q\<close>: neither the other clients of the registry while the controller sleeps, nor the
  hooks; INCR writes its own key.
\<close>

definition unattended :: "'w platform \<Rightarrow> 'w gui_env \<Rightarrow> ('w \<Rightarrow> keyspace) \<Rightarrow> string \<Rightarrow> bool" where
  "unattended pf env view q \<longleftrightarrow>
     (\<forall>w. view (pause pf w) q = view w q) \<and> (\<forall>c w. view (run_hook env c w) q = view w q) \<and>
     (\<forall>k w. q \<noteq> k \<longrightarrow> view (snd (rd_incr env k w)) q = view w q)"

lemma keeps_bindM_gets: "(\<And>a. keeps I (f a)) \<Longrightarrow> keeps I (bindM (gets h) f)"
  by (intro keeps_bindM keeps_gets)

lemma untouched_Send [intro]: "keeps (untouched view sep q x) (Send c a)"
  by (auto simp: keeps_def Send_apply untouched_def)

lemma untouched_on_gw: "(\<And>w. view (f w) q = view w q) \<Longrightarrow> keeps (untouched view sep q x) (on_gw f)"
  by (simp add: keeps_def on_gw_apply untouched_def)

definition run_keys :: "string \<Rightarrow> string set" where
  "run_keys sep = (\<lambda>name. RunInfoPrefix @ sep @ name) ` {RunNumber, LatestRunNumber, WaitDeviceReady, WaitReady}"

lemma run_keyI:
  assumes "q \<notin> run_keys sep" and "untouched view sep q x g" and "name \<in> {RunNumber, LatestRunNumber, WaitDeviceReady, WaitReady}"
  shows "q \<noteq> run_info_key g name"
  using assms by (auto simp: run_keys_def untouched_def run_info_key_def)

lemma untouched_set_key:
  assumes "redis_server pf view mt" and "q \<notin> run_keys sep" and "name \<in> {RunNumber, LatestRunNumber, WaitDeviceReady, WaitReady}"
  shows "keeps (untouched view sep q x) (bindM (gets (\<lambda>g. run_info_key g name)) (\<lambda>k. on_gw (rd_run pf (SetKey k n))))"
  using run_keyI [OF assms(2)] assms(3)
  by (auto simp: keeps_def op_simps untouched_def view_run [OF assms(1)])

lemma untouched_CopyLatestRunNumber:
  assumes "redis_server pf view mt" and "q \<notin> run_keys sep"
  shows "keeps (untouched view sep q x) (CopyLatestRunNumber pf env connid)"
  using run_keyI [OF assms(2), of view x _ LatestRunNumber]
  by (auto simp: keeps_def CopyLatestRunNumber_def op_simps untouched_def view_run [OF assms(1)] split: option.split)

lemma untouched_IncrementRunNumber:
  assumes "unattended pf env view q" and "q \<notin> run_keys sep"
  shows "keeps (untouched view sep q x) (IncrementRunNumber env connid)"
  unfolding keeps_def
proof (intro allI impI)
  fix g assume g: "untouched view sep q x g"
  then have "q \<noteq> run_info_key g RunNumber" by (intro run_keyI [OF assms(2)]) auto
  then have "view (snd (rd_incr env (run_info_key g RunNumber) (gw_world g))) q = view (gw_world g) q"
    using assms(1) by (simp add: unattended_def)
  with g show "untouched view sep q x (snd (IncrementRunNumber env connid g))"
    by (auto simp: IncrementRunNumber_def op_simps untouched_def split: prod.split)
qed

lemma untouched_read_number: "keeps (untouched view sep q x) (read_number pf env name missing ty connid)"
  unfolding read_number_def by (intro keeps_bindM_gets) (auto split: option.split)

lemma untouched_pauses: "unattended pf env view q \<Longrightarrow> view ((pause pf ^^ n) w) q = view w q"
  by (induction n) (simp_all add: unattended_def)

lemma wait_keys_pauses:
  assumes "wait_keys pf targets ps w = Some (r, v)"
  shows "\<exists>n. v = (pause pf ^^ n) w"
proof -
  from assms obtain y u where u: "poll (wait_verdict pf targets ps) (pause pf) w = Some (y, u)" "v = u \<or> v = pause pf u"
    by (auto simp: wait_keys_def split: option.splits sum.splits bool.splits)
  then obtain n where "u = (pause pf ^^ n) w" by (auto simp: poll_Some)
  with u(2) have "v = (pause pf ^^ n) w \<or> v = (pause pf ^^ Suc n) w" by auto
  then show ?thesis by blast
qed

lemma untouched_WaitKeys:
  assumes "unattended pf env view q"
  shows "keeps (untouched view sep q x) (WaitKeys pf targets keys)"
  unfolding keeps_def
proof (intro allI impI)
  fix g assume g: "untouched view sep q x g"
  have "view v q = view (gw_world g) q" if w: "wait_keys pf targets ps (gw_world g) = Some (r, v)" for ps r v
  proof -
    obtain n where "v = (pause pf ^^ n) (gw_world g)" using wait_keys_pauses [OF w] by blast
    then show ?thesis by (simp add: untouched_pauses [OF assms])
  qed
  with g show "untouched view sep q x (snd (WaitKeys pf targets keys g))"
    by (auto simp: WaitKeys_def untouched_def split: option.split)
qed

lemma untouched_publish:
  assumes "redis_server pf view mt"
  shows "keeps (untouched view sep q x) (publish pf env arg v)"
  unfolding publish_def
  by (intro keeps_bindM keeps_lift_res keeps_gets untouched_on_gw) (simp add: view_run [OF assms])

lemma untouched_publish_command:
  assumes server: "redis_server pf view mt" and only: "unattended pf env view q"
  shows "keeps (untouched view sep q x) (publish_command pf env arg v)"
proof -
  have hook: "keeps (untouched view sep q x) (hook env sel)" for sel
    using only unfolding hook_def by (intro keeps_bindM_gets untouched_on_gw) (simp add: unattended_def)
  have wait: "keeps (untouched view sep q x) (Wait pf targets services instances)" for targets services instances
    unfolding Wait_def by (intro keeps_bindM_gets) (auto intro: keeps_for_each untouched_WaitKeys [OF only])
  note ops = untouched_publish [OF server] hook wait
  show ?thesis unfolding publish_command_def Let_def
    by (intro keeps_bindM keeps_gets keeps_lift_res) (simp split: prod.split add: ops keeps_seqM keeps_only_if keeps_bindM keeps_lift_res)
qed

text \<open>
  C28. Whatever a web client sends, only four keys of the registry can change: the run number, its copy
  and the two wait flags. Every other key that nobody else writes meanwhile keeps its value.
\<close>

theorem request_frame:
  assumes "redis_server pf view mt" and "unattended pf env view q" and "q \<notin> run_keys (gw_separator g)"
  shows "view (gw_world (snd (ProcessData pf env connid msg g))) q = view (gw_world g) q"
proof -
  let ?I = "untouched view (gw_separator g) q (view (gw_world g) q)"
  note server = assms(1) and keys = assms(3)
  have publish: "keeps ?I (RedisPublishDaqCommand pf env connid obj)" for obj
    unfolding RedisPublishDaqCommand_def
    by (simp split: option.split add: keeps_seqM keeps_only_if keeps_try_log untouched_CopyLatestRunNumber [OF server keys]
        untouched_publish_command [OF server assms(2)] keeps_ret)
  have get: "keeps ?I (RedisGet pf env connid obj)" for obj
    unfolding RedisGet_def SendRunNumber_def ReadLatestRunNumber_def by (intro keeps_only_if keeps_seqM untouched_read_number)
  have set: "keeps ?I (RedisSet pf connid obj)" for obj
    unfolding RedisSet_def
    by (auto split: option.split intro!: untouched_set_key [OF server keys] keeps_ret simp: knownRunInfoList_def simp del: bindM_ret)
  have incr: "keeps ?I (RedisIncr env connid obj)" for obj
    unfolding RedisIncr_def by (intro keeps_only_if untouched_IncrementRunNumber [OF assms(2) keys])
  have call: "keeps ?I (call_function pf env key connid obj)" for key obj
    unfolding call_function_def
    by (intro keeps_seqM keeps_modify) (simp_all add: publish get set incr keeps_raise, simp add: untouched_def)
  have "keeps ?I (ProcessData pf env connid msg)"
    unfolding ProcessData_def by (intro keeps_bindM keeps_lift_res) (auto split: option.split intro: call)
  from keepsD [OF this, of g] show ?thesis by (simp add: untouched_def)
qed

text \<open>
  A request that is no JSON, or that names an unknown function, makes \<open>ProcessData\<close> throw. Nothing
  has been done then, except that the table of functions has a new, empty entry.
\<close>

theorem bad_request_throws:
  assumes "json_read pf msg = Inl e \<or> (\<exists>obj key. json_read pf msg = Inr obj \<and> ptree_get obj ''command'' = Some key \<and>
    key \<notin> set InitializeFunctionList)"
  shows "\<exists>h. (\<exists>e. ProcessData pf env connid msg g = (Inl e, h)) \<and>
    gw_world h = gw_world g \<and> gw_sent h = gw_sent g \<and> set (gw_functions g) \<subseteq> set (gw_functions h) \<and>
    (\<forall>obj key. json_read pf msg = Inr obj \<longrightarrow> ptree_get obj ''command'' = Some key \<longrightarrow> key \<in> set (gw_functions h))"
  using assms
proof
  assume "json_read pf msg = Inl e"
  then show ?thesis by (auto simp: ProcessData_def bindM_def op_simps)
next
  assume "\<exists>obj key. json_read pf msg = Inr obj \<and> ptree_get obj ''command'' = Some key \<and> key \<notin> set InitializeFunctionList"
  then show ?thesis
    by (auto simp: ProcessData_def call_function_def InitializeFunctionList_def bindM_def op_simps)
qed

theorem request_frame_witness:
  "ref_view (gw_world (snd (ProcessData gui_platform sample_env 1 ''other''
      (sample_gui [(''daq_service:Sink:Sink-0:state'', RStr ''IDLE'')])))) ''daq_service:Sink:Sink-0:state'' = Some (RStr ''IDLE'')"
proof -
  let ?q = "''daq_service:Sink:Sink-0:state''" and ?g = "sample_gui [(''daq_service:Sink:Sink-0:state'', RStr ''IDLE'')]"
  have "unattended gui_platform sample_env ref_view ?q"
    by (simp add: unattended_def gui_platform_sel ref_sel ref_view_def sample_env_def ref_view_run [unfolded ref_view_def])
  moreover have "?q \<notin> run_keys (gw_separator ?g)"
    by (auto simp: run_keys_def key_constants)
  ultimately show ?thesis
    using request_frame [OF gui_server, of sample_env ?q ?g 1 "''other''"] by (simp add: sample_gui_def ref_view_def)
qed

theorem bad_request_throws_witness:
  "(\<exists>h. (\<exists>e. ProcessData gui_platform sample_env 1 ''hello'' (sample_gui []) = (Inl e, h)) \<and> gw_sent h = []) \<and>
   (\<exists>h. (\<exists>e. ProcessData gui_platform sample_env 1 ''exit'' (sample_gui []) = (Inl e, h)) \<and> ''change_state'' \<in> set (gw_functions h))"
proof
  have "json_read gui_platform ''hello'' = Inl (Failure ''not JSON'')" by (simp add: gui_platform_sel sample_json_def)
  then show "\<exists>h. (\<exists>e. ProcessData gui_platform sample_env 1 ''hello'' (sample_gui []) = (Inl e, h)) \<and> gw_sent h = []"
    using bad_request_throws [of gui_platform "''hello''" "Failure ''not JSON''" sample_env 1 "sample_gui []"]
    by (auto simp: sample_gui_def)
next
  obtain obj where obj: "json_read gui_platform ''exit'' = Inr obj" "ptree_get obj ''command'' = Some ''change_state''"
    by (simp add: gui_platform_sel sample_json_def ptree_get_def ptree_child_def)
  moreover have "''change_state'' \<notin> set InitializeFunctionList" by (simp add: InitializeFunctionList_def)
  ultimately show "\<exists>h. (\<exists>e. ProcessData gui_platform sample_env 1 ''exit'' (sample_gui []) = (Inl e, h)) \<and> ''change_state'' \<in> set (gw_functions h)"
    using bad_request_throws [of gui_platform "''exit''" OutOfRange sample_env 1 "sample_gui []"] by auto
qed

end
