(* ===== verification/WebStates.thy ===== *)
theory WebStates
  imports WebControl
begin

text \<open>
  The background work of the web controller (\<^verbatim>\<open>controller/WebGui.cxx\<close>): the summary of the states of
  all instances that the polling thread sends to the web clients, and the subscription to the
  key events of the registry, which removes the index of an expired instance.
\<close>

section \<open>The summary of the states\<close>

definition NStates :: nat where "NStates = 16"

definition empty_service :: service_state where
  "empty_service = \<lparr>ss_instances = [], ss_counts = [], ss_date = []\<rparr>"

definition empty_inst :: inst_state where
  "empty_inst = \<lparr>is_state = [], is_date = []\<rparr>"

text \<open>\<^verbatim>\<open>m[k]\<close> of a map: the value, or a new one.\<close>

definition smap_at :: "'v smap \<Rightarrow> string \<Rightarrow> 'v \<Rightarrow> 'v" where
  "smap_at m k d = (case map_of m k of None \<Rightarrow> d | Some v \<Rightarrow> v)"

text \<open>The service and the instance in a key; the source does not check that the key has three parts.\<close>

definition service_and_instance :: "string \<Rightarrow> string \<Rightarrow> (string \<times> string) res" where
  "service_and_instance sep k =
     (case split_on (\<lambda>c. c \<in> set sep) k of _ # s # i # _ \<Rightarrow> Inr (s, i) | _ \<Rightarrow> Inl UndefinedBehaviour)"

definition put_state :: "'w platform \<Rightarrow> string \<Rightarrow> string option \<Rightarrow> string \<Rightarrow> summary \<Rightarrow> summary" where
  "put_state pf inst v service table =
     (let ss = smap_at table service empty_service;
          st = (case v of None \<Rightarrow> GetStateName pf Undefined | Some s \<Rightarrow> s);
          i = (smap_at (ss_instances ss) inst empty_inst)\<lparr>is_state := st\<rparr>
      in smap_put service (ss\<lparr>ss_instances := smap_put inst i (ss_instances ss)\<rparr>) table)"

definition put_date :: "string \<Rightarrow> string option \<Rightarrow> string \<Rightarrow> summary \<Rightarrow> summary" where
  "put_date inst v service table =
     (case map_of table service of None \<Rightarrow> table
      | Some ss \<Rightarrow>
          (case map_of (ss_instances ss) inst of None \<Rightarrow> table
           | Some i \<Rightarrow>
               (case v of None \<Rightarrow> table
                | Some d \<Rightarrow> smap_put service (ss\<lparr>ss_instances := smap_put inst (i\<lparr>is_date := d\<rparr>) (ss_instances ss)\<rparr>) table)))"

fun collect_states :: "'w platform \<Rightarrow> string \<Rightarrow> (string \<times> string option) list \<Rightarrow> summary \<Rightarrow> summary res" where
  "collect_states pf sep [] table = Inr table"
| "collect_states pf sep ((k, v) # kvs) table =
     bindR (service_and_instance sep k) (\<lambda>(service, inst). collect_states pf sep kvs (put_state pf inst v service table))"

fun collect_dates :: "string \<Rightarrow> (string \<times> string option) list \<Rightarrow> summary \<Rightarrow> summary res" where
  "collect_dates sep [] table = Inr table"
| "collect_dates sep ((k, v) # kvs) table =
     bindR (service_and_instance sep k) (\<lambda>(service, inst). collect_dates sep kvs (put_date inst v service table))"

text \<open>Counting one instance; a state id out of range skips the instance, an unknown name throws.\<close>

definition count_instance :: "'w gui_env \<Rightarrow> inst_state \<Rightarrow> service_state \<Rightarrow> service_state res" where
  "count_instance env i ss =
     (let dated = (if is_date i \<noteq> [] \<and> (ss_date ss = [] \<or> ss_date ss < is_date i) then ss\<lparr>ss_date := is_date i\<rparr> else ss)
      in if is_state i = [] then Inr dated
         else bindR (GetState env (is_state i)) (\<lambda>istate.
           if NStates \<le> istate then Inr ss
           else Inr (dated\<lparr>ss_counts := (ss_counts ss)[istate := Suc (ss_counts ss ! istate)]\<rparr>)))"

fun count_instances :: "'w gui_env \<Rightarrow> inst_state list \<Rightarrow> service_state \<Rightarrow> service_state res" where
  "count_instances env [] ss = Inr ss"
| "count_instances env (i # is) ss = bindR (count_instance env i ss) (count_instances env is)"

fun count_services :: "'w gui_env \<Rightarrow> summary \<Rightarrow> summary res" where
  "count_services env [] = Inr []"
| "count_services env ((s, ss) # table) =
     bindR (count_instances env (map snd (ss_instances ss)) (ss\<lparr>ss_counts := replicate NStates 0\<rparr>)) (\<lambda>ss'.
     bindR (count_services env table) (\<lambda>rest. Inr ((s, ss') # rest)))"

definition list_changes :: "summary \<Rightarrow> summary \<Rightarrow> bool \<times> bool" where
  "list_changes prev table =
     (if length prev \<noteq> length table \<or> list_ex (\<lambda>(k, _). map_of prev k = None) table then (True, True)
      else (False, list_ex (\<lambda>(k, v).
              let srv = smap_at prev k empty_service
              in length (ss_instances srv) \<noteq> length (ss_instances v) \<or>
                 list_ex (\<lambda>(i, _). map_of (ss_instances srv) i = None) (ss_instances v)) table))"

definition leaf :: "string \<Rightarrow> ptree" where "leaf s = PTree s []"

definition count_tree :: "'w platform \<Rightarrow> nat list \<Rightarrow> ptree" where
  "count_tree pf counts =
     PTree [] (map (\<lambda>(i, s). ([], PTree []
       [(''state-id'', leaf (show_nat i)), (''name'', leaf (GetStateName pf s)), (''value'', leaf (show_nat (counts ! i)))]))
       (enumerate 0 [Undefined, Ok, Error, Idle, InitializingDevice, Initialized, Binding, Bound, Connecting,
          DeviceReady, InitializingTask, Ready, Running, ResettingTask, ResettingDevice, Exiting]))"

definition service_tree :: "'w platform \<Rightarrow> string \<Rightarrow> service_state \<Rightarrow> ptree" where
  "service_tree pf service ss =
     PTree []
       [(''service'', leaf service), (''date'', leaf (ss_date ss)), (''n_instances'', leaf (show_nat (length (ss_instances ss)))),
        (''counts'', count_tree pf (ss_counts ss)),
        (''instances'', PTree [] (map (\<lambda>(n, i). ([], PTree []
           [(''service'', leaf service), (''instance'', leaf n), (''state'', leaf (is_state i)), (''date'', leaf (is_date i))]))
           (ss_instances ss)))]"

definition show_flag :: "bool \<Rightarrow> string" where
  "show_flag b = (if b then ''true'' else ''false'')"

definition summary_tree :: "'w platform \<Rightarrow> bool \<Rightarrow> bool \<Rightarrow> summary \<Rightarrow> ptree" where
  "summary_tree pf services insts table =
     PTree []
       [(''type'', leaf ''state-summary-table''), (''service_list_changed'', leaf (show_flag services)),
        (''instance_list_changed'', leaf (show_flag insts)),
        (''services'', PTree [] (map (\<lambda>(s, ss). ([], service_tree pf s ss)) table))]"

definition SendStateSummary :: "'w platform \<Rightarrow> 'w gui_env \<Rightarrow> summary \<Rightarrow> ('w webgui, unit) opn" where
  "SendStateSummary pf env table =
     bindM (gets (\<lambda>g. list_changes (gw_prev g) table)) (\<lambda>(services, insts).
       seqM (modify (\<lambda>g. g\<lparr>gw_prev := table\<rparr>))
            (Send 0 (json_write env (summary_tree pf services insts table))))"

text \<open>What one turn of the polling thread reads; its sleeping is not part of the model.\<close>

definition read_summary :: "'w platform \<Rightarrow> 'w gui_env \<Rightarrow> string \<Rightarrow> 'w \<Rightarrow> summary res" where
  "read_summary pf env sep w =
     bindR (scan_parts pf w [TopPrefix, ''*'', ''*'', FairMQStatePrefix] sep) (\<lambda>stateKeys.
       if stateKeys = [] then Inr []
       else bindR (scan_parts pf w [TopPrefix, ''*'', ''*'', UpdateTimePrefix] sep) (\<lambda>updateTimeKeys.
         bindR (collect_states pf sep (zip stateKeys (rd_mget pf w stateKeys)) []) (\<lambda>table.
         bindR (collect_dates sep (zip updateTimeKeys (if updateTimeKeys = [] then [] else rd_mget pf w updateTimeKeys)) table)
           (count_services env))))"

definition PollState :: "'w platform \<Rightarrow> 'w gui_env \<Rightarrow> ('w webgui, unit) opn" where
  "PollState pf env =
     bindM (asks (\<lambda>g. read_summary pf env (gw_separator g) (gw_world g))) (SendStateSummary pf env)"

definition SendWebSocketIdList :: "(nat \<times> string) list \<Rightarrow> ('w webgui, unit) opn" where
  "SendWebSocketIdList v =
     Send 0 (''WebSocket Connected ID: Date<br>'' @ concat (map (\<lambda>(i, t). '' '' @ show_nat i @ '' : '' @ t @ ''<br>'') v))"

section \<open>Expired keys\<close>

definition ProcessExpiredKey :: "'w platform \<Rightarrow> string \<Rightarrow> ('w webgui, unit) opn" where
  "ProcessExpiredKey pf key =
     (if find_str key ''presence'' = npos then ret ()
      else case split_on (\<lambda>c. c = CHR '':'') key of
          _ # serviceName # instName # _ \<Rightarrow>
            bindM (lift_res (substr_from instName (sz_add (find_str instName ''-'') 1))) (\<lambda>instIndex.
            bindM (gets (\<lambda>g. join [TopPrefix, ServiceInstanceIndexPrefix, serviceName] (gw_separator g))) (\<lambda>k.
              on_gw (rd_run pf (HDel k [instIndex]))))
        | _ \<Rightarrow> raise UndefinedBehaviour)"

text \<open>
  \<^verbatim>\<open>^([^:\/?#]+)://([^\/?#]+):(\d+)/?(\d*)\<close>: the number after the last slash, which may be missing.
\<close>

definition uri_part :: "string \<Rightarrow> re_item" where
  "uri_part stops = Group (\<lambda>c. c \<notin> set stops)"

definition uri_items :: "re_item list" where
  "uri_items = [uri_part '':/?#''] @ map Lit ''://'' @ [uri_part ''/?#'', Lit (CHR '':''), d_plus]"

definition GetRedisDBNumber :: "string \<Rightarrow> string" where
  "GetRedisDBNumber uri =
     (case regex_match (uri_items @ [Lit (CHR ''/''), d_plus]) uri of Some [scheme, host, port, db] \<Rightarrow> db | _ \<Rightarrow> ''0'')"

definition key_event_channel :: "string \<Rightarrow> string" where
  "key_event_channel redisUri = ''__keyevent@'' @ GetRedisDBNumber redisUri @ ''__:expired''"

definition StateChannelName :: string where "StateChannelName = ''daqstate''"

definition gui_on_message :: "'w platform \<Rightarrow> string \<Rightarrow> string \<Rightarrow> string \<Rightarrow> ('w webgui, unit) opn" where
  "gui_on_message pf eventChannel channel msg =
     (if StateChannelName = channel then bindM (lift_res (json_read pf msg)) (\<lambda>obj. ret ())
      else if channel = eventChannel then try_log (ProcessExpiredKey pf msg)
      else ret ())"

text \<open>
  The settings by which the controller starts (the names given to the connection and the kinds of notifications asked
  for leave no trace in the state); the result is the channel of the expired keys.
\<close>

definition ConnectToRedis :: "string \<Rightarrow> string \<Rightarrow> string \<Rightarrow> ('w webgui, string) opn" where
  "ConnectToRedis redisUri commandChannelName separator =
     (if redisUri = [] then raise (Failure ''redis server uri is not specified.'')
      else seqM (modify (\<lambda>g. g\<lparr>gw_channel := commandChannelName, gw_separator := separator\<rparr>)) (ret (key_event_channel redisUri)))"

text \<open>The loop over what is consumed ends with the first exception that is not a timeout; without one it goes on for ever.\<close>

fun SubscribeToRedisPubSub :: "'w platform \<Rightarrow> string \<Rightarrow> consumed list \<Rightarrow> ('w webgui, unit) opn" where
  "SubscribeToRedisPubSub pf eventChannel [] g = (Inl NoReturn, g)"
| "SubscribeToRedisPubSub pf eventChannel (c # cs) g =
     (case (case c of Message channel msg \<Rightarrow> gui_on_message pf eventChannel channel msg | TimedOut \<Rightarrow> ret () | Broken e \<Rightarrow> raise e) g of
        (Inr _, h) \<Rightarrow> SubscribeToRedisPubSub pf eventChannel cs h
      | (Inl e, h) \<Rightarrow> ((if catchable e then Inr () else Inl e), h))"

section \<open>Well-formed summaries\<close>

text \<open>The services and the instances of each are ordered maps; every service has an instance.\<close>

definition summary_wf :: "summary \<Rightarrow> bool" where
  "summary_wf table \<longleftrightarrow> smap_wf table \<and> (\<forall>ss\<in>snd ` set table. smap_wf (ss_instances ss) \<and> ss_instances ss \<noteq> [])"

lemma snd_set_smap_put: "snd ` set (smap_put k v m) \<subseteq> insert v (snd ` set m)"
  by (induction k v m rule: smap_put.induct) auto

lemma summary_wf_put:
  assumes "summary_wf table" and "smap_wf (ss_instances ss)" and "ss_instances ss \<noteq> []"
  shows "summary_wf (smap_put s ss table)"
  using assms snd_set_smap_put [of s ss table] by (fastforce simp: summary_wf_def)

lemma smap_at_cases: "smap_at m k d = d \<or> smap_at m k d \<in> snd ` set m"
  by (force simp: smap_at_def dest: map_of_SomeD split: option.split)

lemma instances_wf: "summary_wf table \<Longrightarrow> smap_wf (ss_instances (smap_at table s empty_service))"
  using smap_at_cases [of table s empty_service]
  by (auto simp: summary_wf_def empty_service_def smap_wf_def [of "[]"])

lemma smap_put_nonempty [simp]: "smap_put k v m \<noteq> []"
  by (cases m) (auto split: if_splits)

lemma put_state_wf: "summary_wf table \<Longrightarrow> summary_wf (put_state pf inst v s table)"
  unfolding put_state_def Let_def by (intro summary_wf_put) (auto intro: instances_wf)

lemma summary_wf_instances: "summary_wf table \<Longrightarrow> map_of table s = Some ss \<Longrightarrow> smap_wf (ss_instances ss)"
  by (force simp: summary_wf_def dest: map_of_SomeD)

lemma put_date_wf: "summary_wf table \<Longrightarrow> summary_wf (put_date inst v s table)"
  unfolding put_date_def
  by (auto split: option.split intro!: summary_wf_put smap_wf_put dest: summary_wf_instances)

lemma collect_states_wf: "summary_wf table \<Longrightarrow> collect_states pf sep kvs table = Inr table' \<Longrightarrow> summary_wf table'"
  by (induction pf sep kvs table rule: collect_states.induct) (auto simp: bindR_Inr_iff put_state_wf)

lemma collect_dates_wf: "summary_wf table \<Longrightarrow> collect_dates sep kvs table = Inr table' \<Longrightarrow> summary_wf table'"
  by (induction sep kvs table rule: collect_dates.induct) (auto simp: bindR_Inr_iff put_date_wf)

section \<open>The counts\<close>

text \<open>How often \<open>k\<close> is the state of an instance.\<close>

definition in_state :: "'w gui_env \<Rightarrow> nat \<Rightarrow> inst_state \<Rightarrow> bool" where
  "in_state env k i \<longleftrightarrow> is_state i \<noteq> [] \<and> GetState env (is_state i) = Inr k"

lemma count_instance_effect:
  assumes "count_instance env i ss = Inr ss'" and "length (ss_counts ss) = NStates"
  shows "ss_instances ss' = ss_instances ss" "length (ss_counts ss') = NStates"
    "k < NStates \<Longrightarrow> ss_counts ss' ! k = ss_counts ss ! k + (if in_state env k i then 1 else 0)"
proof -
  define dated where "dated = (if is_date i \<noteq> [] \<and> (ss_date ss = [] \<or> ss_date ss < is_date i) then ss\<lparr>ss_date := is_date i\<rparr> else ss)"
  have d: "ss_counts dated = ss_counts ss" "ss_instances dated = ss_instances ss" by (simp_all add: dated_def)
  consider "is_state i = []" "ss' = dated"
    | n where "is_state i \<noteq> []" "GetState env (is_state i) = Inr n" "NStates \<le> n" "ss' = ss"
    | n where "is_state i \<noteq> []" "GetState env (is_state i) = Inr n" "n < NStates"
        "ss' = dated\<lparr>ss_counts := (ss_counts ss)[n := Suc (ss_counts ss ! n)]\<rparr>"
    using assms(1) unfolding count_instance_def Let_def dated_def [symmetric]
    by (cases "is_state i = []"; cases "GetState env (is_state i)"; cases "NStates \<le> projr (GetState env (is_state i))") auto
  then show "ss_instances ss' = ss_instances ss" "length (ss_counts ss') = NStates"
    "k < NStates \<Longrightarrow> ss_counts ss' ! k = ss_counts ss ! k + (if in_state env k i then 1 else 0)"
    using assms(2) d by (cases; simp add: in_state_def nth_list_update)+
qed

lemma count_instances_effect:
  assumes "count_instances env is ss = Inr ss'" and "length (ss_counts ss) = NStates"
  shows "ss_instances ss' = ss_instances ss \<and> length (ss_counts ss') = NStates \<and>
    (\<forall>k<NStates. ss_counts ss' ! k = ss_counts ss ! k + length (filter (in_state env k) is))"
  using assms
proof (induction env "is" ss rule: count_instances.induct)
  case (2 env i "is" ss)
  from 2(2) obtain s where s: "count_instance env i ss = Inr s" "count_instances env is s = Inr ss'"
    by (auto simp: bindR_Inr_iff)
  note one = count_instance_effect [OF s(1) 2(3)]
  from 2(1) [OF s(2) one(2)] one show ?case by auto
qed auto

lemma count_services_effect:
  assumes "count_services env table = Inr table'"
  shows "map fst table' = map fst table \<and> map (ss_instances \<circ> snd) table' = map (ss_instances \<circ> snd) table \<and>
    (\<forall>(s, ss)\<in>set table'. length (ss_counts ss) = NStates \<and>
      (\<forall>k<NStates. ss_counts ss ! k = length (filter (in_state env k) (map snd (ss_instances ss)))))"
  using assms
proof (induction env table arbitrary: table' rule: count_services.induct)
  case (2 env s ss table)
  from 2(2) obtain ss' rest where r: "count_services env table = Inr rest" "table' = (s, ss') # rest"
    "count_instances env (map snd (ss_instances ss)) (ss\<lparr>ss_counts := replicate NStates 0\<rparr>) = Inr ss'"
    by (auto simp: bindR_Inr_iff)
  with 2(1) [OF r(1)] count_instances_effect [OF r(3)] show ?case by auto
qed simp

lemma same_keys_wf:
  assumes "summary_wf table" and "map fst table' = map fst table" and "map (ss_instances \<circ> snd) table' = map (ss_instances \<circ> snd) table"
  shows "summary_wf table'"
proof -
  have "(ss_instances \<circ> snd) ` set table' = (ss_instances \<circ> snd) ` set table"
    using assms(3) by (metis set_map)
  then have same: "ss_instances ` snd ` set table' = ss_instances ` snd ` set table" by (simp add: image_comp)
  have "summary_wf t \<longleftrightarrow> sorted_wrt (<) (map fst t) \<and> (\<forall>m\<in>ss_instances ` snd ` set t. smap_wf m \<and> m \<noteq> [])" for t
    by (simp add: summary_wf_def smap_wf_def [of t])
  then show ?thesis using assms(1,2) same by metis
qed

lemma read_summary_ok:
  assumes "read_summary pf env sep w = Inr table"
  shows "summary_wf table \<and> (\<forall>(s, ss)\<in>set table. length (ss_counts ss) = NStates \<and>
    (\<forall>k<NStates. ss_counts ss ! k = length (filter (in_state env k) (map snd (ss_instances ss)))))"
proof (cases "table = []")
  case False
  with assms obtain t u stateKeys kvs where t: "collect_states pf sep (zip stateKeys (rd_mget pf w stateKeys)) [] = Inr t"
    "collect_dates sep kvs t = Inr u" "count_services env u = Inr table"
    unfolding read_summary_def bindR_Inr_iff by (auto simp only: if_False if_True bindR_Inr_iff sum.inject split: if_split_asm)
  have "summary_wf []" by (simp add: summary_wf_def smap_wf_def)
  then have "summary_wf u" using collect_states_wf collect_dates_wf t by blast
  with count_services_effect [OF t(3)] same_keys_wf show ?thesis by blast
qed (simp add: summary_wf_def smap_wf_def)

section \<open>The changes\<close>

definition services_of :: "summary \<Rightarrow> string set" where
  "services_of table = fst ` set table"

definition instances_of :: "summary \<Rightarrow> (string \<times> string) set" where
  "instances_of table = {(s, i). \<exists>ss. map_of table s = Some ss \<and> map_of (ss_instances ss) i \<noteq> None}"

lemma smap_length: "smap_wf m \<Longrightarrow> length m = card (dom (map_of m))"
  using distinct_card [OF smap_wf_distinct [of m]] by (simp add: dom_map_of_conv_image_fst)

lemma same_domain:
  assumes "smap_wf m" and "smap_wf n"
  shows "(length m \<noteq> length n \<or> (\<exists>(k, _)\<in>set n. map_of m k = None)) \<longleftrightarrow> dom (map_of m) \<noteq> dom (map_of n)"
proof -
  have "(\<exists>(k, _)\<in>set n. map_of m k = None) \<longleftrightarrow> \<not> dom (map_of n) \<subseteq> dom (map_of m)"
    by (force simp: dom_map_of_conv_image_fst map_of_eq_None_iff)
  moreover have "dom (map_of n) = dom (map_of m)" if "dom (map_of n) \<subseteq> dom (map_of m)" "length m = length n"
  proof (rule card_subset_eq [OF _ that(1)])
    show "card (dom (map_of n)) = card (dom (map_of m))"
      using that(2) smap_length [OF assms(1)] smap_length [OF assms(2)] by simp
  qed (rule finite_dom_map_of)
  moreover have "length m = length n" if "dom (map_of m) = dom (map_of n)"
    using that by (simp only: smap_length [OF assms(1)] smap_length [OF assms(2)])
  ultimately show ?thesis by blast
qed

definition domain :: "summary \<Rightarrow> string \<Rightarrow> string set" where
  "domain t s = dom (map_of (ss_instances (smap_at t s empty_service)))"

lemma list_changes_sets:
  assumes "summary_wf prev" and "summary_wf table"
  shows "list_changes prev table = (services_of prev \<noteq> services_of table, instances_of prev \<noteq> instances_of table)"
proof -
  have wf: "smap_wf prev" "smap_wf table" using assms by (simp_all add: summary_wf_def)
  have services: "(length prev \<noteq> length table \<or> list_ex (\<lambda>(k, _). map_of prev k = None) table) \<longleftrightarrow> services_of prev \<noteq> services_of table"
    using same_domain [OF wf] by (simp add: list_ex_iff services_of_def dom_map_of_conv_image_fst)
  have first: "fst ` instances_of t = services_of t" if t: "summary_wf t" for t
  proof -
    have "\<exists>i. map_of (ss_instances ss) i \<noteq> None" if "map_of t s = Some ss" for s ss
    proof -
      from that t obtain i v rest where "ss_instances ss = (i, v) # rest"
        by (cases "ss_instances ss") (force simp: summary_wf_def dest: map_of_SomeD)+
      then show ?thesis by (intro exI [of _ i]) simp
    qed
    then show ?thesis
      by (force simp: instances_of_def services_of_def dom_map_of_conv_image_fst [symmetric] image_iff)
  qed
  have insts: "list_ex (\<lambda>(k, v).
      let srv = smap_at prev k empty_service
      in length (ss_instances srv) \<noteq> length (ss_instances v) \<or>
         list_ex (\<lambda>(i, _). map_of (ss_instances srv) i = None) (ss_instances v)) table \<longleftrightarrow> instances_of prev \<noteq> instances_of table"
    if same: "services_of prev = services_of table"
  proof -
    have one: "(length (ss_instances srv) \<noteq> length (ss_instances v) \<or> list_ex (\<lambda>(i, _). map_of (ss_instances srv) i = None) (ss_instances v)) \<longleftrightarrow>
        domain prev k \<noteq> domain table k"
      if "srv = smap_at prev k empty_service" "(k, v) \<in> set table" for k srv v
    proof -
      have "map_of table k = Some v" using that(2) smap_wf_distinct [OF wf(2)] by (simp add: map_of_is_SomeI)
      then have "smap_at table k empty_service = v" by (simp add: smap_at_def)
      with same_domain [of "ss_instances srv" "ss_instances v"] that instances_wf [OF assms(1)] instances_wf [OF assms(2)]
      show ?thesis by (simp add: list_ex_iff domain_def) metis
    qed
    have "instances_of t = {(s, i). s \<in> services_of t \<and> i \<in> domain t s}" for t
      by (auto simp: instances_of_def services_of_def domain_def dom_map_of_conv_image_fst [symmetric] smap_at_def)
    then have "instances_of prev \<noteq> instances_of table \<longleftrightarrow> (\<exists>k\<in>services_of table. domain prev k \<noteq> domain table k)"
      using same by (auto simp: set_eq_iff)
    also have "\<dots> \<longleftrightarrow> (\<exists>(k, v)\<in>set table. domain prev k \<noteq> domain table k)" by (force simp: services_of_def)
    also have "\<dots> \<longleftrightarrow> list_ex (\<lambda>(k, v).
        let srv = smap_at prev k empty_service
        in length (ss_instances srv) \<noteq> length (ss_instances v) \<or>
           list_ex (\<lambda>(i, _). map_of (ss_instances srv) i = None) (ss_instances v)) table"
      unfolding list_ex_iff [of _ table] Let_def by (intro bex_cong refl) (clarsimp simp del: de_Morgan_conj simp: one [OF refl, symmetric, simplified])
    finally show ?thesis by simp
  qed
  show ?thesis
  proof (cases "services_of prev = services_of table")
    case True
    with services insts show ?thesis by (simp add: list_changes_def)
  next
    case False
    with services first [OF assms(1)] first [OF assms(2)] show ?thesis by (auto simp: list_changes_def)
  qed
qed

section \<open>The instances of a summary\<close>

definition state_pattern :: "string \<Rightarrow> string" where
  "state_pattern sep = join [TopPrefix, ''*'', ''*'', FairMQStatePrefix] sep"

definition names_instance :: "string \<Rightarrow> string \<Rightarrow> string \<times> string \<Rightarrow> bool" where
  "names_instance sep k si \<longleftrightarrow> service_and_instance sep k = Inr si"

lemma instances_of_put_state: "instances_of (put_state pf i v s t) = insert (s, i) (instances_of t)"
  by (auto simp: instances_of_def put_state_def Let_def smap_at_def empty_service_def split: if_splits option.splits)

lemma instances_of_put_date: "instances_of (put_date i v s t) = instances_of t"
  by (auto simp: instances_of_def put_date_def split: if_splits option.splits)

lemma instances_of_collect_states:
  "collect_states pf sep kvs t = Inr t' \<Longrightarrow> instances_of t' = instances_of t \<union> {si. \<exists>k\<in>fst ` set kvs. names_instance sep k si}"
  by (induction pf sep kvs t rule: collect_states.induct)
    (auto simp: bindR_Inr_iff instances_of_put_state names_instance_def)

lemma instances_of_collect_dates: "collect_dates sep kvs t = Inr t' \<Longrightarrow> instances_of t' = instances_of t"
  by (induction sep kvs t rule: collect_dates.induct) (auto simp: bindR_Inr_iff instances_of_put_date)

lemma instances_of_same:
  "map fst t' = map fst t \<Longrightarrow> map (ss_instances \<circ> snd) t' = map (ss_instances \<circ> snd) t \<Longrightarrow> instances_of t' = instances_of t"
proof -
  assume same: "map fst t' = map fst t" "map (ss_instances \<circ> snd) t' = map (ss_instances \<circ> snd) t"
  have m: "map_option ss_instances (map_of u s) = map_of (zip (map fst u) (map (ss_instances \<circ> snd) u)) s" for u s
    by (induction u) auto
  then have "map_option ss_instances (map_of t' s) = map_option ss_instances (map_of t s)" for s
    unfolding m same ..
  moreover have "instances_of u = {(s, i). \<exists>m. map_option ss_instances (map_of u s) = Some m \<and> map_of m i \<noteq> None}" for u
    by (auto simp: instances_of_def)
  ultimately show ?thesis by (simp only:)
qed

lemma read_summary_instances:
  assumes "redis_server pf view mt" and "read_summary pf env sep w = Inr table"
  shows "instances_of table = {si. \<exists>k. view w k \<noteq> None \<and> mt (state_pattern sep) k \<and> names_instance sep k si}"
proof -
  obtain keys where keys: "scan_parts pf w [TopPrefix, ''*'', ''*'', FairMQStatePrefix] sep = Inr keys"
    "set keys = {k. view w k \<noteq> None \<and> mt (state_pattern sep) k}"
    using key_scanner.scan_ok [OF key_scanner_scan [OF assms(1)], of w "state_pattern sep"]
    by (auto simp: scan_parts_def state_pattern_def)
  have len: "length (rd_mget pf w ks) = length ks" for ks
    using redis_reads [OF assms(1)] by (simp add: redis_reads_def)
  show ?thesis
  proof (cases "keys = []")
    case True
    with keys(2) have "{k. view w k \<noteq> None \<and> mt (state_pattern sep) k} = {}" by simp
    moreover have "instances_of table = {}" using assms(2) keys(1) True by (simp add: read_summary_def instances_of_def)
    ultimately show ?thesis by blast
  next
    case False
    with assms(2) keys obtain t u kvs where t: "collect_states pf sep (zip keys (rd_mget pf w keys)) [] = Inr t"
      "collect_dates sep kvs t = Inr u" "count_services env u = Inr table"
      unfolding read_summary_def bindR_Inr_iff by (auto simp only: if_False bindR_Inr_iff sum.inject)
    have "fst ` set (zip keys (rd_mget pf w keys)) = set keys"
      using len [of keys] by (metis map_fst_zip set_map)
    moreover have "instances_of [] = {}" by (simp add: instances_of_def)
    ultimately have "instances_of t = {si. \<exists>k\<in>set keys. names_instance sep k si}"
      using instances_of_collect_states [OF t(1)] by simp
    moreover have "instances_of table = instances_of t"
    proof -
      note c = count_services_effect [OF t(3)]
      show ?thesis
        using instances_of_same [OF conjunct1 [OF c] conjunct1 [OF conjunct2 [OF c]]] instances_of_collect_dates [OF t(2)] by simp
    qed
    ultimately show ?thesis unfolding keys(2) by blast
  qed
qed


text \<open>
  C27. What the web clients are told of it. A turn of the polling thread sends one message to all of
  them, and its two flags say whether the services, and the instances, differ from those of the
  last turn. The summary it keeps for the next turn is well formed.
\<close>

theorem poll_state_flags:
  assumes "summary_wf (gw_prev g)" and "read_summary pf env (gw_separator g) (gw_world g) = Inr table"
  shows "\<exists>h. PollState pf env g = (Inr (), h) \<and> gw_prev h = table \<and> summary_wf (gw_prev h) \<and> gw_world h = gw_world g \<and>
    gw_sent h = gw_sent g @ [(0, json_write env (summary_tree pf
      (services_of (gw_prev g) \<noteq> services_of table) (instances_of (gw_prev g) \<noteq> instances_of table) table))]"
  using read_summary_ok [OF assms(2)] list_changes_sets [OF assms(1), of table]
  by (simp add: PollState_def SendStateSummary_def op_simps bindM_def asks_apply assms(2))

lemma scan_gui: "scan gui_platform w pat = Inr (fold List.insert (filter (glob pat) (map fst (store w))) [])"
  unfolding scan_def by (subst scan_from.simps) (simp add: gui_platform_sel ref_sel)

definition sample_table :: summary where
  "sample_table = [(''Sink'', \<lparr>ss_instances = [(''Sink-0'', \<lparr>is_state = ''READY'', is_date = []\<rparr>)],
     ss_counts = (replicate 16 0)[11 := 1], ss_date = []\<rparr>)]"

lemma read_sample:
  "read_summary gui_platform sample_env (gw_separator (sample_gui [(''daq_service:Sink:Sink-0:fair-mq-state'', RStr ''READY'')]))
    (gw_world (sample_gui [(''daq_service:Sink:Sink-0:fair-mq-state'', RStr ''READY'')])) = Inr sample_table"
  by (simp add: sample_table_def read_summary_def scan_parts_def scan_gui sample_gui_def join_def key_constants gui_platform_sel ref_sel
      service_and_instance_def put_state_def smap_at_def empty_service_def empty_inst_def Let_def count_instance_def
      sample_env_def NStates_def eval_nat_numeral)


theorem poll_state_flags_witness:
  "\<exists>h. PollState gui_platform sample_env (sample_gui [(''daq_service:Sink:Sink-0:fair-mq-state'', RStr ''READY'')]) = (Inr (), h) \<and>
    gw_prev h = sample_table \<and> gw_sent h = [(0, json_write sample_env (summary_tree gui_platform True True sample_table))]"
proof -
  let ?g = "sample_gui [(''daq_service:Sink:Sink-0:fair-mq-state'', RStr ''READY'')]"
  have prev: "gw_prev ?g = []" "gw_sent ?g = []" by (simp_all add: sample_gui_def)
  then have "summary_wf (gw_prev ?g)" by (simp add: summary_wf_def smap_wf_def)
  moreover have "services_of (gw_prev ?g) \<noteq> services_of sample_table" "instances_of (gw_prev ?g) \<noteq> instances_of sample_table"
    unfolding prev by (auto simp: services_of_def instances_of_def sample_table_def set_eq_iff)
  ultimately show ?thesis using poll_state_flags [OF _ read_sample] prev by auto
qed

section \<open>Expired instances\<close>

lemma find_dash: "CHR ''-'' \<notin> set a \<Longrightarrow> find_str (a @ ''-'' @ b) ''-'' = length a"
proof -
  assume "CHR ''-'' \<notin> set a"
  then have "find_opt ''-'' (a @ ''-'' @ b) = Some (length a)"
    by (induction a) (auto simp: starts_with_def)
  then show ?thesis by (simp add: find_str_def)
qed

lemma show_nat_plain: "CHR ''-'' \<notin> set (show_nat n)" "CHR '':'' \<notin> set (show_nat n)"
  using show_nat_digits [of "CHR ''-''" n] show_nat_digits [of "CHR '':''" n] by (auto simp: is_digit_def)

lemma expired_field:
  assumes "gw_separator g = '':''" and "pl_separator p = '':''" and "CHR '':'' \<notin> set (pl_serviceName p)"
    and "pl_serviceName p @ ''-'' @ show_nat n = a @ ''-'' @ b" and "CHR ''-'' \<notin> set a"
    and "fits (presence_key (new_instance p n))"
  shows "ProcessExpiredKey pf (presence_key (new_instance p n)) g =
    (Inr (), g\<lparr>gw_world := rd_run pf (HDel (index_key p) [b]) (gw_world g)\<rparr>)"
proof -
  let ?key = "presence_key (new_instance p n)" and ?inst = "pl_serviceName p @ ''-'' @ show_nat n"
  have key: "?key = join_with '':'' [TopPrefix, pl_serviceName p, ?inst, PresencePrefix]"
    by (simp add: new_instance_def Let_def instance_prefix_def join_def assms(2))
  have "split_on (\<lambda>c. c = CHR '':'') ?key = [TopPrefix, pl_serviceName p, ?inst, PresencePrefix]"
    unfolding key using assms(3) show_nat_plain
    by (intro split_join) (auto simp: list_ex_iff key_constants)
  moreover have "find_str ?key ''presence'' \<noteq> npos"
  proof -
    have "?key = join_with '':'' [TopPrefix, pl_serviceName p, ?inst, []] @ ''presence'' @ []"
      unfolding key by (simp add: PresencePrefix_def)
    then show ?thesis using find_str_npos [OF assms(6)] by blast
  qed
  moreover have "fits ?inst"
    using assms(6) unfolding key by (simp add: fits_def)
  then have "substr_from ?inst (sz_add (find_str ?inst ''-'') 1) = Inr b"
    unfolding assms(4) find_dash [OF assms(5)] by (simp add: fits_def str_simps sz_add_small npos_def size_max_def)
  ultimately show ?thesis
    by (simp add: ProcessExpiredKey_def op_simps index_key_def assms(1,2) bindM_def)
qed

text \<open>
  An instance that stops refreshing its presence gives its index back: when the key
  that \<open>SetId\<close> wrote for it expires, the controller removes the index from the hash of the service.
\<close>

theorem expired_key_frees_index:
  assumes "redis_server pf view mt" and "gw_separator g = '':''" and "pl_separator p = '':''"
    and "CHR '':'' \<notin> set (pl_serviceName p)" and "CHR ''-'' \<notin> set (pl_serviceName p)"
    and "fits (presence_key (new_instance p n))" and "hash_of view (gw_world g) (index_key p) = Some h"
  shows "\<exists>g'. ProcessExpiredKey pf (presence_key (new_instance p n)) g = (Inr (), g') \<and>
    hash_of view (gw_world g') (index_key p) = Some (filter (\<lambda>(f, _). f \<noteq> show_nat n) h) \<and>
    (\<forall>k. k \<noteq> index_key p \<longrightarrow> view (gw_world g') k = view (gw_world g) k)"
  using expired_field [OF assms(2,3,4) refl assms(5,6)] assms(7)
  by (auto simp: view_run [OF assms(1)] hash_of_def Let_def split: option.splits rvalue.splits)

text \<open>
  A service with a dash in its name does not get its index back: the number is taken to begin after
  the first dash, so another field is deleted, and the index of the dead instance stays.
\<close>

theorem dashed_service_keeps_index:
  assumes "redis_server pf view mt" and "gw_separator g = '':''" and "pl_separator p = '':''"
    and "CHR '':'' \<notin> set (pl_serviceName p)" and "pl_serviceName p = a @ ''-'' @ b" and "CHR ''-'' \<notin> set a"
    and "fits (presence_key (new_instance p n))" and "hash_of view (gw_world g) (index_key p) = Some h"
  shows "\<exists>g'. ProcessExpiredKey pf (presence_key (new_instance p n)) g = (Inr (), g') \<and>
    hash_of view (gw_world g') (index_key p) = Some (filter (\<lambda>(f, _). f \<noteq> b @ ''-'' @ show_nat n) h) \<and>
    (map_of h (show_nat n) = Some u \<longrightarrow> map_of (filter (\<lambda>(f, _). f \<noteq> b @ ''-'' @ show_nat n) h) (show_nat n) = Some u)"
proof -
  have "pl_serviceName p @ ''-'' @ show_nat n = a @ ''-'' @ (b @ ''-'' @ show_nat n)" by (simp add: assms(5))
  note run = expired_field [OF assms(2,3,4) this assms(6,7), of pf]
  have "show_nat n \<noteq> b @ ''-'' @ show_nat n" using arg_cong [of "show_nat n" "b @ ''-'' @ show_nat n" length] by auto
  then have "map_of (filter (\<lambda>(f, _). f \<noteq> b @ ''-'' @ show_nat n) h) (show_nat n) = map_of h (show_nat n)"
    by (simp add: map_of_filter_key)
  with run assms(8) show ?thesis
    by (auto simp: view_run [OF assms(1)] hash_of_def Let_def split: option.splits rvalue.splits)
qed

definition sample_index :: "string \<Rightarrow> gui_world webgui" where
  "sample_index service = sample_gui [(''daq_service:service-instance-index:'' @ service, RHash [(''0'', ''u'')])]"

definition sample_instance :: "string \<Rightarrow> gui_world plugin" where
  "sample_instance service = (sample_plugin (gw_world (sample_gui [])))\<lparr>pl_serviceName := service\<rparr>"

lemma show_zero: "show_nat 0 = ''0''"
  by code_simp

lemma sample_instance_keys:
  "index_key (sample_instance s) = ''daq_service:service-instance-index:'' @ s" "pl_separator (sample_instance s) = '':''"
  "presence_key (new_instance (sample_instance s) 0) = ''daq_service:'' @ s @ '':'' @ s @ ''-0:presence''"
  "pl_serviceName (sample_instance s) = s" "gw_separator (sample_index s) = '':''"
  "hash_of ref_view (gw_world (sample_index s)) (index_key (sample_instance s)) = Some [(''0'', ''u'')]"
  by (simp_all add: sample_instance_def sample_plugin_def index_key_def join_def key_constants new_instance_def Let_def
      instance_prefix_def show_zero sample_index_def sample_gui_def hash_of_def ref_view_def)

theorem expired_key_frees_index_witness:
  "\<exists>g'. ProcessExpiredKey gui_platform ''daq_service:Sink:Sink-0:presence'' (sample_index ''Sink'') = (Inr (), g') \<and>
    hash_of ref_view (gw_world g') ''daq_service:service-instance-index:Sink'' = Some []"
proof -
  let ?p = "sample_instance ''Sink''"
  have "CHR '':'' \<notin> set (pl_serviceName ?p)" "CHR ''-'' \<notin> set (pl_serviceName ?p)"
    "fits (presence_key (new_instance ?p 0))"
    unfolding sample_instance_keys by (simp_all add: fits_def npos_def size_max_def)
  from expired_key_frees_index [OF gui_server sample_instance_keys(5,2) this sample_instance_keys(6)]
  show ?thesis unfolding sample_instance_keys by (auto simp: show_zero)
qed

theorem dashed_service_keeps_index_witness:
  "\<exists>g'. ProcessExpiredKey gui_platform ''daq_service:My-Sink:My-Sink-0:presence'' (sample_index ''My-Sink'') = (Inr (), g') \<and>
    hash_of ref_view (gw_world g') ''daq_service:service-instance-index:My-Sink'' = Some [(''0'', ''u'')]"
proof -
  let ?p = "sample_instance ''My-Sink''"
  have "CHR '':'' \<notin> set (pl_serviceName ?p)" "pl_serviceName ?p = ''My'' @ ''-'' @ ''Sink''" "CHR ''-'' \<notin> set ''My''"
    "fits (presence_key (new_instance ?p 0))"
    unfolding sample_instance_keys by (simp_all add: fits_def npos_def size_max_def)
  from dashed_service_keeps_index [OF gui_server sample_instance_keys(5,2) this sample_instance_keys(6), of "''u''"]
  show ?thesis unfolding sample_instance_keys by (auto simp: show_zero)
qed

lemma db_number_examples:
  "GetRedisDBNumber ''tcp://127.0.0.1:6379/3'' = ''3''" "GetRedisDBNumber ''tcp://127.0.0.1:6379'' = ''0''"
  "GetRedisDBNumber ''tcp://127.0.0.1:6379/'' = ''0''" "GetRedisDBNumber ''127.0.0.1'' = ''0''"
  by code_simp+

text \<open>
  A message on the state channel that is no JSON ends the subscription: the expired keys that come after it are never
  processed, and the indices of the instances that die from then on are not freed by the controller.
\<close>

theorem malformed_state_ends_subscription:
  assumes "json_read pf msg = Inl e" and "catchable e"
  shows "SubscribeToRedisPubSub pf eventChannel (Message StateChannelName msg # cs) g = (Inr (), g)"
  using assms by (simp add: gui_on_message_def op_simps bindM_def)

theorem malformed_state_ends_subscription_witness:
  "SubscribeToRedisPubSub gui_platform ''__keyevent@0__:expired''
     [Message StateChannelName ''gibberish'', Message ''__keyevent@0__:expired'' ''daq_service:Sink:Sink-0:presence''] (sample_index ''Sink'') =
   (Inr (), sample_index ''Sink'')"
  by (rule malformed_state_ends_subscription [where e = "Failure ''not JSON''"])
    (simp_all add: gui_platform_sel sample_json_def catchable_def)

end
