(* ===== verification/Parameters.thy ===== *)
theory Parameters
  imports DeviceControl "HOL-Library.Word"
begin

text \<open>
  The parameter plugin (\<^verbatim>\<open>plugins/ParameterConfigPlugin.cxx\<close>, \<^verbatim>\<open>plugins/ParameterConfigPlugin.h\<close>): the keys
  of the parameters of an instance and of its group, the conversion of their values to typed
  properties of the device, and the subscription to their changes.
\<close>

section \<open>State\<close>

text \<open>
  The types the plugin gives a property. Floating point numbers are of a type \<open>'f\<close> of their own.
\<close>

datatype 'f pvalue =
    PStr string | PBool bool | PFloat 'f | PInt "32 word" | PUint64 "64 word"
  | PList "string list" | PSet "string list" | PMap "string smap" | PScores "(string \<times> 'f) list"

text \<open>
  What the plugin uses beside the commands of the platform: typed properties of the device, TYPE, SMEMBERS
  and ZRANGE of the registry, \<^verbatim>\<open>std::stod\<close> cast to \<^verbatim>\<open>float\<close>, and the comparison of floats.
\<close>

record ('w, 'f) param_env =
  pe_get :: "'w \<Rightarrow> string \<Rightarrow> 'f pvalue option"
  pe_set :: "string \<Rightarrow> 'f pvalue \<Rightarrow> 'w \<Rightarrow> 'w"
  pe_type :: "'w \<Rightarrow> string \<Rightarrow> string"
  pe_smembers :: "'w \<Rightarrow> string \<Rightarrow> string list"
  pe_zrange :: "'w \<Rightarrow> string \<Rightarrow> (string \<times> 'f) list"
  pe_float :: "string \<Rightarrow> 'f res"
  pe_far_apart :: "'f \<Rightarrow> 'f \<Rightarrow> bool"

record 'w params =
  pc_id :: string
  pc_separator :: string
  pc_key :: string
  pc_group_key :: string
  pc_shutdown :: bool
  pc_world :: 'w

section \<open>Names of options\<close>

definition ParametersPrefix :: string where "ParametersPrefix = ''parameters''"
definition ServerUri :: string where "ServerUri = ''parameter-config-uri''"
definition RedisKeySpacePrefix :: string where "RedisKeySpacePrefix = ''__keyspace@''"

definition reservedOptionsString :: "string list" where
  "reservedOptionsString =
     [''id'', ''transport'', ''network-interface'', ''shm-allocation'', ''session'', ''config-key'', ''mq-config'',
      ''severity'', ''file-severity'', ''verbosity'', ''log-to-file'']"

definition reservedOptionsInt :: "string list" where
  "reservedOptionsInt = [''io-threads'', ''init-timeout'']"

definition reservedOptionsBool :: "string list" where
  "reservedOptionsBool = [''print-channels'', ''shm-mlock-segment'', ''shm-zero-segment'', ''shm-throw-bad-alloc'', ''shm-monitor'']"

definition reservedOptionsSize :: "string list" where
  "reservedOptionsSize = [''shm-segment-size'', ''color'']"

definition reservedOptionsUint16 :: "string list" where
  "reservedOptionsUint16 = [''shm-segment-id'']"

definition reservedOptionsFloat :: "string list" where
  "reservedOptionsFloat = [''rate'']"

definition reservedOptionsVectorString :: "string list" where
  "reservedOptionsVectorString = [''channel-config'']"

definition IsReservedOption :: "string \<Rightarrow> bool" where
  "IsReservedOption name \<longleftrightarrow>
     name \<in> set reservedOptionsString \<or> name \<in> set reservedOptionsInt \<or> name \<in> set reservedOptionsBool \<or>
     name \<in> set reservedOptionsSize \<or> name \<in> set reservedOptionsUint16 \<or> name \<in> set reservedOptionsFloat \<or>
     name \<in> set reservedOptionsVectorString"

section \<open>Reading a value\<close>

definition stoll :: "string \<Rightarrow> int res" where
  "stoll s = (case read_int s of
       None \<Rightarrow> Inl InvalidArgument
     | Some i \<Rightarrow> if - (2 ^ 63) \<le> i \<and> i < 2 ^ 63 then Inr i else Inl OutOfRange)"

text \<open>\<^verbatim>\<open>strtoull\<close> reads a sign too and negates without a complaint.\<close>

definition stoull :: "string \<Rightarrow> 64 word res" where
  "stoull s = (case read_int s of
       None \<Rightarrow> Inl InvalidArgument
     | Some i \<Rightarrow> if \<bar>i\<bar> < 2 ^ 64 then Inr (word_of_int i) else Inl OutOfRange)"

definition true_words :: "string list" where
  "true_words = [''1'', ''true'', ''TRUE'', ''True'', ''on'', ''ON'', ''On'', ''yes'', ''YES'', ''Yes'']"

datatype ptype = TString | TInt | TUint64 | TBool | TFloat

fun read_value :: "('w, 'f) param_env \<Rightarrow> ptype \<Rightarrow> string \<Rightarrow> 'f pvalue res" where
  "read_value env TString s = Inr (PStr s)"
| "read_value env TBool s = Inr (PBool (s \<in> set true_words))"
| "read_value env TFloat s = bindR (pe_float env s) (\<lambda>v. Inr (PFloat v))"
| "read_value env TInt s = bindR (stoll s) (\<lambda>v. Inr (PInt (word_of_int v)))"
| "read_value env TUint64 s = bindR (stoull s) (\<lambda>v. Inr (PUint64 v))"

text \<open>\<^verbatim>\<open>GetProperty<T>\<close> throws when the property holds a value of another type.\<close>

definition differs :: "('w, 'f) param_env \<Rightarrow> 'f pvalue \<Rightarrow> 'f pvalue \<Rightarrow> bool res" where
  "differs env v w =
     (let bad = Inl (Failure ''bad any cast'') in
      case v of
        PStr a \<Rightarrow> (case w of PStr b \<Rightarrow> Inr (a \<noteq> b) | _ \<Rightarrow> bad)
      | PBool a \<Rightarrow> (case w of PBool b \<Rightarrow> Inr (a \<noteq> b) | _ \<Rightarrow> bad)
      | PFloat a \<Rightarrow> (case w of PFloat b \<Rightarrow> Inr (pe_far_apart env a b) | _ \<Rightarrow> bad)
      | PInt a \<Rightarrow> (case w of PInt b \<Rightarrow> Inr (a \<noteq> b) | _ \<Rightarrow> bad)
      | PUint64 a \<Rightarrow> (case w of PUint64 b \<Rightarrow> Inr (a \<noteq> b) | _ \<Rightarrow> bad)
      | _ \<Rightarrow> bad)"

definition SetProperty :: "('w, 'f) param_env \<Rightarrow> string \<Rightarrow> 'f pvalue \<Rightarrow> ('w params, unit) opn" where
  "SetProperty env name v = modify (\<lambda>p. p\<lparr>pc_world := pe_set env name v (pc_world p)\<rparr>)"

definition SetPropertyFromString :: "('w, 'f) param_env \<Rightarrow> ptype \<Rightarrow> string \<Rightarrow> string \<Rightarrow> ('w params, unit) opn" where
  "SetPropertyFromString env T name value =
     bindM (lift_res (read_value env T value)) (\<lambda>v.
     bindM (asks (\<lambda>p. case pe_get env (pc_world p) name of None \<Rightarrow> Inr True | Some v0 \<Rightarrow> differs env v0 v)) (\<lambda>isNewValue.
       only_if isNewValue (SetProperty env name v)))"

definition trim :: "string \<Rightarrow> string" where
  "trim s = rev (dropWhile is_space (rev (dropWhile is_space s)))"

definition array_of :: "string \<Rightarrow> string list" where
  "array_of line = split_compress (\<lambda>c. c \<in> set '', '') (trim line)"

definition ToArray :: "('w, 'f) param_env \<Rightarrow> string \<Rightarrow> string \<Rightarrow> ('w params, unit) opn" where
  "ToArray env name line = SetProperty env name (PList (array_of line))"

definition map_of_line :: "string \<Rightarrow> string smap" where
  "map_of_line line =
     fold (\<lambda>x m. case split_compress (\<lambda>c. c \<in> set ''= '') (trim x) of [k, v] \<Rightarrow> smap_emplace k v m | _ \<Rightarrow> m)
       (split_compress (\<lambda>c. c \<in> set '','') (trim line)) []"

definition ToMap :: "('w, 'f) param_env \<Rightarrow> string \<Rightarrow> string \<Rightarrow> ('w params, unit) opn" where
  "ToMap env name line = SetProperty env name (PMap (map_of_line line))"

text \<open>There is no branch for \<open>reservedOptionsUint16\<close>.\<close>

definition SetPropertyOfReservedOption :: "('w, 'f) param_env \<Rightarrow> string \<Rightarrow> string \<Rightarrow> ('w params, unit) opn" where
  "SetPropertyOfReservedOption env name value =
     (if name \<in> set reservedOptionsString then SetPropertyFromString env TString name value
      else if name \<in> set reservedOptionsInt then SetPropertyFromString env TInt name value
      else if name \<in> set reservedOptionsSize then SetPropertyFromString env TUint64 name value
      else if name \<in> set reservedOptionsBool then SetPropertyFromString env TBool name value
      else if name \<in> set reservedOptionsFloat then SetPropertyFromString env TFloat name value
      else if name \<in> set reservedOptionsVectorString then ToArray env name value
      else ret ())"

definition Parse :: "('w, 'f) param_env \<Rightarrow> string \<Rightarrow> string \<Rightarrow> ('w params, unit) opn" where
  "Parse env name line =
     (if IsReservedOption name then SetPropertyOfReservedOption env name line
      else if find_str line '','' = npos then SetPropertyFromString env TString name line
      else if find_str line ''='' = npos then ToArray env name line
      else ToMap env name line)"

section \<open>Reading the keys\<close>

definition last_part :: "string \<Rightarrow> string \<Rightarrow> string res" where
  "last_part sep name = substr_from name (sz_add (find_last_of name sep) 1)"

definition hash_prefix :: "string \<Rightarrow> 'w params \<Rightarrow> string res" where
  "hash_prefix name p =
     (if pc_key p = name \<or> pc_group_key p = name then Inr [] else last_part (pc_separator p) name)"

definition ReadHash :: "'w platform \<Rightarrow> ('w, 'f) param_env \<Rightarrow> string \<Rightarrow> ('w params, unit) opn" where
  "ReadHash pf env name =
     bindM (gets (\<lambda>p. rd_hgetall pf (pc_world p) name)) (\<lambda>h.
     bindM (asks (hash_prefix name)) (\<lambda>prefix.
     bindM (gets pc_separator) (\<lambda>sep.
       for_each h (\<lambda>(field, value). Parse env (if prefix = [] then field else prefix @ sep @ field) value))))"

definition ReadList :: "'w platform \<Rightarrow> ('w, 'f) param_env \<Rightarrow> string \<Rightarrow> ('w params, unit) opn" where
  "ReadList pf env name =
     bindM (gets (\<lambda>p. rd_lrange pf (pc_world p) name)) (\<lambda>v. only_if (v \<noteq> []) (SetProperty env name (PList v)))"

definition ReadSet :: "('w, 'f) param_env \<Rightarrow> string \<Rightarrow> ('w params, unit) opn" where
  "ReadSet env name =
     bindM (gets (\<lambda>p. pe_smembers env (pc_world p) name)) (\<lambda>v. only_if (v \<noteq> []) (SetProperty env name (PSet v)))"

definition ReadZset :: "('w, 'f) param_env \<Rightarrow> string \<Rightarrow> ('w params, unit) opn" where
  "ReadZset env name =
     bindM (gets (\<lambda>p. pe_zrange env (pc_world p) name)) (\<lambda>v. only_if (v \<noteq> []) (SetProperty env name (PScores v)))"

definition ReadString :: "'w platform \<Rightarrow> ('w, 'f) param_env \<Rightarrow> string \<Rightarrow> ('w params, unit) opn" where
  "ReadString pf env name =
     bindM (gets (\<lambda>p. rd_get pf (pc_world p) name)) (\<lambda>value. case value of
       None \<Rightarrow> ret ()
     | Some v \<Rightarrow> bindM (asks (\<lambda>p. last_part (pc_separator p) name)) (\<lambda>field. Parse env field v))"

definition read_key :: "'w platform \<Rightarrow> ('w, 'f) param_env \<Rightarrow> string \<Rightarrow> ('w params, unit) opn" where
  "read_key pf env x =
     bindM (gets (\<lambda>p. pe_type env (pc_world p) x)) (\<lambda>t.
       if t = ''string'' then ReadString pf env x
       else if t = ''list'' then ReadList pf env x
       else if t = ''hash'' then ReadHash pf env x
       else if t = ''set'' then ReadSet env x
       else if t = ''zset'' then ReadZset env x
       else ret ())"

definition get_string :: "('w, 'f) param_env \<Rightarrow> string \<Rightarrow> 'w \<Rightarrow> string res" where
  "get_string env name w =
     (case pe_get env w name of Some (PStr s) \<Rightarrow> Inr s | Some _ \<Rightarrow> Inl (Failure ''bad any cast'')
      | None \<Rightarrow> Inl (Failure ''property not found''))"

definition group_key :: "string \<Rightarrow> string option" where
  "group_key key =
     (let lastHyphen = find_last_of key ''-''
      in case substr_from key (sz_add lastHyphen 1) of Inl e \<Rightarrow> None
         | Inr idx \<Rightarrow> if list_all is_digit idx then Some (take lastHyphen key) else None)"

text \<open>A field that is empty is filled from a property; \<open>False\<close> when there is no such property yet.\<close>

definition fill :: "('w, 'f) param_env \<Rightarrow> ('w params \<Rightarrow> string) \<Rightarrow> (string \<Rightarrow> 'w params \<Rightarrow> 'w params) \<Rightarrow> string \<Rightarrow>
    ('w params, bool) opn" where
  "fill env sel upd name p =
     (if sel p \<noteq> [] then (Inr True, p)
      else if pe_get env (pc_world p) name = None then (Inr False, p)
      else case get_string env name (pc_world p) of Inl e \<Rightarrow> (Inl e, p) | Inr s \<Rightarrow> (Inr True, upd s p))"

definition set_keys :: "'w params \<Rightarrow> 'w params" where
  "set_keys p =
     (let p = (if pc_key p = [] then p\<lparr>pc_key := ParametersPrefix @ pc_separator p @ pc_id p\<rparr> else p)
      in if pc_group_key p = [] then (case group_key (pc_key p) of None \<Rightarrow> p | Some k \<Rightarrow> p\<lparr>pc_group_key := k\<rparr>) else p)"

definition locate :: "('w, 'f) param_env \<Rightarrow> ('w params, bool) opn" where
  "locate env =
     bindM (fill env pc_id (\<lambda>s p. p\<lparr>pc_id := s\<rparr>) ''id'') (\<lambda>ok. if \<not> ok then ret False else
     bindM (fill env pc_separator (\<lambda>s p. p\<lparr>pc_separator := s\<rparr>) ''separator'') (\<lambda>ok. if \<not> ok then ret False else
       seqM (modify set_keys) (ret True)))"

definition read_more :: "'w platform \<Rightarrow> ('w, 'f) param_env \<Rightarrow> string \<Rightarrow> ('w params, unit) opn" where
  "read_more pf env k =
     only_if (k \<noteq> []) (bindM (asks (\<lambda>p. scan pf (pc_world p) (k @ pc_separator p @ ''*''))) (\<lambda>keys. for_each keys (read_key pf env)))"

definition ReadParameters :: "'w platform \<Rightarrow> ('w, 'f) param_env \<Rightarrow> ('w params, unit) opn" where
  "ReadParameters pf env =
     bindM (locate env) (\<lambda>located.
       only_if located
         (bindM (gets (\<lambda>p. (pc_group_key p, pc_key p))) (\<lambda>(groupKey, key).
            seqM (ReadHash pf env groupKey)
           (seqM (ReadHash pf env key)
           (seqM (read_more pf env groupKey) (read_more pf env key))))))"

section \<open>Changes\<close>

text \<open>
  The two channels: the number of the data base is taken to follow the last slash of the URI.
\<close>

definition keyspace_channels :: "('w, 'f) param_env \<Rightarrow> 'w params \<Rightarrow> (string \<times> string) res" where
  "keyspace_channels env p =
     bindR (get_string env ServerUri (pc_world p)) (\<lambda>serverUri.
     bindR (substr_from serverUri (sz_add (find_last_of serverUri ''/'') 1)) (\<lambda>dbNumber.
       Inr (RedisKeySpacePrefix @ dbNumber @ ''__:'' @ pc_key p, RedisKeySpacePrefix @ dbNumber @ ''__:'' @ pc_group_key p)))"

text \<open>The loop ends when the device exits, or at the first exception.\<close>

fun param_loop :: "'w platform \<Rightarrow> ('w, 'f) param_env \<Rightarrow> string \<times> string \<Rightarrow> consumed list \<Rightarrow> ('w params, unit) opn" where
  "param_loop pf env chans [] p = (Inr (), p)"
| "param_loop pf env chans (c # cs) p =
     (if pc_shutdown p then (Inr (), p)
      else case c of
        TimedOut \<Rightarrow> param_loop pf env chans cs p
      | Broken e \<Rightarrow> (if catchable e then (Inr (), p) else (Inl e, p))
      | Message channel msg \<Rightarrow>
          if fst chans \<noteq> channel \<and> snd chans \<noteq> channel then param_loop pf env chans cs p
          else case ReadParameters pf env p of
              (Inl e, q) \<Rightarrow> (if catchable e then (Inr (), q) else (Inl e, q))
            | (Inr u, q) \<Rightarrow> param_loop pf env chans cs q)"

definition SubscribeToParameterChange :: "'w platform \<Rightarrow> ('w, 'f) param_env \<Rightarrow> bool \<Rightarrow> consumed list \<Rightarrow> ('w params, unit) opn" where
  "SubscribeToParameterChange pf env has_client cs =
     (if \<not> has_client then raise UndefinedBehaviour
      else bindM (asks (keyspace_channels env)) (\<lambda>chans. param_loop pf env chans cs))"

definition params_state_callback :: "DeviceState \<Rightarrow> ('w params, unit) opn" where
  "params_state_callback s = only_if (s = Error \<or> s = Exiting) (modify (\<lambda>p. p\<lparr>pc_shutdown := True\<rparr>))"

text \<open>The constructor and then its thread; there is a client if one of the two options gives a URI.\<close>

definition server_uri :: "('w, 'f) param_env \<Rightarrow> 'w \<Rightarrow> string res" where
  "server_uri env w =
     (if pe_get env w ServerUri \<noteq> None then get_string env ServerUri w
      else if pe_get env w ''registry-uri'' \<noteq> None then get_string env ''registry-uri'' w
      else Inr [])"

definition start_params :: "'w platform \<Rightarrow> ('w, 'f) param_env \<Rightarrow> consumed list \<Rightarrow> ('w params, unit) opn" where
  "start_params pf env cs =
     bindM (asks (\<lambda>p. server_uri env (pc_world p))) (\<lambda>uri.
       seqM (only_if (uri \<noteq> []) (ReadParameters pf env))
            (try_log (SubscribeToParameterChange pf env (uri \<noteq> []) cs)))"

section \<open>Lists and maps in a value\<close>

lemma squeeze_token: "\<not> list_ex P x \<Longrightarrow> squeeze P (x @ r) = x @ squeeze P r"
proof (induction x)
  case (Cons c x)
  then show ?case by (cases "x @ r") auto
qed simp

lemma squeeze_delimiters:
  assumes "d \<noteq> []" and "list_all P d" and "y \<noteq> []" and "\<not> P (hd y)"
  shows "squeeze P (d @ y) = last d # squeeze P y"
  using assms(1,2)
proof (induction d rule: list_nonempty_induct)
  case (single c)
  then show ?case using assms(3,4) by (cases y) auto
next
  case (cons c d)
  then show ?case by (cases d) auto
qed

definition plain_token :: "(char \<Rightarrow> bool) \<Rightarrow> string \<Rightarrow> bool" where
  "plain_token P x \<longleftrightarrow> x \<noteq> [] \<and> \<not> list_ex P x"

lemma plain_hd: "plain_token P x \<Longrightarrow> \<not> P (hd x)"
  by (cases x) (auto simp: plain_token_def)

lemma join_with_hd: "xs \<noteq> [] \<Longrightarrow> hd xs \<noteq> [] \<Longrightarrow> join_with sep xs \<noteq> [] \<and> hd (join_with sep xs) = hd (hd xs)"
  by (cases "(sep, xs)" rule: join_with.cases) auto

lemma squeeze_join:
  assumes "d \<noteq> []" and "list_all P d" and "xs \<noteq> []" and "\<And>x. x \<in> set xs \<Longrightarrow> plain_token P x"
  shows "squeeze P (join_with d xs) = join_with [last d] xs"
  using assms(3,4)
proof (induction xs rule: list_nonempty_induct)
  case (single x)
  then show ?case using squeeze_token [of P x "[]"] by (simp add: plain_token_def)
next
  case (cons x xs)
  then obtain y ys where xs: "xs = y # ys" by (cases xs) auto
  have y: "join_with d xs \<noteq> []" "\<not> P (hd (join_with d xs))"
    using cons.prems plain_hd [of P y] join_with_hd [of xs d] by (auto simp: xs plain_token_def)
  have "squeeze P (x @ d @ join_with d xs) = x @ last d # squeeze P (join_with d xs)"
    using cons.prems squeeze_token [of P x] squeeze_delimiters [OF assms(1,2) y] by (auto simp: plain_token_def)
  with cons show ?case by (simp add: xs)
qed

lemma split_compress_join:
  assumes "d \<noteq> []" and "list_all P d" and "xs \<noteq> []" and "\<And>x. x \<in> set xs \<Longrightarrow> plain_token P x"
  shows "split_compress P (join_with d xs) = xs"
proof -
  have "P (last d)" using assms(1,2) by (simp add: list_all_iff)
  then show ?thesis
    using assms(3,4) squeeze_join [OF assms] by (simp add: split_compress_def plain_token_def split_join)
qed

lemma trim_same: "s \<noteq> [] \<Longrightarrow> \<not> is_space (hd s) \<Longrightarrow> \<not> is_space (last s) \<Longrightarrow> trim s = s"
proof -
  assume s: "s \<noteq> []" "\<not> is_space (hd s)" "\<not> is_space (last s)"
  then have "dropWhile is_space s = s" by (cases s) auto
  moreover have "dropWhile is_space (rev s) = rev s" using s(1,3) by (cases s rule: rev_cases) auto
  ultimately show ?thesis by (simp add: trim_def)
qed

lemma join_with_last: "xs \<noteq> [] \<Longrightarrow> last xs \<noteq> [] \<Longrightarrow> join_with sep xs \<noteq> [] \<and> last (join_with sep xs) = last (last xs)"
proof (induction xs rule: list_nonempty_induct)
  case (cons x xs)
  then show ?case by (cases xs) auto
qed simp

text \<open>A word: no white space, no comma, no equals sign.\<close>

definition word_text :: "string \<Rightarrow> bool" where
  "word_text x \<longleftrightarrow> x \<noteq> [] \<and> (\<forall>c\<in>set x. \<not> is_space c \<and> c \<noteq> CHR '','' \<and> c \<noteq> CHR ''='')"

lemma space_is_space [simp]: "is_space (CHR '' '')"
  by (simp add: is_space_def)

lemma word_text_ends: "word_text x \<Longrightarrow> x \<noteq> [] \<and> \<not> is_space (hd x) \<and> \<not> is_space (last x)"
  by (simp add: word_text_def)

lemma plain_word: "word_text x \<Longrightarrow> plain_token (\<lambda>c. c \<in> set '', '') x" "word_text x \<Longrightarrow> plain_token (\<lambda>c. c \<in> set ''= '') x"
proof -
  assume x: "word_text x"
  have "\<not> (c = CHR '','' \<or> c = CHR ''='' \<or> c = CHR '' '')" if "c \<in> set x" for c
    using x that space_is_space unfolding word_text_def by blast
  then show "plain_token (\<lambda>c. c \<in> set '', '') x" "plain_token (\<lambda>c. c \<in> set ''= '') x"
    using x unfolding plain_token_def word_text_def list_ex_iff by fastforce+
qed

lemma trim_join:
  assumes "xs \<noteq> []" and "\<And>x. x \<in> set xs \<Longrightarrow> x \<noteq> [] \<and> \<not> is_space (hd x) \<and> \<not> is_space (last x)"
  shows "trim (join_with d xs) = join_with d xs"
proof -
  have h: "hd xs \<in> set xs" "last xs \<in> set xs" using assms(1) by auto
  show ?thesis
    using assms(2) [OF h(1)] assms(2) [OF h(2)] join_with_hd [OF assms(1), of d] join_with_last [OF assms(1), of d]
    by (intro trim_same) simp_all
qed

lemma find_char: "fits s \<Longrightarrow> find_str s [c] = npos \<longleftrightarrow> c \<notin> set s"
  by (simp add: find_str_npos) (metis in_set_conv_decomp)

lemma comma_in_join: "2 \<le> length xs \<Longrightarrow> CHR '','' \<in> set d \<Longrightarrow> CHR '','' \<in> set (join_with d xs)"
  by (cases "(d, xs)" rule: join_with.cases) auto

lemma set_join: "set (join_with d xs) \<subseteq> set d \<union> (\<Union>x\<in>set xs. set x)"
  by (induction d xs rule: join_with.induct) auto

text \<open>
  A parameter that lists at least two words, separated by commas or by commas and spaces, becomes a
  property that is the list of the words.
\<close>

theorem array_parameter:
  assumes "\<not> IsReservedOption name" and "d \<in> {'','', '', ''}" and "2 \<le> length xs"
    and "list_all word_text xs" and "fits (join_with d xs)"
  shows "Parse env name (join_with d xs) = SetProperty env name (PList xs)"
proof -
  let ?line = "join_with d xs"
  have d: "d \<noteq> []" "list_all (\<lambda>c. c \<in> set '', '') d" "CHR '','' \<in> set d" "CHR ''='' \<notin> set d"
    using assms(2) by auto
  have words: "\<And>x. x \<in> set xs \<Longrightarrow> word_text x" and xs: "xs \<noteq> []" using assms(3,4) by (auto simp: list_all_iff)
  have "split_compress (\<lambda>c. c \<in> set '', '') ?line = xs"
    by (rule split_compress_join [OF d(1,2) xs]) (intro plain_word words)
  moreover have "trim ?line = ?line" using words word_text_ends by (intro trim_join [OF xs]) blast
  moreover have "find_str ?line '','' \<noteq> npos" using comma_in_join [OF assms(3) d(3)] by (simp add: find_char [OF assms(5)])
  moreover have "find_str ?line ''='' = npos"
    using set_join [of d xs] d(4) words by (auto simp: find_char [OF assms(5)] word_text_def)
  ultimately show ?thesis using assms(1) by (simp add: Parse_def ToArray_def array_of_def)
qed

definition pair_text :: "string \<times> string \<Rightarrow> string" where
  "pair_text kv = fst kv @ ''='' @ snd kv"

lemma fold_emplace:
  assumes "distinct (map fst kvs)" and "\<forall>k\<in>fst ` set kvs. map_of m k = None"
  shows "map_of (fold (\<lambda>(k, v) m. smap_emplace k v m) kvs m) = map_of m ++ map_of kvs"
  using assms
proof (induction kvs arbitrary: m)
  case (Cons kv kvs)
  obtain k v where kv: "kv = (k, v)" by fastforce
  have "map_of (fold (\<lambda>(k, v) m. smap_emplace k v m) kvs (smap_put k v m)) = map_of (smap_put k v m) ++ map_of kvs"
    using Cons.prems kv by (intro Cons.IH) auto
  also have "\<dots> = map_of m ++ map_of ((k, v) # kvs)"
    using Cons.prems(1) by (simp add: kv map_add_upd_left dom_map_of_conv_image_fst)
  finally show ?case using Cons.prems by (simp add: kv smap_emplace_def fun_eq_iff map_add_def)
qed simp

text \<open>
  A parameter that lists at least two assignments, separated by commas, becomes a property that is the
  map of the assignments.
\<close>

theorem map_parameter:
  assumes "\<not> IsReservedOption name" and "2 \<le> length kvs" and "distinct (map fst kvs)"
    and "list_all (\<lambda>(k, v). word_text k \<and> word_text v) kvs" and "fits (join_with '','' (map pair_text kvs))"
  shows "\<exists>m. Parse env name (join_with '','' (map pair_text kvs)) = SetProperty env name (PMap m) \<and> map_of m = map_of kvs"
proof -
  let ?xs = "map pair_text kvs" and ?line = "join_with '','' (map pair_text kvs)"
  have words: "word_text (fst kv)" "word_text (snd kv)" if "kv \<in> set kvs" for kv
    using that assms(4) by (auto simp: list_all_iff)
  have xs: "?xs \<noteq> []" using assms(2) by auto
  have ends: "x \<noteq> [] \<and> \<not> is_space (hd x) \<and> \<not> is_space (last x)" if "x \<in> set ?xs" for x
  proof -
    from that obtain kv where kv: "kv \<in> set kvs" "x = pair_text kv" by auto
    with words [OF kv(1)] show ?thesis by (auto simp: pair_text_def word_text_def hd_append)
  qed
  have "split_compress (\<lambda>c. c \<in> set '','') ?line = ?xs"
    using assms(4) by (intro split_compress_join [OF _ _ xs])
      (fastforce simp: plain_token_def pair_text_def word_text_def list_ex_iff list_all_iff)+
  moreover have "split_compress (\<lambda>c. c \<in> set ''= '') (trim (pair_text kv)) = [fst kv, snd kv]" if kv: "kv \<in> set kvs" for kv
  proof -
    have "trim (pair_text kv) = pair_text kv" using ends [of "pair_text kv"] kv by (simp add: trim_same)
    then have "trim (pair_text kv) = join_with ''='' [fst kv, snd kv]" by (simp add: pair_text_def)
    moreover have "split_compress (\<lambda>c. c \<in> set ''= '') (join_with ''='' [fst kv, snd kv]) = [fst kv, snd kv]"
      using plain_word(2) [OF words(1) [OF kv]] plain_word(2) [OF words(2) [OF kv]] by (intro split_compress_join) auto
    ultimately show ?thesis by simp
  qed
  then have "fold (\<lambda>x m. case split_compress (\<lambda>c. c \<in> set ''= '') (trim x) of [k, v] \<Rightarrow> smap_emplace k v m | _ \<Rightarrow> m) ?xs m =
      fold (\<lambda>(k, v) m. smap_emplace k v m) kvs m" for m
    unfolding fold_map by (intro fold_cong refl) (auto simp: fun_eq_iff split: prod.split)
  moreover have "trim ?line = ?line" using ends by (intro trim_join [OF xs]) blast
  ultimately have "map_of (map_of_line ?line) = map_of kvs"
    using fold_emplace [OF assms(3), of "[]"] by (simp add: map_of_line_def)
  moreover have "find_str ?line '','' \<noteq> npos"
    using assms(2) comma_in_join [of ?xs "'',''"] by (simp add: find_char [OF assms(5)])
  moreover have "find_str ?line ''='' \<noteq> npos"
  proof -
    have "CHR ''='' \<in> set ?line"
      using xs by (cases kvs rule: list.exhaust; cases "tl kvs") (auto simp: pair_text_def)
    then show ?thesis by (simp add: find_char [OF assms(5)])
  qed
  ultimately show ?thesis using assms(1) by (auto simp: Parse_def ToMap_def)
qed

section \<open>Typed properties\<close>

text \<open>
  Reading a property back gives what was set, the other properties keep their values, and the registry
  is not the property store.
\<close>

definition param_store :: "('w, 'f) param_env \<Rightarrow> ('w \<Rightarrow> keyspace) \<Rightarrow> bool" where
  "param_store env view \<longleftrightarrow>
     (\<forall>n v w q. pe_get env (pe_set env n v w) q = (if q = n then Some v else pe_get env w q)) \<and>
     (\<forall>n v w. view (pe_set env n v w) = view w) \<and> (\<forall>a. \<not> pe_far_apart env a a)"

lemma SetPropertyFromString_cases:
  assumes "SetPropertyFromString env T name value p = (Inr (), q)"
  obtains v where "read_value env T value = Inr v"
    "(q = p \<and> (\<exists>v0. pe_get env (pc_world p) name = Some v0 \<and> differs env v0 v = Inr False)) \<or>
     q = p\<lparr>pc_world := pe_set env name v (pc_world p)\<rparr>"
proof -
  from assms obtain v where v: "read_value env T value = Inr v"
    by (auto simp: SetPropertyFromString_def bindM_def op_simps split: sum.splits)
  moreover have "(q = p \<and> (\<exists>v0. pe_get env (pc_world p) name = Some v0 \<and> differs env v0 v = Inr False)) \<or>
      q = p\<lparr>pc_world := pe_set env name v (pc_world p)\<rparr>"
    using assms v
    by (auto simp: SetPropertyFromString_def bindM_def op_simps SetProperty_def only_if_def split: option.splits sum.splits if_splits)
  ultimately show thesis by (rule that)
qed

lemma differs_same: "read_value env T s = Inr v \<Longrightarrow> \<not> (\<exists>a. pe_far_apart env a a) \<Longrightarrow> differs env v v = Inr False"
  by (cases T) (auto simp: differs_def bindR_Inr_iff)

text \<open>
  Reading the same value again changes nothing: once a parameter has been stored, a second reading
  finds it equal, whatever its type, and leaves the property store alone.
\<close>

theorem reread_changes_nothing:
  assumes "param_store env view" and "SetPropertyFromString env T name value p = (Inr (), q)"
  shows "SetPropertyFromString env T name value q = (Inr (), q)"
proof -
  obtain v where v: "read_value env T value = Inr v"
    and q: "(q = p \<and> (\<exists>v0. pe_get env (pc_world p) name = Some v0 \<and> differs env v0 v = Inr False)) \<or>
      q = p\<lparr>pc_world := pe_set env name v (pc_world p)\<rparr>"
    using SetPropertyFromString_cases [OF assms(2)] by blast
  have "\<exists>v0. pe_get env (pc_world q) name = Some v0 \<and> differs env v0 v = Inr False"
    using q assms(1) differs_same [OF v] by (auto simp: param_store_def)
  then show ?thesis
    by (auto simp: SetPropertyFromString_def bindM_def op_simps v only_if_def)
qed

text \<open>
  An integer option is cut to 32 bits without a complaint: the number that is stored is the one that was
  written exactly when it fits, while a number beyond 64 bits throws.
\<close>

theorem int_option_truncated:
  "(- (2 ^ 63) \<le> i \<and> i < 2 ^ 63 \<longrightarrow>
      read_value env TInt (show_int i) = Inr (PInt (word_of_int i)) \<and> (sint (word_of_int i :: 32 word) = i \<longleftrightarrow> int32 i)) \<and>
   (\<not> (- (2 ^ 63) \<le> i \<and> i < 2 ^ 63) \<longrightarrow> read_value env TInt (show_int i) = Inl OutOfRange)"
proof -
  have "sint (word_of_int i :: 32 word) = i \<longleftrightarrow> int32 i"
    by (simp add: sint_sbintrunc' signed_take_bit_int_eq_self_iff int32_def) arith
  then show ?thesis by (simp add: stoll_def)
qed

text \<open>
  A negative size is not refused: \<open>stoull\<close> takes the sign and the option becomes a number just below
  the largest one.
\<close>

theorem negative_size_accepted:
  assumes "0 < i" and "i < 2 ^ 63"
  shows "\<exists>v. read_value env TUint64 (show_int (- i)) = Inr (PUint64 v) \<and> uint v = 2 ^ 64 - i"
proof -
  have "uint (word_of_int (- i) :: 64 word) = - i mod 2 ^ 64"
    unfolding uint_word_of_int by simp
  also have "\<dots> = 2 ^ 64 - i" using assms by (simp add: zmod_zminus1_eq_if)
  finally have "uint (word_of_int (- i) :: 64 word) = 2 ^ 64 - i" .
  then show ?thesis using assms by (intro exI [of _ "word_of_int (- i)"]) (simp add: stoull_def)
qed

text \<open>
  The option \<open>shm-segment-id\<close> counts as reserved but has no branch: a parameter of this name is dropped.
\<close>

theorem segment_id_ignored: "Parse env ''shm-segment-id'' value p = (Inr (), p)"
  by (simp add: Parse_def IsReservedOption_def SetPropertyOfReservedOption_def reservedOptionsString_def reservedOptionsInt_def
      reservedOptionsBool_def reservedOptionsSize_def reservedOptionsUint16_def reservedOptionsFloat_def
      reservedOptionsVectorString_def op_simps)

section \<open>The instance and its group\<close>

definition plain_parameter :: "string \<Rightarrow> string \<Rightarrow> bool" where
  "plain_parameter f v \<longleftrightarrow> \<not> IsReservedOption f \<and> find_str v '','' = npos"

definition frame :: "'w params \<Rightarrow> string \<times> string \<times> string \<times> string" where
  "frame p = (pc_id p, pc_separator p, pc_key p, pc_group_key p)"

text \<open>What the handling of the parameter \<open>g\<close> keeps: the fields, the registry and the other properties.\<close>

definition others_kept :: "('w, 'f) param_env \<Rightarrow> ('w \<Rightarrow> keyspace) \<Rightarrow> 'w params \<Rightarrow> string \<Rightarrow> 'w params \<Rightarrow> bool" where
  "others_kept env view p g q \<longleftrightarrow>
     frame q = frame p \<and> view (pc_world q) = view (pc_world p) \<and>
     (\<forall>f. f \<noteq> g \<longrightarrow> pe_get env (pc_world q) f = pe_get env (pc_world p) f)"

lemma SetProperty_kept: "param_store env view \<Longrightarrow> others_kept env view p g (snd (SetProperty env g v p))"
  by (simp add: others_kept_def SetProperty_def op_simps param_store_def frame_def)

lemma SetPropertyFromString_kept:
  assumes "param_store env view"
  shows "others_kept env view p g (snd (SetPropertyFromString env T g v p))"
proof -
  have "others_kept env view p g p" by (simp add: others_kept_def)
  then show ?thesis using SetProperty_kept [OF assms, of p g]
    by (auto simp: SetPropertyFromString_def bindM_def op_simps only_if_def split: sum.split)
qed

lemma Parse_kept: "param_store env view \<Longrightarrow> others_kept env view p g (snd (Parse env g v p))"
  by (simp add: Parse_def SetPropertyOfReservedOption_def SetPropertyFromString_kept SetProperty_kept ToArray_def ToMap_def
      op_simps others_kept_def [of env view p g p])

lemma differs_PStr: "differs env v0 (PStr v) = Inr False \<longleftrightarrow> v0 = PStr v"
  by (cases v0) (simp_all add: differs_def)

lemma Parse_plain:
  assumes "param_store env view" and "plain_parameter f v" and "Parse env f v p = (Inr (), q)"
  shows "pe_get env (pc_world q) f = Some (PStr v)"
proof -
  have "SetPropertyFromString env TString f v p = (Inr (), q)"
    using assms(2,3) by (simp add: Parse_def plain_parameter_def)
  then show ?thesis
    using assms(1) by (elim SetPropertyFromString_cases) (auto simp: differs_PStr param_store_def)
qed

lemma parse_all:
  assumes "param_store env view" and "distinct (map fst h)" and "for_each h (\<lambda>(f, v). Parse env f v) p = (Inr (), q)"
  shows "frame q = frame p \<and> view (pc_world q) = view (pc_world p) \<and>
    (\<forall>f v. map_of h f = Some v \<longrightarrow> plain_parameter f v \<longrightarrow> pe_get env (pc_world q) f = Some (PStr v)) \<and>
    (\<forall>f. map_of h f = None \<longrightarrow> pe_get env (pc_world q) f = pe_get env (pc_world p) f)"
  using assms(2,3)
proof (induction h arbitrary: p)
  case (Cons gv h)
  obtain g v where gv: "gv = (g, v)" by fastforce
  from Cons.prems(2) obtain r where r: "Parse env g v p = (Inr (), r)" "for_each h (\<lambda>(f, v). Parse env f v) r = (Inr (), q)"
    by (auto simp: gv seqM_eq_Inr)
  have kept: "others_kept env view p g r" using Parse_kept [OF assms(1), of p g v] r(1) by simp
  note ih = Cons.IH [OF _ r(2)]
  have g: "map_of h g = None" and dist: "distinct (map fst h)"
    using Cons.prems(1) by (auto simp: gv map_of_eq_None_iff)
  show ?case
    using ih [OF dist] kept g Parse_plain [OF assms(1) _ r(1)] by (auto simp: gv others_kept_def)
qed (simp add: op_simps)

lemma ReadHash_own:
  assumes "redis_server pf view mt" and "param_store env view" and "name \<in> {pc_key p, pc_group_key p}"
    and "hash_of view (pc_world p) name = Some h" and "ReadHash pf env name p = (Inr (), q)"
  shows "frame q = frame p \<and> view (pc_world q) = view (pc_world p) \<and>
    (\<forall>f v. map_of h f = Some v \<longrightarrow> plain_parameter f v \<longrightarrow> pe_get env (pc_world q) f = Some (PStr v)) \<and>
    (\<forall>f. map_of h f = None \<longrightarrow> pe_get env (pc_world q) f = pe_get env (pc_world p) f)"
proof -
  let ?all = "rd_hgetall pf (pc_world p) name"
  have all: "distinct (map fst ?all)" "map_of ?all = map_of h"
    using redis_reads [OF assms(1)] assms(4)
    by (auto simp: redis_reads_def hash_of_def fun_eq_iff split: option.splits rvalue.splits)
  have "for_each ?all (\<lambda>(f, v). Parse env f v) p = (Inr (), q)"
    using assms(3,5) by (auto simp: ReadHash_def op_simps bindM_def hash_prefix_def)
  from parse_all [OF assms(2) all(1) this] show ?thesis unfolding all(2) .
qed

definition no_more_keys :: "('w \<Rightarrow> keyspace) \<Rightarrow> (string \<Rightarrow> string \<Rightarrow> bool) \<Rightarrow> string \<Rightarrow> 'w params \<Rightarrow> bool" where
  "no_more_keys view mt k p \<longleftrightarrow> \<not> (\<exists>x. view (pc_world p) x \<noteq> None \<and> mt (k @ pc_separator p @ ''*'') x)"

lemma read_more_none:
  assumes "redis_server pf view mt" and "no_more_keys view mt k p"
  shows "read_more pf env k p = (Inr (), p)"
proof -
  obtain keys where "scan pf (pc_world p) (k @ pc_separator p @ ''*'') = Inr keys"
    "set keys = {x. view (pc_world p) x \<noteq> None \<and> mt (k @ pc_separator p @ ''*'') x}"
    using key_scanner.scan_ok [OF key_scanner_scan [OF assms(1)], of "pc_world p" "k @ pc_separator p @ ''*''"] by blast
  moreover from this(2) assms(2) have "set keys = {}" by (simp add: no_more_keys_def)
  ultimately show ?thesis by (simp add: read_more_def only_if_def op_simps bindM_def)
qed


section \<open>The subscription\<close>

text \<open>
  Without a URI of its own the plugin never hears of a change: the plugin reads its parameters from the
  service registry, but the subscription asks for the missing property and throws at once.
\<close>

theorem registry_uri_unsubscribed:
  assumes "pe_get env (pc_world p) ServerUri = None"
  shows "\<exists>e. SubscribeToParameterChange pf env True cs p = (Inl e, p) \<and> catchable e"
  using assms by (simp add: SubscribeToParameterChange_def keyspace_channels_def get_string_def bindM_def op_simps catchable_def)

text \<open>
  The first parameter that cannot be converted ends all updates: the exception leaves the loop over
  the messages, and whatever is changed later is not read any more.
\<close>

theorem bad_parameter_ends_updates:
  assumes "keyspace_channels env p = Inr chans" and "channel = fst chans \<or> channel = snd chans" and "\<not> pc_shutdown p"
    and "ReadParameters pf env p = (Inl e, q)" and "catchable e"
  shows "SubscribeToParameterChange pf env True (Message channel msg # cs) p = (Inr (), q)"
  using assms by (auto simp: SubscribeToParameterChange_def bindM_def op_simps)

text \<open>The group of an instance \<open>service-n\<close> is \<open>service\<close>.\<close>

lemma find_last_char: "c \<notin> set b \<Longrightarrow> find_last_of (a @ [c] @ b) [c] = length a"
  by (simp add: find_last_of_def str_simps list_ex_iff)

lemma group_key_instance:
  assumes "fits (a @ ''-'' @ show_nat n)"
  shows "group_key (a @ ''-'' @ show_nat n) = Some a"
proof -
  have "CHR ''-'' \<notin> set (show_nat n)" using show_nat_digits [of "CHR ''-''" n] by (auto simp: is_digit_def)
  note last = find_last_char [OF this, of a]
  have "sz_add (length a) 1 = length (a @ ''-'')" using assms by (simp add: fits_def npos_def size_max_def)
  then have "substr_from (a @ ''-'' @ show_nat n) (sz_add (length a) 1) = Inr (show_nat n)"
    using assms substr_from_append [of "a @ ''-''" "show_nat n"] by simp
  then show ?thesis
    unfolding group_key_def last Let_def using show_nat_digits by (simp add: list_all_iff)
qed

text \<open>
  An instance with the id \<open>service-n\<close> reads the hash of the group \<open>parameters:service\<close> and then its own,
  \<open>parameters:service-n\<close>.
\<close>

theorem instance_and_group_keys:
  assumes "pc_id p = []" and "pc_separator p = []" and "pc_key p = []" and "pc_group_key p = []"
    and "pe_get env (pc_world p) ''id'' = Some (PStr (service @ ''-'' @ show_nat n))"
    and "pe_get env (pc_world p) ''separator'' = Some (PStr sep)"
    and "fits (ParametersPrefix @ sep @ service @ ''-'' @ show_nat n)"
  shows "\<exists>q. locate env p = (Inr True, q) \<and> pc_key q = ParametersPrefix @ sep @ service @ ''-'' @ show_nat n \<and>
    pc_group_key q = ParametersPrefix @ sep @ service \<and> pc_world q = pc_world p"
proof -
  have "ParametersPrefix @ sep @ service @ ''-'' @ show_nat n \<noteq> []" by simp
  moreover have "group_key (ParametersPrefix @ sep @ service @ ''-'' @ show_nat n) = Some (ParametersPrefix @ sep @ service)"
    using group_key_instance [of "ParametersPrefix @ sep @ service" n] assms(7) by simp
  ultimately show ?thesis
    using assms(1-6) by (simp add: locate_def fill_def get_string_def bindM_def op_simps set_keys_def Let_def)
qed

section \<open>Witnesses\<close>

record param_world = world +
  pprops :: "(string \<times> unit pvalue) list"

text \<open>A property store that is an association list; there is only one floating point number.\<close>

definition sample_params_env :: "(param_world, unit) param_env" where
  "sample_params_env =
     \<lparr>pe_get = \<lambda>w n. map_of (pprops w) n, pe_set = \<lambda>n v w. w\<lparr>pprops := (n, v) # pprops w\<rparr>,
      pe_type = \<lambda>w k. (case map_of (store w) k of Some (RStr s) \<Rightarrow> ''string'' | Some (RHash h) \<Rightarrow> ''hash'' | _ \<Rightarrow> ''none''),
      pe_smembers = \<lambda>w k. [], pe_zrange = \<lambda>w k. [], pe_float = \<lambda>s. Inr (), pe_far_apart = \<lambda>a b. False\<rparr>"

lemma sample_param_store: "param_store sample_params_env ref_view"
  by (simp add: param_store_def sample_params_env_def ref_view_def)

definition sample_params :: "(string \<times> string) list \<Rightarrow> (string \<times> string) list \<Rightarrow> param_world params" where
  "sample_params hg h =
     \<lparr>pc_id = [], pc_separator = [], pc_key = [], pc_group_key = [], pc_shutdown = False,
      pc_world = \<lparr>store = [(''parameters:Sink'', RHash hg), (''parameters:Sink-0'', RHash h)], props = [], canceled = False, pauses = 0,
        pprops = [(''id'', PStr ''Sink-0''), (''separator'', PStr '':''), (ServerUri, PStr ''tcp://localhost:6379/1'')]\<rparr>\<rparr>"

definition located_params :: "(string \<times> string) list \<Rightarrow> (string \<times> string) list \<Rightarrow> param_world params" where
  "located_params hg h = (sample_params hg h)\<lparr>pc_id := ''Sink-0'', pc_separator := '':'', pc_key := ''parameters:Sink-0'',
     pc_group_key := ''parameters:Sink''\<rparr>"

lemma group_key_sample: "group_key ''parameters:Sink-0'' = Some ''parameters:Sink''"
proof -
  have zero: "show_nat 0 = ''0''" by code_simp
  show ?thesis using group_key_instance [of "''parameters:Sink''" 0] unfolding zero by (simp add: fits_def npos_def size_max_def)
qed

lemma locate_sample: "locate sample_params_env (sample_params hg h) = (Inr True, located_params hg h)"
  by (simp add: locate_def fill_def get_string_def bindM_def op_simps set_keys_def Let_def sample_params_def located_params_def
      sample_params_env_def ParametersPrefix_def ServerUri_def group_key_sample)

theorem array_parameter_witness:
  "Parse sample_params_env ''in'' ''a, b'' = SetProperty sample_params_env ''in'' (PList [''a'', ''b''])"
  using array_parameter [of "''in''" "'', ''" "[''a'', ''b'']" sample_params_env]
  by (simp add: IsReservedOption_def reservedOptionsString_def reservedOptionsInt_def reservedOptionsBool_def
      reservedOptionsSize_def reservedOptionsUint16_def reservedOptionsFloat_def reservedOptionsVectorString_def
      word_text_def is_space_def fits_def npos_def size_max_def)

theorem map_parameter_witness:
  "\<exists>m. Parse sample_params_env ''gain'' ''x=1,y=2'' = SetProperty sample_params_env ''gain'' (PMap m) \<and>
    map_of m = [''y'' \<mapsto> ''2'', ''x'' \<mapsto> ''1'']"
  using map_parameter [of "''gain''" "[(''x'', ''1''), (''y'', ''2'')]" sample_params_env]
  by (simp add: IsReservedOption_def reservedOptionsString_def reservedOptionsInt_def reservedOptionsBool_def
      reservedOptionsSize_def reservedOptionsUint16_def reservedOptionsFloat_def reservedOptionsVectorString_def
      word_text_def is_space_def fits_def npos_def size_max_def pair_text_def)

lemma set_sample:
  "SetPropertyFromString sample_params_env TString ''gain'' ''2'' (sample_params [] []) =
     (Inr (), (sample_params [] [])\<lparr>pc_world := pe_set sample_params_env ''gain'' (PStr ''2'') (pc_world (sample_params [] []))\<rparr>)"
  by (simp add: SetPropertyFromString_def bindM_def op_simps only_if_def SetProperty_def sample_params_env_def sample_params_def ServerUri_def)

theorem reread_changes_nothing_witness:
  "\<exists>q. SetPropertyFromString sample_params_env TString ''gain'' ''2'' q = (Inr (), q)"
  using reread_changes_nothing [OF sample_param_store set_sample] by blast

theorem int_option_truncated_witness:
  "read_value sample_params_env TInt (show_int 4294967297) = Inr (PInt (word_of_int 4294967297)) \<and>
   sint (word_of_int 4294967297 :: 32 word) \<noteq> 4294967297"
  using int_option_truncated [of 4294967297 sample_params_env] by (simp add: int32_def)

theorem negative_size_accepted_witness:
  "\<exists>v. read_value sample_params_env TUint64 (show_int (- 1)) = Inr (PUint64 v) \<and> uint v = 18446744073709551615"
  using negative_size_accepted [of 1 sample_params_env] by simp

theorem registry_uri_unsubscribed_witness:
  "\<exists>e. SubscribeToParameterChange ref_platform sample_params_env True []
      ((sample_params [] [])\<lparr>pc_world := (pc_world (sample_params [] []))\<lparr>pprops := []\<rparr>\<rparr>) =
    (Inl e, (sample_params [] [])\<lparr>pc_world := (pc_world (sample_params [] []))\<lparr>pprops := []\<rparr>\<rparr>) \<and> catchable e"
  by (rule registry_uri_unsubscribed) (simp add: sample_params_env_def)

theorem instance_and_group_keys_witness:
  "\<exists>q. locate sample_params_env (sample_params [] []) = (Inr True, q) \<and> pc_key q = ''parameters:Sink-0''"
proof -
  have "show_nat 0 = ''0''" by code_simp
  with instance_and_group_keys [of "sample_params [] []" sample_params_env "''Sink''" 0 "'':''"]
  show ?thesis
    by (auto simp: sample_params_def sample_params_env_def ServerUri_def ParametersPrefix_def fits_def npos_def size_max_def)
qed

lemma sample_hashes:
  "hash_of ref_view (pc_world (located_params hg h)) (pc_group_key (located_params hg h)) = Some hg"
  "hash_of ref_view (pc_world (located_params hg h)) (pc_key (located_params hg h)) = Some h"
  by (simp_all add: hash_of_def ref_view_def located_params_def sample_params_def)

lemma sample_no_more:
  "no_more_keys ref_view glob (pc_key (located_params hg h)) (located_params hg h)"
  "no_more_keys ref_view glob (pc_group_key (located_params hg h)) (located_params hg h)"
  by (auto simp: no_more_keys_def ref_view_def located_params_def sample_params_def split: if_splits)

definition set_gain :: "string \<Rightarrow> param_world params \<Rightarrow> param_world params" where
  "set_gain v p = p\<lparr>pc_world := (pc_world p)\<lparr>pprops := (''gain'', PStr v) # pprops (pc_world p)\<rparr>\<rparr>"

lemma plain_gain: "plain_parameter ''gain'' ''1''" "plain_parameter ''gain'' ''2''"
proof -
  have "fits ''1''" "fits ''2''" by (simp_all add: fits_def npos_def size_max_def)
  then have "find_str ''1'' '','' = npos" "find_str ''2'' '','' = npos" by (simp_all add: find_char)
  then show "plain_parameter ''gain'' ''1''" "plain_parameter ''gain'' ''2''"
    by (simp_all add: plain_parameter_def IsReservedOption_def reservedOptionsString_def reservedOptionsInt_def reservedOptionsBool_def
        reservedOptionsSize_def reservedOptionsUint16_def reservedOptionsFloat_def reservedOptionsVectorString_def)
qed

lemma read_gain_group:
  "ReadHash ref_platform sample_params_env ''parameters:Sink'' (located_params [(''gain'', ''1'')] h) =
     (Inr (), set_gain ''1'' (located_params [(''gain'', ''1'')] h))"
  using plain_gain(1)
  by (simp add: ReadHash_def op_simps bindM_def hash_prefix_def ref_sel Parse_def plain_parameter_def SetPropertyFromString_def
      SetProperty_def only_if_def set_gain_def located_params_def sample_params_def sample_params_env_def ServerUri_def seqM_def)

lemma read_gain_instance:
  "ReadHash ref_platform sample_params_env ''parameters:Sink-0'' (set_gain ''1'' (located_params hg [(''gain'', ''2'')])) =
     (Inr (), set_gain ''2'' (set_gain ''1'' (located_params hg [(''gain'', ''2'')])))"
  using plain_gain(2)
  by (simp add: ReadHash_def op_simps bindM_def hash_prefix_def ref_sel Parse_def plain_parameter_def SetPropertyFromString_def
      SetProperty_def only_if_def set_gain_def located_params_def sample_params_def sample_params_env_def ServerUri_def seqM_def differs_def)

lemma read_gain:
  "ReadParameters ref_platform sample_params_env (sample_params [(''gain'', ''1'')] [(''gain'', ''2'')]) =
     (Inr (), set_gain ''2'' (set_gain ''1'' (located_params [(''gain'', ''1'')] [(''gain'', ''2'')])))"
proof -
  let ?p = "located_params [(''gain'', ''1'')] [(''gain'', ''2'')]"
  have keys: "pc_group_key ?p = ''parameters:Sink''" "pc_key ?p = ''parameters:Sink-0''" by (simp_all add: located_params_def)
  have none: "read_more ref_platform sample_params_env k (set_gain ''2'' (set_gain ''1'' ?p)) = (Inr (), set_gain ''2'' (set_gain ''1'' ?p))"
    if "k \<in> {pc_key ?p, pc_group_key ?p}" for k
  proof (rule read_more_none [OF ref_redis_server])
    have "no_more_keys ref_view glob k (set_gain v p) = no_more_keys ref_view glob k p" for v p
      by (simp add: no_more_keys_def ref_view_def set_gain_def)
    then show "no_more_keys ref_view glob k (set_gain ''2'' (set_gain ''1'' ?p))"
      using that sample_no_more by auto
  qed
  show ?thesis
    using none [of "pc_key ?p"] none [of "pc_group_key ?p"]
    by (simp add: ReadParameters_def bindM_def locate_sample op_simps seqM_def keys read_gain_group read_gain_instance only_if_def)
qed


lemma bad_threads:
  "\<exists>q. ReadParameters ref_platform sample_params_env (sample_params [(''io-threads'', ''many'')] h) = (Inl InvalidArgument, q)"
proof -
  have "read_int ''many'' = None" by code_simp
  then have "Parse sample_params_env ''io-threads'' ''many'' (located_params [(''io-threads'', ''many'')] h) =
      (Inl InvalidArgument, located_params [(''io-threads'', ''many'')] h)"
    by (simp add: Parse_def IsReservedOption_def SetPropertyOfReservedOption_def reservedOptionsString_def reservedOptionsInt_def
        SetPropertyFromString_def bindM_def op_simps stoll_def)
  then have "ReadHash ref_platform sample_params_env ''parameters:Sink'' (located_params [(''io-threads'', ''many'')] h) =
      (Inl InvalidArgument, located_params [(''io-threads'', ''many'')] h)"
    by (simp add: ReadHash_def op_simps bindM_def hash_prefix_def ref_sel seqM_def) (simp add: located_params_def sample_params_def seqM_def bindM_def)
  moreover have "pc_group_key (located_params [(''io-threads'', ''many'')] h) = ''parameters:Sink''" by (simp add: located_params_def)
  ultimately show ?thesis
    by (simp add: ReadParameters_def bindM_def locate_sample op_simps seqM_def only_if_def)
qed

theorem bad_parameter_ends_updates_witness:
  "\<exists>q. SubscribeToParameterChange ref_platform sample_params_env True [Message ''__keyspace@1__:'' ''hset'', TimedOut]
    (sample_params [(''io-threads'', ''many'')] []) = (Inr (), q)"
proof -
  obtain q where q: "ReadParameters ref_platform sample_params_env (sample_params [(''io-threads'', ''many'')] []) = (Inl InvalidArgument, q)"
    using bad_threads by blast
  have "find_last_of (''tcp://localhost:6379'' @ ''/'' @ ''1'') ''/'' = length ''tcp://localhost:6379''"
    by (rule find_last_char) simp
  then have "keyspace_channels sample_params_env (sample_params [(''io-threads'', ''many'')] []) =
      Inr (''__keyspace@1__:'', ''__keyspace@1__:'')"
    by (simp add: keyspace_channels_def get_string_def sample_params_env_def sample_params_def ServerUri_def RedisKeySpacePrefix_def
        substr_from_Inr fits_def npos_def size_max_def)
  from bad_parameter_ends_updates [OF this _ _ q, of "''__keyspace@1__:''" "''hset''" "[TimedOut]"]
  show ?thesis by (auto simp: sample_params_def catchable_def)
qed

end
