(* ===== verification/Metrics.thy ===== *)
theory Metrics
  imports Parameters SocketConfig
begin

text \<open>
  The metrics plugin (\<^verbatim>\<open>plugins/MetricsPlugin.cxx\<close>, \<^verbatim>\<open>plugins/MetricsPlugin.h\<close>): the rates that FairMQ logs per
  socket and the load of the process, collected in one pipeline and sent to hashes and time series of
  the registry; the creation and deletion of the time series; the removal of the metrics of instances
  that are gone.
\<close>

section \<open>State\<close>

record proc_stat =
  st_user :: "64 word"
  st_nice :: "64 word"
  st_system :: "64 word"
  st_idle :: "64 word"

record proc_self_stat =
  st_utime :: "64 word"
  st_stime :: "64 word"
  st_vsize :: "64 word"
  st_rss :: "64 word"

definition proc_sum :: "proc_stat \<Rightarrow> 64 word" where
  "proc_sum s = st_user s + st_nice s + st_system s + st_idle s"

definition self_sum :: "proc_self_stat \<Rightarrow> 64 word" where
  "self_sum s = st_utime s + st_stime s"

record 'd rates =
  ra_msgIn :: 'd
  ra_msgOut :: 'd
  ra_bytesIn :: 'd
  ra_bytesOut :: 'd

record pkeys =
  pk_cpu :: string
  pk_ram :: string
  pk_stateId :: string

record mkeys =
  mk_msgIn :: string
  mk_msgOut :: string
  mk_bytesIn :: string
  mk_bytesOut :: string

text \<open>A command of the pipeline: one of the platform's, or a raw one of the time series module.\<close>

datatype mcmd = Cmd redis_cmd | Raw "string list"

text \<open>
  What the plugin uses beside the platform: raw commands and EXISTS, the distributed lock, the clock, the
  two files of the kernel, the state of the device, and floating point numbers \<open>'d\<close> with
  \<^verbatim>\<open>std::stod\<close>, addition, rounding, their texts, and the two formulas for the load.
\<close>

record ('w, 'd) metrics_env =
  me_raw :: "string list \<Rightarrow> 'w \<Rightarrow> 'w"
  me_exists :: "'w \<Rightarrow> string \<Rightarrow> bool"
  me_lock :: "'w \<Rightarrow> bool \<times> 'w"
  me_unlock :: "'w \<Rightarrow> 'w"
  me_now :: "'w \<Rightarrow> 64 word"
  me_update_ns :: "'w \<Rightarrow> 64 word"
  me_date :: "'w \<Rightarrow> string"
  me_self_stat :: "'w \<Rightarrow> string"
  me_proc_stat :: "'w \<Rightarrow> string list"
  me_state_id :: "'w \<Rightarrow> nat"
  me_state_no :: "DeviceState \<Rightarrow> nat"
  me_stod :: "string \<Rightarrow> 'd res"
  me_add :: "'d \<Rightarrow> 'd \<Rightarrow> 'd"
  me_zero :: 'd
  me_round :: "'d \<Rightarrow> 64 word"
  me_text :: "'d \<Rightarrow> string"
  me_show :: "'d \<Rightarrow> string"
  me_cpu :: "64 word \<Rightarrow> 64 word \<Rightarrow> 'd"
  me_ram :: "64 word \<Rightarrow> 'd"

record ('w, 'd) metrics =
  mx_id :: string
  mx_service :: string
  mx_separator :: string
  mx_top :: string
  mx_retention :: string
  mx_max_ttl :: int
  mx_proc_key :: pkeys
  mx_ts_proc_key :: pkeys
  mx_state_key :: string
  mx_update_key :: string
  mx_update_ns_key :: string
  mx_sock_key :: mkeys
  mx_sum_key :: mkeys
  mx_num_key :: string
  mx_bytes_key :: string
  mx_num_sum_key :: string
  mx_bytes_sum_key :: string
  mx_registered :: "string list"
  mx_registered_sock :: "string list"
  mx_ts_keys :: "string list"
  mx_sockets :: "SocketProperty smap"
  mx_ts_sock :: "mkeys smap"
  mx_ts_sum :: "mkeys smap"
  mx_metrics :: "'d rates smap"
  mx_counted :: "nat smap"
  mx_self :: proc_self_stat
  mx_proc :: proc_stat
  mx_pipe :: "mcmd list"
  mx_world :: 'w

definition run_mcmd :: "'w platform \<Rightarrow> ('w, 'd) metrics_env \<Rightarrow> mcmd \<Rightarrow> 'w \<Rightarrow> 'w" where
  "run_mcmd pf env c w = (case c of Cmd r \<Rightarrow> rd_run pf r w | Raw args \<Rightarrow> me_raw env args w)"

definition queue_cmds :: "mcmd list \<Rightarrow> (('w, 'd) metrics, unit) opn" where
  "queue_cmds cs = modify (\<lambda>m. m\<lparr>mx_pipe := mx_pipe m @ cs\<rparr>)"

definition exec_pipe :: "'w platform \<Rightarrow> ('w, 'd) metrics_env \<Rightarrow> (('w, 'd) metrics, unit) opn" where
  "exec_pipe pf env = modify (\<lambda>m. m\<lparr>mx_world := fold (run_mcmd pf env) (mx_pipe m) (mx_world m), mx_pipe := []\<rparr>)"

definition discard_pipe :: "(('w, 'd) metrics, unit) opn" where
  "discard_pipe = modify (\<lambda>m. m\<lparr>mx_pipe := []\<rparr>)"

section \<open>Keys\<close>

definition MetricsPrefix :: string where "MetricsPrefix = ''metrics''"
definition MessageInPrefix :: string where "MessageInPrefix = ''msg-in''"
definition BytesInPrefix :: string where "BytesInPrefix = ''mb-in''"
definition MessageOutPrefix :: string where "MessageOutPrefix = ''msg-out''"
definition BytesOutPrefix :: string where "BytesOutPrefix = ''mb-out''"
definition CpuStatPrefix :: string where "CpuStatPrefix = ''cpu-stat''"
definition RamStatPrefix :: string where "RamStatPrefix = ''ram-stat''"
definition StateIdPrefix :: string where "StateIdPrefix = ''state-id''"

definition map_mkeys :: "(string \<Rightarrow> string) \<Rightarrow> mkeys \<Rightarrow> mkeys" where
  "map_mkeys f k = \<lparr>mk_msgIn = f (mk_msgIn k), mk_msgOut = f (mk_msgOut k), mk_bytesIn = f (mk_bytesIn k), mk_bytesOut = f (mk_bytesOut k)\<rparr>"

definition map_pkeys :: "(string \<Rightarrow> string) \<Rightarrow> pkeys \<Rightarrow> pkeys" where
  "map_pkeys f k = \<lparr>pk_cpu = f (pk_cpu k), pk_ram = f (pk_ram k), pk_stateId = f (pk_stateId k)\<rparr>"

definition append_key :: "string \<Rightarrow> string \<Rightarrow> string \<Rightarrow> string" where
  "append_key s sep k = join [k, s] sep"

definition prepend_key :: "string \<Rightarrow> string \<Rightarrow> string \<Rightarrow> string" where
  "prepend_key s sep k = join [s, k] sep"

lemma find_opt_bound: "find_opt t s = Some i \<Longrightarrow> i + length t \<le> length s"
proof -
  assume "find_opt t s = Some i"
  then have "i \<le> length s" "starts_with t (drop i s)" by (simp_all add: find_opt_Some)
  then show ?thesis by (auto simp: starts_with_Cons dest: arg_cong [of _ _ length])
qed

text \<open>\<^verbatim>\<open>boost::replace_all_copy\<close>; an empty search text replaces nothing.\<close>

function replace_all :: "string \<Rightarrow> string \<Rightarrow> string \<Rightarrow> string" where
  "replace_all search fmt s =
     (if search = [] then s
      else case find_opt search s of None \<Rightarrow> s
        | Some i \<Rightarrow> take i s @ fmt @ replace_all search fmt (drop (i + length search) s))"
  by pat_completeness auto
termination
proof (relation "measure (\<lambda>(_, _, s). length s)")
  fix search fmt s :: string and i
  assume "search \<noteq> []" and "find_opt search s = Some i"
  with find_opt_bound [of search s i]
  show "((search, fmt, drop (i + length search) s), (search, fmt, s)) \<in> measure (\<lambda>(_, _, s). length s)"
    by (cases search) auto
qed simp

declare replace_all.simps [simp del]

definition strip_top :: "('w, 'd) metrics \<Rightarrow> string \<Rightarrow> string" where
  "strip_top m = replace_all (mx_top m @ mx_separator m) []"

section \<open>Time series\<close>

definition CreateTimeseries :: "'w platform \<Rightarrow> ('w, 'd) metrics_env \<Rightarrow> string \<Rightarrow> (string \<times> string) list \<Rightarrow> (('w, 'd) metrics, bool) opn" where
  "CreateTimeseries pf env key labels =
     bindM (gets (\<lambda>m. me_exists env (mx_world m) key)) (\<lambda>there.
     seqM (only_if there (modify (\<lambda>m. m\<lparr>mx_world := rd_run pf (Del [key]) (mx_world m), mx_ts_keys := removeAll key (mx_ts_keys m)\<rparr>)))
    (bindM (gets (\<lambda>m. [''ts.create'', key, ''retention'', mx_retention m, ''labels'', ''service'', mx_service m, ''id'', mx_id m])) (\<lambda>cmd.
     seqM (queue_cmds [Raw (cmd @ concat (map (\<lambda>(k, v). [k, v]) labels))])
    (seqM (modify (\<lambda>m. m\<lparr>mx_ts_keys := List.insert key (mx_ts_keys m)\<rparr>))
     (ret True)))))"

definition DataType :: string where "DataType = ''data''"

definition CreateSocketTS1 :: "'w platform \<Rightarrow> ('w, 'd) metrics_env \<Rightarrow> string \<Rightarrow> string \<Rightarrow> string \<Rightarrow> string \<Rightarrow> (string \<times> string) list \<Rightarrow>
    (('w, 'd) metrics, bool) opn" where
  "CreateSocketTS1 pf env keyMsg keyBytes labelMsg labelBytes labels =
     bindM (CreateTimeseries pf env keyMsg (labels @ [(DataType, labelMsg)])) (\<lambda>_.
     bindM (CreateTimeseries pf env keyBytes (labels @ [(DataType, labelBytes)])) (\<lambda>_.
     bindM (CreateTimeseries pf env (append_key ''sum'' ''-'' keyMsg) (labels @ [(DataType, append_key ''sum'' ''-'' labelMsg)])) (\<lambda>_.
       CreateTimeseries pf env (append_key ''sum'' ''-'' keyBytes) (labels @ [(DataType, append_key ''sum'' ''-'' labelBytes)]))))"

definition has_input :: "string \<Rightarrow> bool" where
  "has_input type = (type \<noteq> ''push'' \<and> type \<noteq> ''pub'')"

definition has_output :: "string \<Rightarrow> bool" where
  "has_output type = (type \<noteq> ''pull'' \<and> type \<noteq> ''sub'')"

definition ts_sock_keys :: "('w, 'd) metrics \<Rightarrow> string \<Rightarrow> mkeys" where
  "ts_sock_keys m name =
     map_mkeys (prepend_key (join [''ts'', mx_id m, name] (mx_separator m)) (mx_separator m)) (map_mkeys (strip_top m) (mx_sock_key m))"

definition create_socket :: "'w platform \<Rightarrow> ('w, 'd) metrics_env \<Rightarrow> string \<times> SocketProperty \<Rightarrow> (('w, 'd) metrics, unit) opn" where
  "create_socket pf env = (\<lambda>(name, property).
     let hasInput = has_input (sp_type property); hasOutput = has_output (sp_type property) in
     if \<not> hasInput \<and> \<not> hasOutput then ret ()
     else bindM (gets (\<lambda>m. ts_sock_keys m name)) (\<lambda>tsKey.
       seqM (modify (\<lambda>m. m\<lparr>mx_ts_sock := smap_put name tsKey (mx_ts_sock m),
                            mx_ts_sum := smap_put name (map_mkeys (append_key ''sum'' ''-'') tsKey) (mx_ts_sum m)\<rparr>))
       (let labels = [(''name'', sp_name property), (''socket'', sp_type property), (''transport'', sp_transport property)] in
        seqM (only_if hasInput
               (bindM (CreateSocketTS1 pf env (mk_msgIn tsKey) (mk_bytesIn tsKey) MessageInPrefix BytesInPrefix labels) (\<lambda>_. ret ())))
             (only_if hasOutput
               (bindM (CreateSocketTS1 pf env (mk_msgOut tsKey) (mk_bytesOut tsKey) MessageOutPrefix BytesOutPrefix labels) (\<lambda>_. ret ()))))))"

definition CreateSocketTS :: "'w platform \<Rightarrow> ('w, 'd) metrics_env \<Rightarrow> (('w, 'd) metrics, unit) opn" where
  "CreateSocketTS pf env = bindM (gets mx_sockets) (\<lambda>sockets. for_each sockets (create_socket pf env))"

definition DeleteTSKeys :: "'w platform \<Rightarrow> (('w, 'd) metrics, unit) opn" where
  "DeleteTSKeys pf =
     bindM (gets mx_ts_keys) (\<lambda>ks. only_if (ks \<noteq> [])
       (modify (\<lambda>m. m\<lparr>mx_world := rd_run pf (Del ks) (mx_world m), mx_ts_keys := []\<rparr>)))"

section \<open>The sockets of the device\<close>

definition set_socket_field :: "string \<Rightarrow> string \<Rightarrow> SocketProperty \<Rightarrow> SocketProperty res" where
  "set_socket_field field v p =
     (if field = ''type'' then Inr (p\<lparr>sp_type := v\<rparr>)
      else if field = ''method'' then Inr (p\<lparr>sp_method := v\<rparr>)
      else if field = ''address'' then Inr (p\<lparr>sp_address := v\<rparr>)
      else if field = ''transport'' then Inr (p\<lparr>sp_transport := v\<rparr>)
      else if field = ''sndBufSize'' then set_int (\<lambda>i. p\<lparr>sndBufSize := i\<rparr>) v
      else if field = ''rcvBufSize'' then set_int (\<lambda>i. p\<lparr>rcvBufSize := i\<rparr>) v
      else if field = ''sndKernelSize'' then set_int (\<lambda>i. p\<lparr>sndKernelSize := i\<rparr>) v
      else if field = ''rcvKernelSize'' then set_int (\<lambda>i. p\<lparr>rcvKernelSize := i\<rparr>) v
      else if field = ''linger'' then set_int (\<lambda>i. p\<lparr>linger := i\<rparr>) v
      else if field = ''rateLogging'' then set_int (\<lambda>i. p\<lparr>rateLogging := i\<rparr>) v
      else if field = ''portRangeMin'' then set_int (\<lambda>i. p\<lparr>portRangeMin := i\<rparr>) v
      else if field = ''portRangeMax'' then set_int (\<lambda>i. p\<lparr>portRangeMax := i\<rparr>) v
      else if field = ''autoBind'' then Inr (p\<lparr>autoBind := (v = ''true'' \<or> v = ''1'')\<rparr>)
      else Inr p)"

text \<open>The first property of a sub-channel only gives it its name.\<close>

definition add_socket_property :: "string \<times> string \<Rightarrow> SocketProperty smap \<Rightarrow> SocketProperty smap res" where
  "add_socket_property = (\<lambda>(k, v) ps.
     case split_compress (\<lambda>c. c = CHR ''.'') k of
       _ # ch # idx # field # _ \<Rightarrow>
         (let name = ch @ ''['' @ idx @ '']'';
              p = (case map_of ps name of None \<Rightarrow> default_SocketProperty | Some p \<Rightarrow> p)
          in if sp_name p = [] then Inr (smap_put name (p\<lparr>sp_name := name\<rparr>) ps)
             else bindR (set_socket_field field v p) (\<lambda>p'. Inr (smap_put name p' ps)))
     | _ \<Rightarrow> Inr ps)"

definition InitializeSocketProperties :: "'w platform \<Rightarrow> (('w, 'd) metrics, unit) opn" where
  "InitializeSocketProperties pf =
     bindM (gets (\<lambda>m. pr_prefix pf (mx_world m) ''chans.'')) (\<lambda>properties.
     seqM (modify (\<lambda>m. m\<lparr>mx_sockets := []\<rparr>))
       (for_each properties (\<lambda>kv.
          bindM (asks (\<lambda>m. add_socket_property kv (mx_sockets m))) (\<lambda>ps. modify (\<lambda>m. m\<lparr>mx_sockets := ps\<rparr>)))))"

definition IsRecreateTS :: "'w platform \<Rightarrow> 'w \<Rightarrow> bool" where
  "IsRecreateTS pf w = (case pr_get pf w ''recreate-ts'' of None \<Rightarrow> False | Some f \<Rightarrow> parse_flag f)"

definition state_action :: "'w platform \<Rightarrow> ('w, 'd) metrics_env \<Rightarrow> DeviceState \<Rightarrow> (('w, 'd) metrics, unit) opn" where
  "state_action pf env s =
     (case s of
        DeviceReady \<Rightarrow> InitializeSocketProperties pf
      | Ready \<Rightarrow>
          seqM (bindM (gets (\<lambda>m. IsRecreateTS pf (mx_world m))) (\<lambda>b. only_if b (DeleteTSKeys pf)))
               (modify (\<lambda>m. m\<lparr>mx_metrics := [], mx_counted := []\<rparr>))
      | Running \<Rightarrow>
          bindM (gets (\<lambda>m. (IsRecreateTS pf (mx_world m), mx_ts_proc_key m))) (\<lambda>(b, k).
            only_if b
              (bindM (CreateTimeseries pf env (pk_cpu k) [(DataType, CpuStatPrefix)]) (\<lambda>_.
               bindM (CreateTimeseries pf env (pk_ram k) [(DataType, RamStatPrefix)]) (\<lambda>_.
               bindM (CreateTimeseries pf env (pk_stateId k) [(DataType, StateIdPrefix)]) (\<lambda>_.
                 seqM (CreateSocketTS pf env) (exec_pipe pf env))))))
      | _ \<Rightarrow> ret ())"

definition metrics_state_callback :: "'w platform \<Rightarrow> ('w, 'd) metrics_env \<Rightarrow> DeviceState \<Rightarrow> (('w, 'd) metrics, unit) opn" where
  "metrics_state_callback pf env s =
     seqM discard_pipe
    (seqM (bindM (gets (\<lambda>m. [Cmd (HSet (mx_state_key m) [(mx_id m, GetStateName pf s)]),
                             Cmd (HSet (pk_stateId (mx_proc_key m)) [(mx_id m, show_nat (me_state_no env s))])])) queue_cmds)
    (seqM (exec_pipe pf env)
          (state_action pf env s)))"

section \<open>The load of the process\<close>

definition nth_res :: "'a list \<Rightarrow> nat \<Rightarrow> 'a res" where
  "nth_res xs i = (if i < length xs then Inr (xs ! i) else Inl UndefinedBehaviour)"

definition number_at :: "string list \<Rightarrow> nat \<Rightarrow> 64 word res" where
  "number_at v i = bindR (nth_res v i) stoull"

definition ReadProcSelfStat :: "string \<Rightarrow> proc_self_stat res" where
  "ReadProcSelfStat s =
     (let v = split_on is_space s in
      bindR (number_at v 13) (\<lambda>u. bindR (number_at v 14) (\<lambda>t. bindR (number_at v 22) (\<lambda>vs. bindR (number_at v 23) (\<lambda>r.
        Inr \<lparr>st_utime = u, st_stime = t, st_vsize = vs, st_rss = r\<rparr>)))))"

definition ReadProcStat :: "string list \<Rightarrow> proc_stat res" where
  "ReadProcStat ls =
     (let s = (case List.find (\<lambda>l. find_str l ''cpu '' = 0) ls of None \<Rightarrow> [] | Some l \<Rightarrow> l);
          v = split_compress is_space (trim s) in
      bindR (number_at v 1) (\<lambda>u. bindR (number_at v 2) (\<lambda>n. bindR (number_at v 3) (\<lambda>sy. bindR (number_at v 4) (\<lambda>i.
        Inr \<lparr>st_user = u, st_nice = n, st_system = sy, st_idle = i\<rparr>)))))"

definition SendProcessMetrics :: "('w, 'd) metrics_env \<Rightarrow> (('w, 'd) metrics, unit) opn" where
  "SendProcessMetrics env =
     bindM (asks (\<lambda>m. ReadProcSelfStat (me_self_stat env (mx_world m)))) (\<lambda>self.
     bindM (asks (\<lambda>m. ReadProcStat (me_proc_stat env (mx_world m)))) (\<lambda>all.
     bindM (gets (\<lambda>m. (me_cpu env (self_sum self - self_sum (mx_self m)) (proc_sum all - proc_sum (mx_proc m)), me_ram env (st_rss self)))) (\<lambda>(cpu, ram).
     seqM (modify (\<lambda>m. m\<lparr>mx_self := self, mx_proc := all\<rparr>))
     (bindM (gets (\<lambda>m.
        [Cmd (HSet (pk_cpu (mx_proc_key m)) [(mx_id m, me_text env cpu)]),
         Cmd (HSet (pk_ram (mx_proc_key m)) [(mx_id m, me_text env ram)]),
         Cmd (HSet (mx_update_key m) [(mx_id m, me_date env (mx_world m))]),
         Cmd (HSet (mx_update_ns_key m) [(mx_id m, show_int (sint (me_update_ns env (mx_world m))))]),
         Raw [''ts.add'', pk_cpu (mx_ts_proc_key m), ''*'', me_show env cpu],
         Raw [''ts.add'', pk_ram (mx_ts_proc_key m), ''*'', me_show env ram],
         Raw [''ts.add'', pk_stateId (mx_ts_proc_key m), ''*'', show_nat (me_state_id env (mx_world m))]])) queue_cmds))))"

section \<open>Instances that are gone\<close>

text \<open>
  The age of an update is an unsigned difference of nanoseconds; it is compared, in milliseconds, with the
  maximal time to live. (The source compares floating point numbers, which are rounded in the last bits.)
\<close>

definition too_old :: "('w, 'd) metrics \<Rightarrow> 64 word \<Rightarrow> 64 word \<Rightarrow> bool" where
  "too_old m now upd \<longleftrightarrow> mx_max_ttl m * 1000000 < uint (now - upd)"

fun expired_instances :: "('w, 'd) metrics \<Rightarrow> 64 word \<Rightarrow> (string \<times> string) list \<Rightarrow> string list res" where
  "expired_instances m now [] = Inr []"
| "expired_instances m now ((k, v) # kvs) =
     bindR (stoull v) (\<lambda>upd. bindR (expired_instances m now kvs) (\<lambda>ks. Inr (if too_old m now upd then k # ks else ks)))"

fun socket_hdels :: "'w platform \<Rightarrow> 'w \<Rightarrow> string list \<Rightarrow> string list \<Rightarrow> string list \<Rightarrow> mcmd list" where
  "socket_hdels pf w insts [] sockets = []"
| "socket_hdels pf w insts (k # ks) sockets =
     (let sockets = fold List.insert (map fst (rd_hgetall pf w k)) sockets
      in concat (map (\<lambda>i. map (\<lambda>s. Cmd (HDel k [s])) (filter (starts_with i) sockets)) insts) @ socket_hdels pf w insts ks sockets)"

definition expired_cmds :: "'w platform \<Rightarrow> ('w, 'd) metrics \<Rightarrow> string list \<Rightarrow> mcmd list" where
  "expired_cmds pf m insts =
     (if insts = [] then []
      else map (\<lambda>k. Cmd (HDel k insts)) (mx_registered m) @ socket_hdels pf (mx_world m) insts (mx_registered_sock m) [])"

text \<open>
  One round of the loop; \<open>True\<close> ends it. The lock is released at the end of its scope, also when an
  exception leaves it, which is caught and the loop goes on. (\<^verbatim>\<open>owns_lock\<close> tells what \<^verbatim>\<open>try_lock\<close> has
  returned, so the branch that sleeps is never taken.)
\<close>

definition delete_expired :: "'w platform \<Rightarrow> ('w, 'd) metrics_env \<Rightarrow> (('w, 'd) metrics, unit) opn" where
  "delete_expired pf env =
     bindM (asks (\<lambda>m. expired_instances m (me_now env (mx_world m)) (rd_hgetall pf (mx_world m) (mx_update_ns_key m)))) (\<lambda>insts.
     seqM (bindM (gets (\<lambda>m. expired_cmds pf m insts)) queue_cmds) (exec_pipe pf env))"

definition expired_round :: "'w platform \<Rightarrow> ('w, 'd) metrics_env \<Rightarrow> ('w, 'd) metrics \<Rightarrow> bool \<times> ('w, 'd) metrics" where
  "expired_round pf env m =
     (let (locked, w) = me_lock env (mx_world m); m = m\<lparr>mx_world := w\<rparr> in
      if \<not> locked then (False, m)
      else case delete_expired pf env m of (r, m') \<Rightarrow>
        (case r of Inl e \<Rightarrow> False | Inr u \<Rightarrow> True, m'\<lparr>mx_world := me_unlock env (mx_world m')\<rparr>))"

definition DeleteExpiredFields :: "'w platform \<Rightarrow> ('w, 'd) metrics_env \<Rightarrow> (('w, 'd) metrics, unit) opn" where
  "DeleteExpiredFields pf env m =
     (case poll (\<lambda>m. if fst (expired_round pf env m) then Some (snd (expired_round pf env m)) else None)
        (\<lambda>m. snd (expired_round pf env m)) m of
        None \<Rightarrow> (Inl NoReturn, m) | Some (m', _) \<Rightarrow> (Inr (), m'))"

section \<open>The constructor\<close>

definition text_property :: "'w platform \<Rightarrow> 'w \<Rightarrow> string \<Rightarrow> string res" where
  "text_property pf w name = (case pr_get pf w name of None \<Rightarrow> Inl (Failure ''property not found'') | Some v \<Rightarrow> Inr v)"

definition new_metrics :: "'w platform \<Rightarrow> ('w, 'd) metrics_env \<Rightarrow> 'w \<Rightarrow> ('w, 'd) metrics res" where
  "new_metrics pf env w =
     bindR (ReadProcSelfStat (me_self_stat env w)) (\<lambda>self.
     bindR (ReadProcStat (me_proc_stat env w)) (\<lambda>all.
     bindR (text_property pf w ''id'') (\<lambda>i.
     bindR (text_property pf w ''service-name'') (\<lambda>service.
     bindR (text_property pf w ''separator'') (\<lambda>sep.
     bindR (text_property pf w ''retention'') (\<lambda>retention.
     bindR (text_property pf w ''metrics-max-ttl'') (\<lambda>ttl.
     bindR (stoll ttl) (\<lambda>maxTtl.
       let key = (\<lambda>name. join [MetricsPrefix, name] sep);
           sock = \<lparr>mk_msgIn = key MessageInPrefix, mk_msgOut = key MessageOutPrefix, mk_bytesIn = key BytesInPrefix, mk_bytesOut = key BytesOutPrefix\<rparr>;
           sumKey = map_mkeys (append_key ''sum'' ''-'') sock;
           proc = \<lparr>pk_cpu = key CpuStatPrefix, pk_ram = key RamStatPrefix, pk_stateId = key StateIdPrefix\<rparr>;
           tsProc = map_pkeys (prepend_key (join [''ts'', i] sep) sep) (map_pkeys (replace_all (MetricsPrefix @ sep) []) proc)
       in bindR (case pr_get pf w ''metrics-uri'' of Some u \<Rightarrow> Inr u
                  | None \<Rightarrow> (case pr_get pf w ''registry-uri'' of Some u \<Rightarrow> Inr u | None \<Rightarrow> Inr [])) (\<lambda>serverUri.
          if serverUri = [] then Inl UndefinedBehaviour else
          Inr \<lparr>mx_id = i, mx_service = service, mx_separator = sep, mx_top = MetricsPrefix, mx_retention = retention, mx_max_ttl = maxTtl,
         mx_proc_key = proc, mx_ts_proc_key = tsProc, mx_state_key = key ''state'', mx_update_key = key ''last-update'',
         mx_update_ns_key = key ''last-update-ns'', mx_sock_key = sock, mx_sum_key = sumKey, mx_num_key = key ''num-msg'',
         mx_bytes_key = key ''mb'', mx_num_sum_key = key ''num-msg-sum'', mx_bytes_sum_key = key ''mb-sum'',
         mx_registered = [key ''state'', key ''last-update'', key ''last-update-ns'', key StartTime, key StartTimeNS, key StopTime,
           key StopTimeNS, key RunNumber, pk_stateId proc, pk_cpu proc, pk_ram proc, key ''created-time'', key ''hostname'', key ''host-ip''],
         mx_registered_sock = [mk_msgIn sock, mk_bytesIn sock, mk_msgOut sock, mk_bytesOut sock, mk_msgIn sumKey, mk_bytesIn sumKey,
           mk_msgOut sumKey, mk_bytesOut sumKey, key ''num-msg'', key ''mb'', key ''num-msg-sum'', key ''mb-sum''],
         mx_ts_keys = [], mx_sockets = [], mx_ts_sock = [], mx_ts_sum = [], mx_metrics = [], mx_counted = [],
         mx_self = self, mx_proc = all, mx_pipe = [], mx_world = w\<rparr>)))))))))"

text \<open>The constructor, as far as it touches the registry; \<open>started\<close> is the text of its start.\<close>

definition start_metrics :: "'w platform \<Rightarrow> ('w, 'd) metrics_env \<Rightarrow> string \<Rightarrow> (('w, 'd) metrics, unit) opn" where
  "start_metrics pf env started =
     seqM (bindM (gets mx_max_ttl) (\<lambda>ttl. only_if (0 < ttl) (DeleteExpiredFields pf env)))
    (bindM (gets (\<lambda>m. text_property pf (mx_world m) ''hostname'')) (\<lambda>host.
     bindM (gets (\<lambda>m. text_property pf (mx_world m) ''host-ip'')) (\<lambda>ip.
     bindM (lift_res (bindR host (\<lambda>h. bindR ip (\<lambda>a. Inr (h, a))))) (\<lambda>(h, a).
     seqM (bindM (gets (\<lambda>m. let key = (\<lambda>name. join [mx_top m, name] (mx_separator m)) in
       [Cmd (HSet (key ''created-time'') [(mx_id m, started)]), Cmd (HSet (key ''hostname'') [(mx_id m, h)]),
        Cmd (HSet (key ''host-ip'') [(mx_id m, a)])])) queue_cmds)
       (exec_pipe pf env)))))"

text \<open>The callback on changed properties forwards the times and the number of the run.\<close>

definition property_callback :: "'w platform \<Rightarrow> string \<Rightarrow> string \<Rightarrow> (('w, 'd) metrics, unit) opn" where
  "property_callback pf k v =
     only_if (k \<in> {StartTime, StartTimeNS, StopTime, StopTimeNS, RunNumber})
       (modify (\<lambda>m. m\<lparr>mx_world := rd_run pf (HSet (join [mx_top m, k] (mx_separator m)) [(mx_id m, v)]) (mx_world m)\<rparr>))"


section \<open>A reference environment\<close>

text \<open>
  For the concrete runs: whole numbers for the rates, a free lock, a clock that stands still, time series as
  texts of the reference registry.
\<close>

definition ref_metrics_env :: "(world, int) metrics_env" where
  "ref_metrics_env =
     \<lparr>me_raw = (\<lambda>args w. case args of c # k # r \<Rightarrow> if c = ''ts.create'' then ref_run (SetKey k ''ts'') w else w | _ \<Rightarrow> w),
      me_exists = (\<lambda>w k. map_of (store w) k \<noteq> None), me_lock = (\<lambda>w. (True, w)), me_unlock = (\<lambda>w. w), me_now = (\<lambda>w. 3000000005),
      me_update_ns = (\<lambda>w. 3000000005), me_date = (\<lambda>w. ''now''),
      me_self_stat = (\<lambda>w. ''1 (a) R 0 0 0 0 0 0 0 0 0 0 7 2 0 0 0 0 1 0 0 900 30''), me_proc_stat = (\<lambda>w. [''cpu  10 0 5 85'']),
      me_state_id = (\<lambda>w. 12), me_state_no = (\<lambda>s. 12),
      me_stod = (\<lambda>s. case read_int s of None \<Rightarrow> Inl InvalidArgument | Some i \<Rightarrow> Inr i),
      me_add = (+), me_zero = 0, me_round = word_of_int, me_text = show_int, me_show = show_int,
      me_cpu = (\<lambda>a b. uint a), me_ram = uint\<rparr>"

lemmas metrics_env_sel = ref_metrics_env_def metrics_env.simps

definition ref_metrics :: "(string \<times> rvalue) list \<Rightarrow> string smap \<Rightarrow> (world, int) metrics" where
  "ref_metrics st ps =
     \<lparr>mx_id = ''Sink-0'', mx_service = ''Sink'', mx_separator = '':'', mx_top = ''metrics'', mx_retention = ''0'', mx_max_ttl = 3000,
      mx_proc_key = \<lparr>pk_cpu = ''metrics:cpu-stat'', pk_ram = ''metrics:ram-stat'', pk_stateId = ''metrics:state-id''\<rparr>,
      mx_ts_proc_key = \<lparr>pk_cpu = ''ts:Sink-0:cpu-stat'', pk_ram = ''ts:Sink-0:ram-stat'', pk_stateId = ''ts:Sink-0:state-id''\<rparr>,
      mx_state_key = ''metrics:state'', mx_update_key = ''metrics:last-update'', mx_update_ns_key = ''metrics:last-update-ns'',
      mx_sock_key = \<lparr>mk_msgIn = ''metrics:msg-in'', mk_msgOut = ''metrics:msg-out'', mk_bytesIn = ''metrics:mb-in'', mk_bytesOut = ''metrics:mb-out''\<rparr>,
      mx_sum_key = \<lparr>mk_msgIn = ''metrics:msg-in-sum'', mk_msgOut = ''metrics:msg-out-sum'', mk_bytesIn = ''metrics:mb-in-sum'',
        mk_bytesOut = ''metrics:mb-out-sum''\<rparr>,
      mx_num_key = ''metrics:num-msg'', mx_bytes_key = ''metrics:mb'', mx_num_sum_key = ''metrics:num-msg-sum'', mx_bytes_sum_key = ''metrics:mb-sum'',
      mx_registered = [''metrics:state'', ''metrics:last-update'', ''metrics:last-update-ns'', ''metrics:cpu-stat'', ''metrics:ram-stat'', ''metrics:state-id''],
      mx_registered_sock = [''metrics:msg-in'', ''metrics:mb-in'', ''metrics:msg-out'', ''metrics:mb-out'', ''metrics:num-msg'', ''metrics:mb''],
      mx_ts_keys = [], mx_sockets = [], mx_ts_sock = [], mx_ts_sum = [], mx_metrics = [], mx_counted = [],
      mx_self = \<lparr>st_utime = 0, st_stime = 0, st_vsize = 0, st_rss = 0\<rparr>, mx_proc = \<lparr>st_user = 0, st_nice = 0, st_system = 0, st_idle = 0\<rparr>,
      mx_pipe = [], mx_world = \<lparr>store = st, props = ps, canceled = False, pauses = 0\<rparr>\<rparr>"

section \<open>Properties of the keys and commands\<close>

subsection \<open>Fields of hashes\<close>

definition field_of :: "keyspace \<Rightarrow> string \<Rightarrow> string \<Rightarrow> string option" where
  "field_of m k f = (case m k of Some (RHash h) \<Rightarrow> map_of h f | _ \<Rightarrow> None)"

definition is_hash :: "keyspace \<Rightarrow> string \<Rightarrow> bool" where
  "is_hash m k \<longleftrightarrow> (\<exists>h. m k = Some (RHash h)) \<or> m k = None"

definition is_hdel :: "mcmd \<Rightarrow> bool" where
  "is_hdel c = (case c of Cmd (HDel k fs) \<Rightarrow> True | _ \<Rightarrow> False)"

lemma is_hdelE: "is_hdel c \<Longrightarrow> (\<And>k fs. c = Cmd (HDel k fs) \<Longrightarrow> P) \<Longrightarrow> P"
  by (auto simp: is_hdel_def split: mcmd.splits redis_cmd.splits)

lemma field_of_HDel:
  "field_of (cmd_effect (HDel k fs) m) q f = (if q = k \<and> f \<in> set fs then None else field_of m q f)"
proof -
  have nil: "map_of h f = None" if "filter (\<lambda>(f, v). f \<notin> set fs) h = []" "f \<notin> set fs" for h :: "string smap"
    using that by (auto simp: map_of_eq_None_iff filter_empty_conv)
  show ?thesis
    by (auto simp: field_of_def Let_def map_of_filter_key dest: nil split: option.split rvalue.split)
qed

lemma field_of_hdels:
  assumes "redis_server pf view mt" and "list_all is_hdel cs"
  shows "field_of (view (fold (run_mcmd pf env) cs w)) q f =
     (if \<exists>fs. Cmd (HDel q fs) \<in> set cs \<and> f \<in> set fs then None else field_of (view w) q f)"
  using assms(2)
proof (induction cs arbitrary: w)
  case (Cons c cs)
  then obtain k fs where c: "c = Cmd (HDel k fs)" by (auto elim: is_hdelE)
  then have "field_of (view (run_mcmd pf env c w)) q f = (if q = k \<and> f \<in> set fs then None else field_of (view w) q f)"
    by (simp add: run_mcmd_def view_run [OF assms(1)] field_of_HDel del: cmd_effect.simps)
  with Cons c show ?case by auto
qed simp

lemma hgetall_fields:
  assumes "redis_server pf view mt" and "is_hash (view w) k"
  shows "map_of (rd_hgetall pf w k) = field_of (view w) k" and "distinct (map fst (rd_hgetall pf w k))"
proof -
  have "map_of (rd_hgetall pf w k) = field_of (view w) k \<and> distinct (map fst (rd_hgetall pf w k))"
  proof (cases "view w k")
    case None
    then have "rd_hgetall pf w k = []" using redis_reads [OF assms(1)] by (simp add: redis_reads_def)
    with None show ?thesis by (simp add: field_of_def fun_eq_iff)
  next
    case (Some v)
    with assms(2) obtain h where h: "view w k = Some (RHash h)" by (auto simp: is_hash_def)
    from hgetall_hash [OF assms(1) h] show ?thesis by (simp add: h field_of_def fun_eq_iff)
  qed
  then show "map_of (rd_hgetall pf w k) = field_of (view w) k" "distinct (map fst (rd_hgetall pf w k))" by auto
qed

subsection \<open>Instances that are gone\<close>

text \<open>What the lock is relied on for: it leaves the hashes alone. (Its own key is no hash of the metrics.)\<close>

definition lock_frame :: "('w, 'd) metrics_env \<Rightarrow> ('w \<Rightarrow> keyspace) \<Rightarrow> bool" where
  "lock_frame env view \<longleftrightarrow> (\<forall>w. view (snd (me_lock env w)) = view w \<and> view (me_unlock env w) = view w)"

text \<open>The instances whose last update lies too far back, and whether all updates can be read.\<close>

definition gone :: "('w, 'd) metrics \<Rightarrow> keyspace \<Rightarrow> 64 word \<Rightarrow> string \<Rightarrow> bool" where
  "gone m ks now i \<longleftrightarrow> (\<exists>v u. field_of ks (mx_update_ns_key m) i = Some v \<and> stoull v = Inr u \<and> too_old m now u)"

definition readable :: "('w, 'd) metrics \<Rightarrow> keyspace \<Rightarrow> bool" where
  "readable m ks \<longleftrightarrow> (\<forall>i v. field_of ks (mx_update_ns_key m) i = Some v \<longrightarrow> (\<exists>u. stoull v = Inr u))"

lemma expired_instances_Inr:
  assumes "\<And>k v. (k, v) \<in> set kvs \<Longrightarrow> \<exists>u. stoull v = Inr u"
  shows "\<exists>is. expired_instances m now kvs = Inr is \<and>
     set is = {k. \<exists>v u. (k, v) \<in> set kvs \<and> stoull v = Inr u \<and> too_old m now u}"
  using assms
proof (induction kvs)
  case (Cons kv kvs)
  obtain k v where kv: "kv = (k, v)" by fastforce
  obtain u where u: "stoull v = Inr u" using Cons.prems [of k v] kv by auto
  from Cons.prems have "\<exists>is. expired_instances m now kvs = Inr is \<and>
      set is = {k. \<exists>v u. (k, v) \<in> set kvs \<and> stoull v = Inr u \<and> too_old m now u}"
    by (intro Cons.IH) (meson list.set_intros(2))
  then obtain is' where is': "expired_instances m now kvs = Inr is'"
    "set is' = {k. \<exists>v u. (k, v) \<in> set kvs \<and> stoull v = Inr u \<and> too_old m now u}" by blast
  have "set (if too_old m now u then k # is' else is') =
      {k. \<exists>v u. (k, v) \<in> set (kv # kvs) \<and> stoull v = Inr u \<and> too_old m now u}"
    using kv u is'(2) by auto
  with kv u is'(1) show ?case by simp
qed simp

lemma expired_instances_Inl:
  "(k, v) \<in> set kvs \<Longrightarrow> stoull v = Inl e \<Longrightarrow> \<exists>e'. expired_instances m now kvs = Inl e'"
proof (induction kvs)
  case (Cons kv kvs)
  obtain j x where kv: "kv = (j, x)" by fastforce
  show ?case
  proof (cases "stoull x")
    case (Inr u)
    with Cons.prems kv have "(k, v) \<in> set kvs" by auto
    with Cons obtain e' where "expired_instances m now kvs = Inl e'" by auto
    with kv Inr show ?thesis by simp
  qed (simp add: kv)
qed simp

lemma socket_hdels_sound:
  "c \<in> set (socket_hdels pf w insts ks socks) \<Longrightarrow>
     \<exists>k s i. c = Cmd (HDel k [s]) \<and> k \<in> set ks \<and> i \<in> set insts \<and> starts_with i s"
proof (induction ks arbitrary: socks)
  case (Cons k ks)
  let ?socks = "fold List.insert (map fst (rd_hgetall pf w k)) socks"
  from Cons.prems consider i s where "i \<in> set insts" "starts_with i s" "c = Cmd (HDel k [s])"
    | "c \<in> set (socket_hdels pf w insts ks ?socks)" by (auto simp: Let_def)
  then show ?case
  proof cases
    case 1
    then show ?thesis by auto
  next
    case 2
    from Cons.IH [OF this] show ?thesis by (elim exE conjE) (intro exI conjI, auto)
  qed
qed simp

lemma socket_hdels_complete:
  assumes "k \<in> set ks" and "s \<in> fst ` set (rd_hgetall pf w k)" and "i \<in> set insts" and "starts_with i s"
  shows "Cmd (HDel k [s]) \<in> set (socket_hdels pf w insts ks socks)"
  using assms(1)
proof (induction ks arbitrary: socks)
  case (Cons j ks)
  have ins: "s \<in> set (fold List.insert xs ys)" if "s \<in> set xs" for xs ys
  proof -
    have "set (fold List.insert xs ys) = set xs \<union> set ys" by (induction xs arbitrary: ys) auto
    with that show ?thesis by simp
  qed
  show ?case
  proof (cases "k = j")
    case True
    from assms(2) True have "s \<in> set (fold List.insert (map fst (rd_hgetall pf w j)) socks)" by (intro ins) simp
    with True assms(3,4) show ?thesis by (auto simp: Let_def)
  next
    case False
    with Cons show ?thesis by (simp add: Let_def)
  qed
qed simp

lemma expired_cmds_hdel: "list_all is_hdel (expired_cmds pf m insts)"
  by (auto simp: expired_cmds_def is_hdel_def list_all_iff dest: socket_hdels_sound)

lemma expired_cmds_fields:
  assumes "redis_server pf view mt" and "\<And>k. k \<in> set (mx_registered_sock m) \<Longrightarrow> is_hash (view (mx_world m)) k"
  shows "field_of (view (fold (run_mcmd pf env) (expired_cmds pf m insts) (mx_world m))) k f =
     (if k \<in> set (mx_registered m) \<and> f \<in> set insts \<or> k \<in> set (mx_registered_sock m) \<and> (\<exists>i\<in>set insts. starts_with i f)
      then None else field_of (view (mx_world m)) k f)"
proof -
  let ?del = "\<exists>fs. Cmd (HDel k fs) \<in> set (expired_cmds pf m insts) \<and> f \<in> set fs"
  let ?spec = "k \<in> set (mx_registered m) \<and> f \<in> set insts \<or> k \<in> set (mx_registered_sock m) \<and> (\<exists>i\<in>set insts. starts_with i f)"
  have sound: "?spec" if "?del"
    using that by (auto simp: expired_cmds_def split: if_splits dest: socket_hdels_sound)
  have complete: "field_of (view (mx_world m)) k f = None" if "?spec" "\<not> ?del"
  proof (cases "k \<in> set (mx_registered m) \<and> f \<in> set insts")
    case True
    then have "Cmd (HDel k insts) \<in> set (expired_cmds pf m insts)" by (auto simp: expired_cmds_def)
    with True that(2) show ?thesis by blast
  next
    case False
    with that(1) obtain i where i: "k \<in> set (mx_registered_sock m)" "i \<in> set insts" "starts_with i f" by blast
    have "f \<notin> fst ` set (rd_hgetall pf (mx_world m) k)"
    proof
      assume "f \<in> fst ` set (rd_hgetall pf (mx_world m) k)"
      from socket_hdels_complete [OF i(1) this i(2,3)] i(2)
      have "Cmd (HDel k [f]) \<in> set (expired_cmds pf m insts)" by (auto simp: expired_cmds_def)
      with that(2) show False by (meson list.set_intros(1))
    qed
    then have "map_of (rd_hgetall pf (mx_world m) k) f = None" by (simp add: map_of_eq_None_iff)
    then show ?thesis by (simp add: hgetall_fields(1) [OF assms(1) assms(2) [OF i(1)]])
  qed
  have "(if ?del then None else field_of (view (mx_world m)) k f) = (if ?spec then None else field_of (view (mx_world m)) k f)"
  proof (cases ?spec)
    case True
    with complete show ?thesis by (cases ?del) (simp_all only: if_True if_False simp_thms)
  next
    case False
    with sound have "\<not> ?del" by blast
    then show ?thesis unfolding if_not_P [OF False] by (rule if_not_P)
  qed
  then show ?thesis unfolding field_of_hdels [OF assms(1) expired_cmds_hdel] .
qed

text \<open>One round with the lock.\<close>

lemma expired_instances_view:
  assumes "redis_server pf view mt" and "is_hash (view w) (mx_update_ns_key m)"
  shows "readable m (view w) \<Longrightarrow> \<exists>is. expired_instances m now (rd_hgetall pf w (mx_update_ns_key m)) = Inr is \<and> set is = {i. gone m (view w) now i}"
    and "\<not> readable m (view w) \<Longrightarrow> \<exists>e. expired_instances m now (rd_hgetall pf w (mx_update_ns_key m)) = Inl e"
proof -
  note all = hgetall_fields [OF assms]
  have mem: "(k, v) \<in> set (rd_hgetall pf w (mx_update_ns_key m)) \<longleftrightarrow> field_of (view w) (mx_update_ns_key m) k = Some v" for k v
    unfolding all(1) [symmetric] using all(2) by simp
  show "\<exists>is. expired_instances m now (rd_hgetall pf w (mx_update_ns_key m)) = Inr is \<and> set is = {i. gone m (view w) now i}"
    if "readable m (view w)"
    using expired_instances_Inr [of "rd_hgetall pf w (mx_update_ns_key m)" m now] that
    by (simp add: mem readable_def gone_def)
  show "\<exists>e. expired_instances m now (rd_hgetall pf w (mx_update_ns_key m)) = Inl e" if bad: "\<not> readable m (view w)"
  proof -
    from bad obtain i v where iv: "field_of (view w) (mx_update_ns_key m) i = Some v" "\<nexists>u. stoull v = Inr u"
      by (auto simp: readable_def)
    then obtain e where "stoull v = Inl e" by (cases "stoull v") auto
    with iv(1) show ?thesis by (intro expired_instances_Inl) (simp_all add: mem)
  qed
qed

lemma delete_expired_ok:
  assumes "expired_instances m (me_now env (mx_world m)) (rd_hgetall pf (mx_world m) (mx_update_ns_key m)) = Inr is"
  shows "delete_expired pf env m =
     (Inr (), m\<lparr>mx_world := fold (run_mcmd pf env) (mx_pipe m @ expired_cmds pf m is) (mx_world m), mx_pipe := []\<rparr>)"
  using assms by (simp add: delete_expired_def queue_cmds_def exec_pipe_def op_simps bindM_def seqM_def)

lemma delete_expired_error:
  assumes "expired_instances m (me_now env (mx_world m)) (rd_hgetall pf (mx_world m) (mx_update_ns_key m)) = Inl e"
  shows "delete_expired pf env m = (Inl e, m)"
  using assms by (simp add: delete_expired_def op_simps bindM_def)

text \<open>
  C19. The clean-up after instances that are gone. When the lock is free and all times of update can be read, it
  returns, and it has deleted exactly: of the hashes per instance the fields of the instances whose update is too
  old, and of the hashes per socket every field that begins with the id of such an instance. (So the sockets of
  the living \<^verbatim>\<open>Sampler-10\<close> go with \<^verbatim>\<open>Sampler-1\<close>.)
\<close>

theorem expired_fields_removed:
  assumes "redis_server pf view mt" and "lock_frame env view" and "me_lock env (mx_world m) = (True, w)"
    and "mx_pipe m = []" and "readable m (view (mx_world m))" and "is_hash (view (mx_world m)) (mx_update_ns_key m)"
    and "list_all (is_hash (view (mx_world m))) (mx_registered_sock m)"
  shows "\<exists>m'. DeleteExpiredFields pf env m = (Inr (), m') \<and> mx_pipe m' = [] \<and>
     (\<forall>k f. field_of (view (mx_world m')) k f =
        (if k \<in> set (mx_registered m) \<and> gone m (view (mx_world m)) (me_now env w) f \<or>
            k \<in> set (mx_registered_sock m) \<and> (\<exists>i. gone m (view (mx_world m)) (me_now env w) i \<and> starts_with i f)
         then None else field_of (view (mx_world m)) k f))"
proof -
  let ?m = "m\<lparr>mx_world := w\<rparr>" and ?gone = "gone m (view (mx_world m)) (me_now env w)"
  have view: "view w = view (mx_world m)"
    using assms(2,3) unfolding lock_frame_def by (metis snd_conv)
  have "readable ?m (view w)" and gone: "gone ?m (view w) (me_now env w) = ?gone"
    using assms(5) by (simp_all add: readable_def gone_def fun_eq_iff too_old_def view)
  then obtain is' where is': "expired_instances ?m (me_now env w) (rd_hgetall pf w (mx_update_ns_key m)) = Inr is'"
    "set is' = {i. ?gone i}"
    using expired_instances_view(1) [OF assms(1), of w ?m "me_now env w"] assms(6) view by auto
  let ?w = "fold (run_mcmd pf env) (expired_cmds pf ?m is') w"
  let ?m' = "?m\<lparr>mx_world := me_unlock env ?w, mx_pipe := []\<rparr>"
  have "delete_expired pf env ?m = (Inr (), ?m\<lparr>mx_world := ?w, mx_pipe := []\<rparr>)"
    using delete_expired_ok [of ?m env pf is'] is'(1) assms(4) by simp
  then have round: "expired_round pf env m = (True, ?m')" by (simp add: expired_round_def assms(3))
  have "DeleteExpiredFields pf env m = (Inr (), ?m')"
    unfolding DeleteExpiredFields_def by (subst poll.simps) (simp add: round)
  moreover have "view (mx_world ?m') = view ?w" using assms(2) by (simp add: lock_frame_def)
  moreover have "\<forall>k f. field_of (view ?w) k f =
      (if k \<in> set (mx_registered m) \<and> ?gone f \<or> k \<in> set (mx_registered_sock m) \<and> (\<exists>i. ?gone i \<and> starts_with i f)
       then None else field_of (view (mx_world m)) k f)"
  proof (intro allI)
    fix k f
    show "field_of (view ?w) k f =
      (if k \<in> set (mx_registered m) \<and> ?gone f \<or> k \<in> set (mx_registered_sock m) \<and> (\<exists>i. ?gone i \<and> starts_with i f)
       then None else field_of (view (mx_world m)) k f)"
    proof -
      have sel: "mx_world ?m = w" "mx_registered ?m = mx_registered m" "mx_registered_sock ?m = mx_registered_sock m" by simp_all
      have "is_hash (view (mx_world ?m)) k" if "k \<in> set (mx_registered_sock ?m)" for k
        using assms(7) that by (simp add: list_all_iff view)
      then have "field_of (view (fold (run_mcmd pf env) (expired_cmds pf ?m is') (mx_world ?m))) k f =
          (if k \<in> set (mx_registered ?m) \<and> f \<in> set is' \<or> k \<in> set (mx_registered_sock ?m) \<and> (\<exists>i\<in>set is'. starts_with i f)
           then None else field_of (view (mx_world ?m)) k f)"
        by (rule expired_cmds_fields [OF assms(1)])
      then have fields: "field_of (view ?w) k f =
          (if k \<in> set (mx_registered m) \<and> f \<in> set is' \<or> k \<in> set (mx_registered_sock m) \<and> (\<exists>i\<in>set is'. starts_with i f)
           then None else field_of (view w) k f)" unfolding sel .
      show ?thesis unfolding fields is'(2) Bex_def mem_Collect_eq view by (rule refl)
    qed
  qed
  ultimately show ?thesis by (intro exI [of _ ?m']) simp
qed

lemma lock_frame_ref: "lock_frame ref_metrics_env ref_view"
  by (simp add: lock_frame_def metrics_env_sel)

theorem expired_fields_removed_witness:
  "let m = ref_metrics [(''metrics:last-update-ns'', RHash [(''Sink-0'', ''5''), (''Sink-1'', ''4'')]),
       (''metrics:msg-in'', RHash [(''Sink-0:data[0]'', ''7''), (''Sink-10:data[0]'', ''9'')])] []
   in \<exists>m'. DeleteExpiredFields ref_platform ref_metrics_env m = (Inr (), m') \<and>
        field_of (ref_view (mx_world m')) ''metrics:last-update-ns'' ''Sink-0'' = Some ''5'' \<and>
        field_of (ref_view (mx_world m')) ''metrics:last-update-ns'' ''Sink-1'' = None \<and>
        field_of (ref_view (mx_world m')) ''metrics:msg-in'' ''Sink-0:data[0]'' = Some ''7'' \<and>
        field_of (ref_view (mx_world m')) ''metrics:msg-in'' ''Sink-10:data[0]'' = None"
proof -
  let ?h = "[(''Sink-0'', ''5''), (''Sink-1'', ''4'')] :: string smap"
  let ?g = "[(''Sink-0:data[0]'', ''7''), (''Sink-10:data[0]'', ''9'')] :: string smap"
  let ?m = "ref_metrics [(''metrics:last-update-ns'', RHash ?h), (''metrics:msg-in'', RHash ?g)] []"
  let ?v = "ref_view (mx_world ?m)"
  have v: "?v = [''metrics:last-update-ns'' \<mapsto> RHash ?h, ''metrics:msg-in'' \<mapsto> RHash ?g]"
    by (simp add: ref_metrics_def ref_view_def fun_upd_twist)
  have stamps: "stoull ''5'' = Inr 5" "stoull ''4'' = Inr 4"
    by (simp_all add: stoull_def read_int_def read_nat_def is_space_def is_digit_def)
  have hashes: "is_hash ?v k" for k by (simp add: v is_hash_def)
  have ns: "field_of ?v ''metrics:last-update-ns'' = map_of ?h" by (simp add: fun_eq_iff field_of_def v)
  have msg: "field_of ?v ''metrics:msg-in'' = map_of ?g" by (simp add: fun_eq_iff field_of_def v)
  have key: "mx_update_ns_key ?m = ''metrics:last-update-ns''" "mx_max_ttl ?m = 3000" by (simp_all add: ref_metrics_def)
  have gone: "gone ?m ?v 3000000005 i \<longleftrightarrow> i = ''Sink-1''" for i
    by (auto simp: gone_def key ns stamps too_old_def)
  have readable: "readable ?m ?v" by (auto simp: readable_def key ns stamps)
  have keys: "''metrics:last-update-ns'' \<in> set (mx_registered ?m)" "''metrics:last-update-ns'' \<notin> set (mx_registered_sock ?m)"
    "''metrics:msg-in'' \<in> set (mx_registered_sock ?m)" "''metrics:msg-in'' \<notin> set (mx_registered ?m)"
    by (simp_all add: ref_metrics_def)
  have lock: "me_lock ref_metrics_env (mx_world ?m) = (True, mx_world ?m)" and pipe: "mx_pipe ?m = []"
    and now: "me_now ref_metrics_env (mx_world ?m) = 3000000005"
    by (simp_all add: metrics_env_sel ref_metrics_def)
  have "list_all (is_hash ?v) (mx_registered_sock ?m)" by (simp only: list_all_iff hashes Ball_def simp_thms)
  from expired_fields_removed [OF ref_redis_server lock_frame_ref lock pipe readable hashes this]
  obtain m' where m': "DeleteExpiredFields ref_platform ref_metrics_env ?m = (Inr (), m')"
    "\<forall>k f. field_of (ref_view (mx_world m')) k f =
      (if k \<in> set (mx_registered ?m) \<and> f = ''Sink-1'' \<or> k \<in> set (mx_registered_sock ?m) \<and> (\<exists>i. i = ''Sink-1'' \<and> starts_with i f)
       then None else field_of ?v k f)"
    unfolding now gone by blast
  show ?thesis
    unfolding Let_def m'(1) by (rule exI [of _ m']) (simp only: m'(2) keys ns msg, simp add: starts_with_def)
qed

text \<open>A round that meets a malformed time, or does not get the lock, leaves everything as it is and goes on.\<close>

lemma unreadable_round:
  assumes "redis_server pf view mt" and "lock_frame env view" and "is_hash (view (mx_world m)) (mx_update_ns_key m)"
    and "\<not> readable m (view (mx_world m))" and "view w = view (mx_world m)"
  shows "\<exists>w'. view w' = view w \<and> expired_round pf env (m\<lparr>mx_world := w\<rparr>) = (False, m\<lparr>mx_world := w'\<rparr>)"
proof -
  have frame: "view (snd (me_lock env w)) = view w" "view (me_unlock env w) = view w" for w
    using assms(2) by (simp_all add: lock_frame_def)
  obtain b v where bv: "me_lock env w = (b, v)" by fastforce
  have v: "view v = view (mx_world m)" using frame(1) [of w] bv assms(5) by simp
  have "\<not> readable (m\<lparr>mx_world := v\<rparr>) (view v)" using assms(4) v by (simp add: readable_def)
  with expired_instances_view(2) [OF assms(1), of v "m\<lparr>mx_world := v\<rparr>" "me_now env v"] assms(3) v
  obtain e where "expired_instances (m\<lparr>mx_world := v\<rparr>) (me_now env v) (rd_hgetall pf v (mx_update_ns_key m)) = Inl e" by auto
  with delete_expired_error [of "m\<lparr>mx_world := v\<rparr>" env pf e]
  show ?thesis using bv v assms(5) frame(2) [of v] by (cases b) (auto simp: expired_round_def Let_def)
qed

lemma unreadable_rounds:
  assumes "redis_server pf view mt" and "lock_frame env view" and "is_hash (view (mx_world m)) (mx_update_ns_key m)"
    and "\<not> readable m (view (mx_world m))"
  shows "\<exists>w. view w = view (mx_world m) \<and> ((\<lambda>m. snd (expired_round pf env m)) ^^ j) m = m\<lparr>mx_world := w\<rparr>"
proof (induction j)
  case 0
  show ?case by (rule exI [of _ "mx_world m"]) simp
next
  case (Suc j)
  then obtain w where w: "view w = view (mx_world m)" "((\<lambda>m. snd (expired_round pf env m)) ^^ j) m = m\<lparr>mx_world := w\<rparr>" by blast
  with unreadable_round [OF assms w(1)] show ?case by auto
qed

text \<open>The rounds up to the one that gets the lock only ask for it; that one ends the loop when all times can be read.\<close>

lemma unlocked_round:
  "\<not> fst (me_lock env w) \<Longrightarrow> expired_round pf env (m\<lparr>mx_world := w\<rparr>) = (False, m\<lparr>mx_world := snd (me_lock env w)\<rparr>)"
  by (cases "me_lock env w") (simp add: expired_round_def Let_def)

lemma unlocked_rounds:
  assumes "\<And>i. i < j \<Longrightarrow> \<not> fst (me_lock env (((\<lambda>w. snd (me_lock env w)) ^^ i) (mx_world m)))" and "i \<le> j"
  shows "((\<lambda>m. snd (expired_round pf env m)) ^^ i) m = m\<lparr>mx_world := ((\<lambda>w. snd (me_lock env w)) ^^ i) (mx_world m)\<rparr>"
  using assms(2)
proof (induction i)
  case (Suc i)
  with assms(1) [of i] show ?case by (simp add: unlocked_round)
qed simp

lemma readable_round:
  assumes "redis_server pf view mt" and "lock_frame env view" and "is_hash (view (mx_world m)) (mx_update_ns_key m)"
    and "readable m (view (mx_world m))" and "view w = view (mx_world m)" and "fst (me_lock env w)"
  shows "fst (expired_round pf env (m\<lparr>mx_world := w\<rparr>))"
proof -
  obtain v where v: "me_lock env w = (True, v)" using assms(6) by (cases "me_lock env w") auto
  have "view (snd (me_lock env w)) = view w" using assms(2) by (simp add: lock_frame_def)
  then have viewv: "view v = view (mx_world m)" using v assms(5) by simp
  then have "readable (m\<lparr>mx_world := v\<rparr>) (view v)" using assms(4) by (simp add: readable_def)
  with expired_instances_view(1) [OF assms(1), of v "m\<lparr>mx_world := v\<rparr>" "me_now env v"] assms(3) viewv
  obtain is' where "expired_instances (m\<lparr>mx_world := v\<rparr>) (me_now env v) (rd_hgetall pf v (mx_update_ns_key m)) = Inr is'" by auto
  with delete_expired_ok [of "m\<lparr>mx_world := v\<rparr>" env pf is'] show ?thesis using v by (simp add: expired_round_def)
qed

text \<open>
  Whether the constructor gets past the clean-up. If the lock becomes free some time, the loop ends exactly
  when the last update of every instance can be read as a number: one malformed time in the hash keeps every
  later instance in this loop for ever.
\<close>

theorem delete_expired_ends:
  assumes "redis_server pf view mt" and "lock_frame env view" and "is_hash (view (mx_world m)) (mx_update_ns_key m)"
    and "fst (me_lock env (((\<lambda>w. snd (me_lock env w)) ^^ n) (mx_world m)))"
  shows "fst (DeleteExpiredFields pf env m) = (if readable m (view (mx_world m)) then Inr () else Inl NoReturn)"
proof (cases "readable m (view (mx_world m))")
  case False
  let ?round = "\<lambda>m. snd (expired_round pf env m)"
  let ?verdict = "\<lambda>m. if fst (expired_round pf env m) then Some (?round m) else None"
  have "?verdict ((?round ^^ j) m) = None" for j
    using unreadable_rounds [OF assms(1-3) False, of j] unreadable_round [OF assms(1-3) False] by fastforce
  then have "poll ?verdict ?round m = None" by (simp only: poll_None) blast
  with False show ?thesis by (simp add: DeleteExpiredFields_def)
next
  case True
  let ?round = "\<lambda>m. snd (expired_round pf env m)" and ?ask = "\<lambda>w. snd (me_lock env w)"
  let ?verdict = "\<lambda>m. if fst (expired_round pf env m) then Some (?round m) else None"
  define j where "j = (LEAST j. fst (me_lock env ((?ask ^^ j) (mx_world m))))"
  have j: "fst (me_lock env ((?ask ^^ j) (mx_world m)))" unfolding j_def using assms(4) by (rule LeastI)
  have before: "\<not> fst (me_lock env ((?ask ^^ i) (mx_world m)))" if "i < j" for i
    using that not_less_Least unfolding j_def by blast
  note rounds = unlocked_rounds [where j = j and m = m and pf = pf, OF before]
  have "view ((?ask ^^ j) (mx_world m)) = view (mx_world m)"
    using assms(2) by (induction j) (simp_all add: lock_frame_def)
  from readable_round [OF assms(1-3) True this j]
  obtain r where "?verdict ((?round ^^ j) m) = Some r" using rounds [of j] by simp
  moreover have "?verdict ((?round ^^ i) m) = None" if "i < j" for i
    using rounds [of i] unlocked_round [OF before [OF that], of pf m] that by simp
  ultimately have "poll ?verdict ?round m = Some (r, (?round ^^ j) m)" by (intro poll_after) auto
  with True show ?thesis by (simp add: DeleteExpiredFields_def)
qed

theorem delete_expired_ends_witness:
  "fst (DeleteExpiredFields ref_platform ref_metrics_env
     (ref_metrics [(''metrics:last-update-ns'', RHash [(''Sink-1'', ''yesterday'')])] [])) = Inl NoReturn"
proof -
  let ?m = "ref_metrics [(''metrics:last-update-ns'', RHash [(''Sink-1'', ''yesterday'')])] []"
  have v: "ref_view (mx_world ?m) = [''metrics:last-update-ns'' \<mapsto> RHash [(''Sink-1'', ''yesterday'')]]"
    and key: "mx_update_ns_key ?m = ''metrics:last-update-ns''"
    by (simp_all add: ref_metrics_def ref_view_def)
  have "stoull ''yesterday'' = Inl InvalidArgument" by code_simp
  then have "\<not> readable ?m (ref_view (mx_world ?m))"
    by (simp add: readable_def v key field_of_def)
  moreover have "is_hash (ref_view (mx_world ?m)) (mx_update_ns_key ?m)" by (simp add: is_hash_def v)
  moreover have "fst (me_lock ref_metrics_env (((\<lambda>w. snd (me_lock ref_metrics_env w)) ^^ 0) (mx_world ?m)))"
    by (simp add: metrics_env_sel)
  ultimately show ?thesis using delete_expired_ends [OF ref_redis_server lock_frame_ref, of ?m 0] by (simp only: if_False)
qed

text \<open>
  The age of an update is an unsigned difference: the update of an instance whose clock is ahead of this one,
  by a nanosecond or by centuries, counts as one of long ago, and the instance is gone.
\<close>

theorem clock_ahead_is_gone:
  assumes "field_of ks (mx_update_ns_key m) i = Some v" and "stoull v = Inr u"
    and "uint now < uint u" and "uint u - uint now \<le> 2 ^ 63" and "mx_max_ttl m \<le> 9223372036854"
  shows "gone m ks now i"
proof -
  have bounds: "0 \<le> uint now" "uint u < 2 ^ 64" using uint_lt2p [of u] by simp_all
  have "uint (now - u) = (uint now - uint u) mod 2 ^ 64" by (simp add: uint_word_ariths)
  also have "\<dots> = (uint now - uint u + 2 ^ 64) mod 2 ^ 64" by simp
  also have "\<dots> = uint now - uint u + 2 ^ 64" using assms(3) bounds by (intro mod_pos_pos_trivial) linarith+
  finally have "mx_max_ttl m * 1000000 < uint (now - u)" using assms(4,5) by simp
  with assms(1,2) show ?thesis by (auto simp: gone_def too_old_def)
qed

theorem clock_ahead_is_gone_witness:
  "gone (ref_metrics [] []) (\<lambda>k. if k = ''metrics:last-update-ns'' then Some (RHash [(''Sink-1'', ''6'')]) else None) 5 ''Sink-1''"
  by (rule clock_ahead_is_gone [of _ _ _ "''6''" 6])
     (simp_all add: field_of_def ref_metrics_def stoull_def read_int_def read_nat_def is_space_def is_digit_def)

subsection \<open>The time series of the device\<close>

text \<open>What the module of time series is relied on for: a command changes its own key only, and no properties.\<close>

definition ts_module :: "'w platform \<Rightarrow> ('w, 'd) metrics_env \<Rightarrow> ('w \<Rightarrow> keyspace) \<Rightarrow> bool" where
  "ts_module pf env view \<longleftrightarrow>
     (\<forall>w n k r q. q \<noteq> k \<longrightarrow> view (me_raw env (n # k # r) w) q = view w q) \<and>
     (\<forall>w k. me_exists env w k \<longleftrightarrow> view w k \<noteq> None) \<and>
     (\<forall>w args. pr_get pf (me_raw env args w) = pr_get pf w) \<and> (\<forall>w c. pr_get pf (rd_run pf c w) = pr_get pf w)"

definition ts_pending :: "string set \<Rightarrow> string list \<Rightarrow> mcmd \<Rightarrow> bool" where
  "ts_pending B ks c = (case c of Cmd r \<Rightarrow> (case r of HSet k fs \<Rightarrow> k \<in> B | _ \<Rightarrow> False)
     | Raw args \<Rightarrow> (case args of n # k # r \<Rightarrow> k \<in> set ks | _ \<Rightarrow> False))"

text \<open>Every key of the registry is one of \<open>B\<close> or a registered time series, or becomes so when the pipeline is executed.\<close>

definition ts_tracked :: "'w platform \<Rightarrow> ('w \<Rightarrow> keyspace) \<Rightarrow> (string \<Rightarrow> string option) \<Rightarrow> string set \<Rightarrow> ('w, 'd) metrics \<Rightarrow> bool" where
  "ts_tracked pf view g B m \<longleftrightarrow>
     (\<forall>q. view (mx_world m) q \<noteq> None \<longrightarrow> q \<in> B \<or> q \<in> set (mx_ts_keys m)) \<and>
     list_all (ts_pending B (mx_ts_keys m)) (mx_pipe m) \<and>
     pr_get pf (mx_world m) = g \<and> mx_state_key m \<in> B \<and> pk_stateId (mx_proc_key m) \<in> B"

lemma ts_pendingE:
  assumes "ts_pending B ks c"
  obtains k fs where "c = Cmd (HSet k fs)" "k \<in> B" | n k r where "c = Raw (n # k # r)" "k \<in> set ks"
  using assms by (auto simp: ts_pending_def split: mcmd.splits redis_cmd.splits list.splits)

lemma ts_pending_mono: "ts_pending B ks c \<Longrightarrow> set ks \<subseteq> set ks' \<Longrightarrow> ts_pending B ks' c"
  by (auto simp: ts_pending_def split: mcmd.splits redis_cmd.splits list.splits)

lemma run_pending:
  assumes "redis_server pf view mt" and "ts_module pf env view"
    and "list_all (ts_pending B ks) cs" and "view (fold (run_mcmd pf env) cs w) q \<noteq> None"
  shows "view w q \<noteq> None \<or> q \<in> B \<or> q \<in> set ks"
  using assms(3,4)
proof (induction cs arbitrary: w)
  case (Cons c cs)
  from Cons.prems have "view (run_mcmd pf env c w) q \<noteq> None \<or> q \<in> B \<or> q \<in> set ks" by (intro Cons.IH) auto
  moreover have "view (run_mcmd pf env c w) q = view w q \<or> q \<in> B \<or> q \<in> set ks"
  proof -
    from Cons.prems(1) have "ts_pending B ks c" by simp
    then show ?thesis
    proof (cases rule: ts_pendingE)
      case (1 k fs)
      then show ?thesis using cmd_effect_frame [of q "HSet k fs" "view w"]
        by (cases "q = k") (simp_all add: run_mcmd_def view_run [OF assms(1)] del: cmd_effect.simps)
    next
      case (2 n k r)
      then show ?thesis using assms(2) by (cases "q = k") (auto simp: run_mcmd_def ts_module_def)
    qed
  qed
  ultimately show ?case by auto
qed simp

lemma ts_tracked_exec:
  assumes "redis_server pf view mt" and "ts_module pf env view"
  shows "keeps (ts_tracked pf view g B) (exec_pipe pf env)"
  unfolding exec_pipe_def
proof (rule keeps_modify)
  fix m :: "('a, 'b) metrics"
  assume m: "ts_tracked pf view g B m"
  have "pr_get pf (fold (run_mcmd pf env) cs w) = pr_get pf w" for cs w
    using assms(2) by (induction cs arbitrary: w) (simp_all add: ts_module_def run_mcmd_def split: mcmd.split)
  moreover have "q \<in> B \<or> q \<in> set (mx_ts_keys m)" if "view (fold (run_mcmd pf env) (mx_pipe m) (mx_world m)) q \<noteq> None" for q
    using run_pending [OF assms _ that, of B "mx_ts_keys m"] m unfolding ts_tracked_def by blast
  ultimately show "ts_tracked pf view g B (m\<lparr>mx_world := fold (run_mcmd pf env) (mx_pipe m) (mx_world m), mx_pipe := []\<rparr>)"
    using m by (simp add: ts_tracked_def)
qed

lemma ts_tracked_discard: "keeps (ts_tracked pf view g B) discard_pipe"
  unfolding discard_pipe_def by (rule keeps_modify) (simp add: ts_tracked_def)

lemma ts_tracked_create:
  assumes "redis_server pf view mt" and "ts_module pf env view"
  shows "keeps (ts_tracked pf view g B) (CreateTimeseries pf env key labels)"
proof -
  have frame: "pr_get pf (rd_run pf c w) = pr_get pf w" for c w using assms(2) by (simp add: ts_module_def)
  show ?thesis
    by (auto simp: keeps_def CreateTimeseries_def op_simps bindM_def seqM_def only_if_def queue_cmds_def ts_tracked_def list_all_iff
        ts_pending_def view_run [OF assms(1)] frame dest!: bspec intro: ts_pending_mono split: mcmd.splits redis_cmd.splits list.splits)
qed

lemma ts_tracked_sockets:
  "(\<And>m. mx_world (f m) = mx_world m \<and> mx_ts_keys (f m) = mx_ts_keys m \<and> mx_pipe (f m) = mx_pipe m \<and>
      mx_state_key (f m) = mx_state_key m \<and> mx_proc_key (f m) = mx_proc_key m) \<Longrightarrow>
   keeps (ts_tracked pf view g B) (modify f)"
  by (rule keeps_modify) (simp add: ts_tracked_def)

lemma ts_tracked_create_socket:
  assumes "redis_server pf view mt" and "ts_module pf env view"
  shows "keeps (ts_tracked pf view g B) (create_socket pf env np)"
  by (cases np)
     (auto simp: create_socket_def CreateSocketTS1_def Let_def
       intro!: keeps_bindM keeps_seqM keeps_only_if keeps_gets keeps_ret ts_tracked_sockets ts_tracked_create [OF assms])

lemma ts_tracked_create_sockets:
  assumes "redis_server pf view mt" and "ts_module pf env view"
  shows "keeps (ts_tracked pf view g B) (CreateSocketTS pf env)"
  unfolding CreateSocketTS_def by (intro keeps_bindM keeps_gets keeps_for_each ts_tracked_create_socket [OF assms])

lemma ts_tracked_initialize: "keeps (ts_tracked pf view g B) (InitializeSocketProperties pf)"
  unfolding InitializeSocketProperties_def
  by (intro keeps_bindM keeps_seqM keeps_gets keeps_asks keeps_for_each ts_tracked_sockets) simp_all

lemma delete_ts_keys:
  assumes "redis_server pf view mt" and "ts_module pf env view" and "ts_tracked pf view g B m" and "mx_pipe m = []"
  shows "DeleteTSKeys pf m = (Inr (), snd (DeleteTSKeys pf m))" and "ts_tracked pf view g B (snd (DeleteTSKeys pf m))"
    and "mx_ts_keys (snd (DeleteTSKeys pf m)) = []" and "mx_pipe (snd (DeleteTSKeys pf m)) = []"
  using assms(2-4)
  by (auto simp: DeleteTSKeys_def op_simps only_if_def ts_tracked_def view_run [OF assms(1)] ts_module_def split: if_splits)

text \<open>The beginning of the callback: the name and the number of the state are sent, nothing else is.\<close>

definition send_state :: "'w platform \<Rightarrow> ('w, 'd) metrics_env \<Rightarrow> DeviceState \<Rightarrow> ('w, 'd) metrics \<Rightarrow> ('w, 'd) metrics" where
  "send_state pf env s m = m\<lparr>
     mx_world := rd_run pf (HSet (pk_stateId (mx_proc_key m)) [(mx_id m, show_nat (me_state_no env s))])
       (rd_run pf (HSet (mx_state_key m) [(mx_id m, GetStateName pf s)]) (mx_world m)),
     mx_pipe := []\<rparr>"

lemma state_callback_unfold: "metrics_state_callback pf env s m = state_action pf env s (send_state pf env s m)"
  unfolding metrics_state_callback_def seqM_def
  by (simp add: discard_pipe_def queue_cmds_def exec_pipe_def op_simps send_state_def run_mcmd_def bindM_assoc)

lemma ts_tracked_send_state:
  assumes "redis_server pf view mt" and "ts_module pf env view" and "ts_tracked pf view g B m"
  shows "ts_tracked pf view g B (send_state pf env s m)"
proof -
  have "view (mx_world (send_state pf env s m)) q = view (mx_world m) q" if "q \<notin> B" for q
  proof -
    from assms(3) that have "q \<noteq> mx_state_key m" "q \<noteq> pk_stateId (mx_proc_key m)" by (auto simp: ts_tracked_def)
    then show ?thesis by (simp add: send_state_def view_run [OF assms(1)] cmd_effect_frame del: cmd_effect.simps)
  qed
  moreover have "pr_get pf (mx_world (send_state pf env s m)) = pr_get pf (mx_world m)"
    using assms(2) by (simp add: send_state_def ts_module_def)
  ultimately show ?thesis using assms(3) by (fastforce simp: ts_tracked_def send_state_def)
qed

lemma ts_tracked_action:
  assumes "redis_server pf view mt" and "ts_module pf env view" and "s \<noteq> Ready"
  shows "keeps (ts_tracked pf view g B) (state_action pf env s)"
  using assms(3) unfolding state_action_def
  by (cases s)
     (auto intro!: keeps_bindM keeps_seqM keeps_gets keeps_only_if keeps_ret ts_tracked_initialize
       ts_tracked_create [OF assms(1,2)] ts_tracked_create_sockets [OF assms(1,2)] ts_tracked_exec [OF assms(1,2)])

lemma ready_action:
  assumes "redis_server pf view mt" and "ts_module pf env view" and "ts_tracked pf view g B m" and "mx_pipe m = []"
  shows "ts_tracked pf view g B (snd (state_action pf env Ready m))" and "mx_pipe (snd (state_action pf env Ready m)) = []"
    and "IsRecreateTS pf (mx_world m) \<Longrightarrow> mx_ts_keys (snd (state_action pf env Ready m)) = []"
proof -
  let ?clear = "\<lambda>m. m\<lparr>mx_metrics := [], mx_counted := []\<rparr>"
  have "snd (state_action pf env Ready m) = (if IsRecreateTS pf (mx_world m) then ?clear (snd (DeleteTSKeys pf m)) else ?clear m)"
  proof -
    obtain n where "DeleteTSKeys pf m = (Inr (), n)" using delete_ts_keys(1) [OF assms] by metis
    then show ?thesis by (simp add: state_action_def seqM_def bindM_def op_simps only_if_def)
  qed
  then show "ts_tracked pf view g B (snd (state_action pf env Ready m))" "mx_pipe (snd (state_action pf env Ready m)) = []"
    "IsRecreateTS pf (mx_world m) \<Longrightarrow> mx_ts_keys (snd (state_action pf env Ready m)) = []"
    using delete_ts_keys(2-) [OF assms] assms(3,4) by (auto simp: ts_tracked_def)
qed

lemma ts_tracked_callback:
  assumes "redis_server pf view mt" and "ts_module pf env view" and "ts_tracked pf view g B m"
  shows "ts_tracked pf view g B (snd (metrics_state_callback pf env s m))"
proof -
  note start = ts_tracked_send_state [OF assms, of s]
  show ?thesis
  proof (cases "s = Ready")
    case True
    have "mx_pipe (send_state pf env s m) = []" by (simp add: send_state_def)
    from ready_action(1) [OF assms(1,2) start this] True show ?thesis by (simp add: state_callback_unfold)
  next
    case False
    from keepsD [OF ts_tracked_action [OF assms(1,2) False] start] show ?thesis by (simp only: state_callback_unfold)
  qed
qed

text \<open>
  C20. The time series. Through any run of state changes every key of the registry is one of the others or a time
  series that the plugin has registered; and if they are to be created anew, none of them is left when the device
  comes to READY.
\<close>

theorem time_series_tracked:
  assumes "redis_server pf view mt" and "ts_module pf env view" and "IsRecreateTS pf (mx_world m)" and "mx_pipe m = []"
    and "\<forall>q. view (mx_world m) q \<noteq> None \<longrightarrow> q \<in> B" and "{mx_state_key m, pk_stateId (mx_proc_key m)} \<subseteq> B"
  shows "let run = fold (\<lambda>s m. snd (metrics_state_callback pf env s m)); m' = run ss m; m'' = run [Ready] m'
    in (\<forall>q. view (mx_world m') q \<noteq> None \<longrightarrow> q \<in> B \<or> q \<in> set (mx_ts_keys m')) \<and>
       mx_ts_keys m'' = [] \<and> (\<forall>q. view (mx_world m'') q \<noteq> None \<longrightarrow> q \<in> B)"
proof -
  let ?run = "fold (\<lambda>s m. snd (metrics_state_callback pf env s m))" and ?g = "pr_get pf (mx_world m)"
  have start: "ts_tracked pf view ?g B m" using assms(4,5,6) by (simp add: ts_tracked_def)
  have tracked: "ts_tracked pf view ?g B (?run ss n)" if "ts_tracked pf view ?g B n" for ss n
    using that by (induction ss arbitrary: n) (simp_all add: ts_tracked_callback [OF assms(1,2)])
  let ?m' = "?run ss m" and ?m'' = "snd (metrics_state_callback pf env Ready (?run ss m))"
  have now: "ts_tracked pf view ?g B ?m'" by (rule tracked [OF start])
  note sent = ts_tracked_send_state [OF assms(1,2) now, of Ready]
  have "IsRecreateTS pf (mx_world (send_state pf env Ready ?m'))"
    using assms(3) sent by (simp add: IsRecreateTS_def ts_tracked_def)
  moreover have "mx_pipe (send_state pf env Ready ?m') = []" by (simp add: send_state_def)
  ultimately have none: "mx_ts_keys ?m'' = []"
    using ready_action(3) [OF assms(1,2) sent] by (simp add: state_callback_unfold)
  from now have "\<forall>q. view (mx_world ?m') q \<noteq> None \<longrightarrow> q \<in> B \<or> q \<in> set (mx_ts_keys ?m')" by (simp add: ts_tracked_def)
  moreover have "\<forall>q. view (mx_world ?m'') q \<noteq> None \<longrightarrow> q \<in> B"
    using ts_tracked_callback [OF assms(1,2) now, of Ready] none by (simp add: ts_tracked_def)
  ultimately show ?thesis using none by simp
qed

lemma ref_ts_module: "ts_module ref_platform ref_metrics_env ref_view"
  by (auto simp: ts_module_def metrics_env_sel ref_sel ref_view_def ref_run_def Let_def split: list.split)

theorem time_series_tracked_witness:
  "let m = ref_metrics [] [(''recreate-ts'', ''True'')];
       run = fold (\<lambda>s m. snd (metrics_state_callback ref_platform ref_metrics_env s m));
       m'' = run [Ready] (run [DeviceReady, Running] m)
   in mx_ts_keys m'' = [] \<and> ref_view (mx_world m'') ''ts:Sink-0:cpu-stat'' = None"
proof -
  let ?m = "ref_metrics [] [(''recreate-ts'', ''True'')]"
  let ?run = "fold (\<lambda>s m. snd (metrics_state_callback ref_platform ref_metrics_env s m))"
  let ?B = "{''metrics:state'', ''metrics:state-id''}" and ?m'' = "?run [Ready] (?run [DeviceReady, Running] ?m)"
  have "IsRecreateTS ref_platform (mx_world ?m)" by (simp add: IsRecreateTS_def ref_sel ref_metrics_def) code_simp
  moreover have "\<forall>q. ref_view (mx_world ?m) q \<noteq> None \<longrightarrow> q \<in> ?B" by (simp add: ref_metrics_def ref_view_def)
  moreover have "{mx_state_key ?m, pk_stateId (mx_proc_key ?m)} \<subseteq> ?B" "mx_pipe ?m = []" by (simp_all add: ref_metrics_def)
  ultimately have "mx_ts_keys ?m'' = [] \<and> (\<forall>q. ref_view (mx_world ?m'') q \<noteq> None \<longrightarrow> q \<in> ?B)"
    using time_series_tracked [OF ref_redis_server ref_ts_module, of ?m ?B "[DeviceReady, Running]"] unfolding Let_def by blast
  then show ?thesis unfolding Let_def by (intro conjI) (auto simp del: fold_simps)
qed

end
