(* ===== verification/MetricsRates.thy ===== *)
theory MetricsRates
  imports Metrics Connect
begin

text \<open>
  The rates of the sockets (\<^verbatim>\<open>plugins/MetricsPlugin.cxx\<close>): FairMQ logs a line per socket and second; the plugin finds
  the numbers in it with a regular expression, sums them up, queues the commands for the registry, and sends the
  pipeline when every known socket has reported.
\<close>

section \<open>The rates of a socket\<close>

definition number_char :: "char \<Rightarrow> bool" where
  "number_char c \<longleftrightarrow> is_digit c \<or> c \<in> set ''.eE+-''"

definition line_char :: "char \<Rightarrow> bool" where
  "line_char c \<longleftrightarrow> c \<noteq> CHR 0x0A \<and> c \<noteq> CHR 0x0D"

text \<open>The pattern after its leading \<^verbatim>\<open>(.*)\<close>.\<close>

definition rate_items :: "re_item list" where
  "rate_items =
     [Lit (CHR ''['')] @ [d_plus] @ map Lit '']: in: '' @ [Group number_char] @ map Lit '' ('' @ [Group number_char] @
     map Lit '' MB) out: '' @ [Group number_char] @ map Lit '' ('' @ [Group number_char] @ map Lit '' MB)''"

text \<open>A match of a prefix of the text, as \<^verbatim>\<open>std::regex_search\<close> needs it.\<close>

primrec regex_prefix :: "re_item list \<Rightarrow> string \<Rightarrow> string list option" where
  "regex_prefix [] = (\<lambda>s. Some [])"
| "regex_prefix (i # r) = (\<lambda>s.
     case i of
       Lit c \<Rightarrow> (case s of [] \<Rightarrow> None | d # ds \<Rightarrow> if d = c then regex_prefix r ds else None)
     | Group P \<Rightarrow>
         (case List.find (\<lambda>k. regex_prefix r (drop k s) \<noteq> None) (rev [1..<Suc (length (takeWhile P s))]) of
            None \<Rightarrow> None
          | Some k \<Rightarrow> map_option (\<lambda>gs. take k s # gs) (regex_prefix r (drop k s))))"

definition rates_here :: "string \<Rightarrow> string list option" where
  "rates_here s =
     (case List.find (\<lambda>k. regex_prefix rate_items (drop k s) \<noteq> None) (rev [0..<Suc (length (takeWhile line_char s))]) of
        None \<Rightarrow> None
      | Some k \<Rightarrow> map_option (\<lambda>gs. take k s # gs) (regex_prefix rate_items (drop k s)))"

definition search_rates :: "string \<Rightarrow> string list option" where
  "search_rates s =
     (case List.find (\<lambda>i. rates_here (drop i s) \<noteq> None) [0..<Suc (length s)] of
        None \<Rightarrow> None | Some i \<Rightarrow> rates_here (drop i s))"

definition looks_like_rates :: "string \<Rightarrow> bool" where
  "looks_like_rates s \<longleftrightarrow> find_str s '' in: '' \<noteq> npos \<and> find_str s '' out: '' \<noteq> npos \<and> find_str s ''['' \<noteq> npos \<and> find_str s '']:'' \<noteq> npos"

definition read_rates :: "('w, 'd) metrics_env \<Rightarrow> string \<Rightarrow> string \<Rightarrow> string \<Rightarrow> string \<Rightarrow> 'd rates res" where
  "read_rates env msgIn bytesIn msgOut bytesOut =
     bindR (me_stod env msgIn) (\<lambda>a. bindR (me_stod env msgOut) (\<lambda>b. bindR (me_stod env bytesIn) (\<lambda>c. bindR (me_stod env bytesOut) (\<lambda>d.
       Inr \<lparr>ra_msgIn = a, ra_msgOut = b, ra_bytesIn = c, ra_bytesOut = d\<rparr>))))"

definition no_rates :: "('w, 'd) metrics_env \<Rightarrow> 'd rates" where
  "no_rates env = \<lparr>ra_msgIn = me_zero env, ra_msgOut = me_zero env, ra_bytesIn = me_zero env, ra_bytesOut = me_zero env\<rparr>"

definition add_rates :: "('w, 'd) metrics_env \<Rightarrow> 'd rates \<Rightarrow> 'd rates \<Rightarrow> 'd rates" where
  "add_rates env s n = \<lparr>ra_msgIn = me_add env (ra_msgIn s) (ra_msgIn n), ra_msgOut = me_add env (ra_msgOut s) (ra_msgOut n),
     ra_bytesIn = me_add env (ra_bytesIn s) (ra_bytesIn n), ra_bytesOut = me_add env (ra_bytesOut s) (ra_bytesOut n)\<rparr>"

definition rates_of :: "('w, 'd) metrics_env \<Rightarrow> string \<Rightarrow> ('w, 'd) metrics \<Rightarrow> 'd rates" where
  "rates_of env sub m = (case map_of (mx_metrics m) sub of None \<Rightarrow> no_rates env | Some r \<Rightarrow> r)"

definition accumulate :: "('w, 'd) metrics_env \<Rightarrow> string \<Rightarrow> 'd rates \<Rightarrow> (('w, 'd) metrics, unit) opn" where
  "accumulate env sub now = modify (\<lambda>m. m\<lparr>mx_metrics := smap_put sub (add_rates env (rates_of env sub m) now) (mx_metrics m)\<rparr>)"

definition show_count :: "('w, 'd) metrics_env \<Rightarrow> 'd \<Rightarrow> string" where
  "show_count env d = show_nat (unat (me_round env d))"

definition no_keys :: mkeys where
  "no_keys = \<lparr>mk_msgIn = [], mk_msgOut = [], mk_bytesIn = [], mk_bytesOut = []\<rparr>"

text \<open>
  The commands for one direction: \<open>msgs\<close> and \<open>bytes\<close> select the keys, \<open>n\<close>, \<open>b\<close> are the rates and \<open>ns\<close>, \<open>bs\<close> the sums.
\<close>

definition direction_cmds :: "('w, 'd) metrics_env \<Rightarrow> ('w, 'd) metrics \<Rightarrow> string \<Rightarrow> string \<Rightarrow> (mkeys \<Rightarrow> string) \<Rightarrow> (mkeys \<Rightarrow> string) \<Rightarrow>
    mkeys \<Rightarrow> mkeys \<Rightarrow> 'd \<Rightarrow> 'd \<Rightarrow> 'd \<Rightarrow> 'd \<Rightarrow> mcmd list" where
  "direction_cmds env m channelId suffix msgs bytes tsKey tsSumKey n b ns bs =
     [Cmd (HSet (msgs (mx_sock_key m)) [(channelId, show_count env n)]),
      Cmd (HSet (bytes (mx_sock_key m)) [(channelId, me_text env b)]),
      Cmd (HSet (msgs (mx_sum_key m)) [(channelId, show_count env ns)]),
      Cmd (HSet (bytes (mx_sum_key m)) [(channelId, me_text env bs)]),
      Cmd (HSet (mx_num_key m) [(channelId @ suffix, show_count env n)]),
      Cmd (HSet (mx_bytes_key m) [(channelId @ suffix, me_text env b)]),
      Cmd (HSet (mx_num_sum_key m) [(channelId @ suffix, show_count env ns)]),
      Cmd (HSet (mx_bytes_sum_key m) [(channelId @ suffix, me_text env bs)]),
      Raw [''ts.add'', msgs tsKey, ''*'', show_count env n],
      Raw [''ts.add'', bytes tsKey, ''*'', me_show env b],
      Raw [''ts.add'', msgs tsSumKey, ''*'', show_count env ns],
      Raw [''ts.add'', bytes tsSumKey, ''*'', me_show env bs]]"

definition socket_cmds :: "('w, 'd) metrics_env \<Rightarrow> ('w, 'd) metrics \<Rightarrow> string \<Rightarrow> string \<Rightarrow> 'd rates \<Rightarrow> mcmd list" where
  "socket_cmds env m type sub now =
     (let channelId = join [mx_id m, sub] (mx_separator m); s = rates_of env sub m;
          tsKey = (case map_of (mx_ts_sock m) sub of None \<Rightarrow> no_keys | Some k \<Rightarrow> k);
          tsSumKey = (case map_of (mx_ts_sum m) sub of None \<Rightarrow> no_keys | Some k \<Rightarrow> k)
      in (if has_input type then direction_cmds env m channelId ''.in'' mk_msgIn mk_bytesIn tsKey tsSumKey
            (ra_msgIn now) (ra_bytesIn now) (ra_msgIn s) (ra_bytesIn s) else []) @
         (if has_output type then direction_cmds env m channelId ''.out'' mk_msgOut mk_bytesOut tsKey tsSumKey
            (ra_msgOut now) (ra_bytesOut now) (ra_msgOut s) (ra_bytesOut s) else []))"

definition count_channel :: "string \<Rightarrow> (('w, 'd) metrics, unit) opn" where
  "count_channel sub = modify (\<lambda>m. m\<lparr>mx_counted :=
     (case map_of (mx_counted m) sub of Some (Suc n) \<Rightarrow> mx_counted m | _ \<Rightarrow> smap_put sub 1 (mx_counted m))\<rparr>)"

definition report :: "'w platform \<Rightarrow> ('w, 'd) metrics_env \<Rightarrow> string \<Rightarrow> string \<Rightarrow> string \<Rightarrow> 'd rates \<Rightarrow> (('w, 'd) metrics, unit) opn" where
  "report pf env channelName subChannelIndex sub now =
     bindM (gets (\<lambda>m. pr_get pf (mx_world m) (join [''chans'', channelName, subChannelIndex, ''type''] ''.''))) (\<lambda>socketType.
       case socketType of None \<Rightarrow> ret ()
       | Some type \<Rightarrow>
           if \<not> has_input type \<and> \<not> has_output type then ret ()
           else
             bindM (gets (\<lambda>m. socket_cmds env m type sub now)) (\<lambda>cmds.
             seqM (modify (\<lambda>m. m\<lparr>mx_ts_sock := smap_emplace sub no_keys (mx_ts_sock m), mx_ts_sum := smap_emplace sub no_keys (mx_ts_sum m)\<rparr>))
            (seqM (queue_cmds cmds)
            (seqM (count_channel sub)
            (bindM (gets (\<lambda>m. sum_list (map snd (mx_counted m)) = length (mx_metrics m))) (\<lambda>complete.
               only_if complete
                (seqM (SendProcessMetrics env) (seqM (exec_pipe pf env) (modify (\<lambda>m. m\<lparr>mx_counted := []\<rparr>))))))))))"

definition SendSocketMetrics :: "'w platform \<Rightarrow> ('w, 'd) metrics_env \<Rightarrow> string \<Rightarrow> (('w, 'd) metrics, unit) opn" where
  "SendSocketMetrics pf env content =
     (if \<not> looks_like_rates content then ret ()
      else case search_rates content of
          Some [ch, idx, msgIn, bytesIn, msgOut, bytesOut] \<Rightarrow>
            (let channelName = trim ch; subChannelIndex = trim idx; sub = channelName @ ''['' @ subChannelIndex @ '']'' in
             bindM (lift_res (read_rates env msgIn bytesIn msgOut bytesOut)) (\<lambda>now.
               seqM (accumulate env sub now) (try_log (report pf env channelName subChannelIndex sub now))))
        | _ \<Rightarrow> ret ())"


section \<open>The line of a socket\<close>

text \<open>The text that FairMQ logs for sub-channel \<open>ch[idx]\<close>.\<close>

definition rate_line :: "string \<Rightarrow> string \<Rightarrow> string \<Rightarrow> string \<Rightarrow> string \<Rightarrow> string \<Rightarrow> string" where
  "rate_line ch idx msgIn bytesIn msgOut bytesOut =
     ch @ ''['' @ idx @ '']: in: '' @ msgIn @ '' ('' @ bytesIn @ '' MB) out: '' @ msgOut @ '' ('' @ bytesOut @ '' MB)''"

definition number_text :: "string \<Rightarrow> bool" where
  "number_text s \<longleftrightarrow> s \<noteq> [] \<and> list_all number_char s"

definition rate_line_ok :: "string \<Rightarrow> string \<Rightarrow> string \<Rightarrow> string \<Rightarrow> string \<Rightarrow> string \<Rightarrow> bool" where
  "rate_line_ok ch idx msgIn bytesIn msgOut bytesOut \<longleftrightarrow>
     list_all line_char ch \<and> idx \<noteq> [] \<and> list_all is_digit idx \<and> number_text msgIn \<and> number_text bytesIn \<and>
     number_text msgOut \<and> number_text bytesOut \<and> fits (rate_line ch idx msgIn bytesIn msgOut bytesOut)"

lemma regex_prefix_lits [simp]: "regex_prefix (map Lit t @ r) (t @ s) = regex_prefix r s"
  by (induction t) simp_all

lemma regex_prefix_lit [simp]: "regex_prefix (Lit c # r) (c # s) = regex_prefix r s"
  by simp

lemma regex_prefix_group:
  assumes "list_all P u" and "u \<noteq> []" and "\<not> P c" and "regex_prefix r (c # v) = Some gs"
  shows "regex_prefix (Group P # r) (u @ c # v) = Some (u # gs)"
proof -
  have run: "takeWhile P (u @ c # v) = u"
    using assms(1,3) by (subst takeWhile_append2) (simp_all add: list_all_iff)
  have "List.find (\<lambda>k. regex_prefix r (drop k (u @ c # v)) \<noteq> None) (rev [1..<Suc (length u)]) = Some (length u)"
    using assms(2,4) by (intro find_largest) (auto simp: Suc_le_eq)
  moreover have "drop (length u) (u @ c # v) = c # v" "take (length u) (u @ c # v) = u" by simp_all
  ultimately show ?thesis using assms(4) by (simp only: regex_prefix.simps re_item.case run option.case option.map)
qed

lemma regex_prefix_group_lits:
  assumes "list_all P u" and "u \<noteq> []" and "\<not> P c" and "regex_prefix r s = Some gs"
  shows "regex_prefix (Group P # map Lit (c # t) @ r) (u @ (c # t) @ s) = Some (u # gs)"
proof -
  have "regex_prefix (map Lit (c # t) @ r) ((c # t) @ s) = Some gs" using assms(4) by (simp only: regex_prefix_lits)
  then have "regex_prefix (map Lit (c # t) @ r) (c # t @ s) = Some gs" by (simp only: append_Cons)
  from regex_prefix_group [OF assms(1,2,3) this] show ?thesis by (simp only: append_Cons)
qed

lemma number_char_stops: "\<not> number_char (CHR '' '')" "\<not> is_digit (CHR '']'')" "line_char (CHR ''['')"
  by (simp_all add: number_char_def is_digit_def line_char_def)

lemma rate_items_groups:
  "rate_items = Lit (CHR ''['') # Group is_digit # map Lit '']: in: '' @ (Group number_char # map Lit '' ('' @
     (Group number_char # map Lit '' MB) out: '' @ (Group number_char # map Lit '' ('' @ (Group number_char # map Lit '' MB)'' @ []))))"
  by (simp add: rate_items_def)

lemma rates_after_name:
  assumes "rate_line_ok ch idx a b c d"
  shows "regex_prefix rate_items (rate_line [] idx a b c d) = Some [idx, a, b, c, d]"
proof -
  have ok: "list_all is_digit idx" "idx \<noteq> []" "list_all number_char a" "a \<noteq> []" "list_all number_char b" "b \<noteq> []"
    "list_all number_char c" "c \<noteq> []" "list_all number_char d" "d \<noteq> []"
    using assms by (simp_all add: rate_line_ok_def number_text_def)
  note sp = number_char_stops(1)
  have "regex_prefix [] [] = Some ([] :: string list)" by simp
  then have "regex_prefix (Group number_char # map Lit '' MB)'' @ []) (d @ '' MB)'' @ []) = Some [d]"
    by (rule regex_prefix_group_lits [OF ok(9,10) sp])
  then have "regex_prefix (Group number_char # map Lit '' ('' @ (Group number_char # map Lit '' MB)'' @ [])) (c @ '' ('' @ d @ '' MB)'' @ []) = Some [c, d]"
    by (rule regex_prefix_group_lits [OF ok(7,8) sp])
  then have "regex_prefix (Group number_char # map Lit '' MB) out: '' @ (Group number_char # map Lit '' ('' @ (Group number_char # map Lit '' MB)'' @ [])))
     (b @ '' MB) out: '' @ c @ '' ('' @ d @ '' MB)'' @ []) = Some [b, c, d]"
    by (rule regex_prefix_group_lits [OF ok(5,6) sp])
  then have "regex_prefix (Group number_char # map Lit '' ('' @ (Group number_char # map Lit '' MB) out: '' @
       (Group number_char # map Lit '' ('' @ (Group number_char # map Lit '' MB)'' @ []))))
     (a @ '' ('' @ b @ '' MB) out: '' @ c @ '' ('' @ d @ '' MB)'' @ []) = Some [a, b, c, d]"
    by (rule regex_prefix_group_lits [OF ok(3,4) sp])
  then have "regex_prefix (Group is_digit # map Lit '']: in: '' @ (Group number_char # map Lit '' ('' @
     (Group number_char # map Lit '' MB) out: '' @ (Group number_char # map Lit '' ('' @ (Group number_char # map Lit '' MB)'' @ [])))))
     (idx @ '']: in: '' @ a @ '' ('' @ b @ '' MB) out: '' @ c @ '' ('' @ d @ '' MB)'' @ []) = Some [idx, a, b, c, d]"
    by (rule regex_prefix_group_lits [OF ok(1,2) number_char_stops(2)])
  then show ?thesis
    unfolding rate_items_groups rate_line_def by (simp only: append_Nil append_Cons regex_prefix_lit append_Nil2)
qed

lemma no_rate_bracket:
  assumes "rate_line_ok ch idx a b c d" and "regex_prefix rate_items (drop k (rate_line ch idx a b c d)) \<noteq> None"
  shows "k \<le> length ch"
proof (rule ccontr)
  assume k: "\<not> k \<le> length ch"
  define t where "t = idx @ '']: in: '' @ a @ '' ('' @ b @ '' MB) out: '' @ c @ '' ('' @ d @ '' MB)''"
  have "\<not> number_char (CHR ''['')" "\<not> is_digit (CHR ''['')"
    by (simp_all add: number_char_def is_digit_def)
  then have free: "CHR ''['' \<notin> set t"
    using assms(1) by (auto simp: t_def rate_line_ok_def number_text_def list_all_iff)
  from k have "drop k (rate_line ch idx a b c d) = drop (k - Suc (length ch)) t"
    by (simp add: rate_line_def t_def Suc_diff_le drop_Cons')
  then have "CHR ''['' \<notin> set (drop k (rate_line ch idx a b c d))" using free by (auto dest: in_set_dropD)
  with assms(2) show False by (cases "drop k (rate_line ch idx a b c d)") (auto simp: rate_items_groups)
qed

lemma search_rate_line:
  assumes "rate_line_ok ch idx a b c d"
  shows "search_rates (rate_line ch idx a b c d) = Some [ch, idx, a, b, c, d]"
proof -
  let ?s = "rate_line ch idx a b c d"
  define t where "t = rate_line [] idx a b c d"
  have tail: "?s = ch @ t" by (simp add: rate_line_def t_def)
  have groups: "regex_prefix rate_items (drop (length ch) ?s) = Some [idx, a, b, c, d]" "take (length ch) ?s = ch"
    using rates_after_name [OF assms] by (simp_all add: tail t_def)
  have "length ch \<le> length (takeWhile line_char ?s)"
    using assms by (simp add: tail takeWhile_append list_all_iff rate_line_ok_def)
  then have "List.find (\<lambda>k. regex_prefix rate_items (drop k ?s) \<noteq> None) (rev [0..<Suc (length (takeWhile line_char ?s))]) = Some (length ch)"
  proof (intro find_largest)
    show "regex_prefix rate_items (drop (length ch) ?s) \<noteq> None" by (simp only: groups(1)) simp
    show "\<not> regex_prefix rate_items (drop k ?s) \<noteq> None" if "length ch < k" for k
      using no_rate_bracket [OF assms, of k] that by linarith
  qed simp_all
  then have here: "rates_here ?s = Some [ch, idx, a, b, c, d]"
    by (simp only: rates_here_def option.case groups option.map)
  have "[0..<Suc (length ?s)] = 0 # [1..<Suc (length ?s)]" by (subst upt_conv_Cons) (simp_all only: zero_less_Suc One_nat_def)
  then show ?thesis by (simp only: search_rates_def List.find.simps here drop_0 option.case simp_thms option.distinct if_True)
qed

lemma rate_line_looks:
  assumes "rate_line_ok ch idx a b c d"
  shows "looks_like_rates (rate_line ch idx a b c d)"
proof -
  have found: "find_str (rate_line ch idx a b c d) t \<noteq> npos" if "rate_line ch idx a b c d = u @ t @ v" for t u v
    using find_str_npos [of "rate_line ch idx a b c d" t] assms that by (auto simp: rate_line_ok_def)
  have "rate_line ch idx a b c d = (ch @ ''['' @ idx @ '']:'') @ '' in: '' @ a @ '' ('' @ b @ '' MB) out: '' @ c @ '' ('' @ d @ '' MB)''"
    "rate_line ch idx a b c d = (ch @ ''['' @ idx @ '']: in: '' @ a @ '' ('' @ b @ '' MB)'') @ '' out: '' @ c @ '' ('' @ d @ '' MB)''"
    "rate_line ch idx a b c d = ch @ ''['' @ idx @ '']: in: '' @ a @ '' ('' @ b @ '' MB) out: '' @ c @ '' ('' @ d @ '' MB)''"
    "rate_line ch idx a b c d = (ch @ ''['' @ idx) @ '']:'' @ '' in: '' @ a @ '' ('' @ b @ '' MB) out: '' @ c @ '' ('' @ d @ '' MB)''"
    by (simp_all add: rate_line_def)
  then show ?thesis unfolding looks_like_rates_def by (intro conjI found)
qed

section \<open>Summing up\<close>

lemma keeps_metrics_queue: "keeps (\<lambda>m. mx_metrics m = M) (queue_cmds cs)"
  unfolding queue_cmds_def by (rule keeps_modify) simp

lemma keeps_metrics_process: "keeps (\<lambda>m. mx_metrics m = M) (SendProcessMetrics env)"
  unfolding SendProcessMetrics_def
  by (auto intro!: keeps_bindM keeps_seqM keeps_asks keeps_gets keeps_metrics_queue keeps_modify)

lemma keeps_metrics_report: "keeps (\<lambda>m. mx_metrics m = M) (report pf env ch idx sub now)"
  unfolding report_def
  by (auto intro!: keeps_bindM keeps_seqM keeps_gets keeps_only_if keeps_ret keeps_metrics_queue keeps_metrics_process keeps_modify
      simp: exec_pipe_def count_channel_def split: option.split)

lemma send_rate_line:
  assumes "rate_line_ok ch idx a b c d" and "read_rates env a b c d = Inr now"
  shows "SendSocketMetrics pf env (rate_line ch idx a b c d) m =
     try_log (report pf env (trim ch) idx (trim ch @ ''['' @ idx @ '']'') now)
       (m\<lparr>mx_metrics := smap_put (trim ch @ ''['' @ idx @ '']'') (add_rates env (rates_of env (trim ch @ ''['' @ idx @ '']'') m) now) (mx_metrics m)\<rparr>)"
proof -
  have "trim idx = idx"
    using assms(1) by (intro trim_same) (auto simp: rate_line_ok_def list_all_iff)
  then show ?thesis
    using rate_line_looks [OF assms(1)] assms(2)
    by (simp add: SendSocketMetrics_def search_rate_line [OF assms(1)] accumulate_def lift_res_def bindM_def seqM_modify Let_def)
qed

text \<open>
  C32. Reading the rates. From the line that FairMQ logs for a sub-channel, whatever else its name contains, the plugin
  takes exactly its name and its four numbers; they are added to the sums of this sub-channel, and the sums of
  the others stay as they are, also when the report to the registry fails.
\<close>

theorem rate_line_summed:
  assumes "rate_line_ok ch idx a b c d" and "read_rates env a b c d = Inr now"
  shows "let sub = trim ch @ ''['' @ idx @ '']''; m' = snd (SendSocketMetrics pf env (rate_line ch idx a b c d) m)
    in rates_of env sub m' = add_rates env (rates_of env sub m) now \<and> (\<forall>other. other = sub \<or> rates_of env other m' = rates_of env other m)"
proof -
  let ?sub = "trim ch @ ''['' @ idx @ '']''"
  let ?M = "smap_put ?sub (add_rates env (rates_of env ?sub m) now) (mx_metrics m)"
  have "mx_metrics (snd (report pf env (trim ch) idx ?sub now (m\<lparr>mx_metrics := ?M\<rparr>))) = ?M"
    by (rule keepsD [OF keeps_metrics_report]) simp
  then have "mx_metrics (snd (SendSocketMetrics pf env (rate_line ch idx a b c d) m)) = ?M"
    by (simp add: send_rate_line [OF assms])
  then show ?thesis by (simp add: Let_def rates_of_def)
qed

lemma sample_line:
  "rate_line_ok ''data'' ''0'' ''12'' ''3'' ''4'' ''5''"
  "rate_line ''data'' ''0'' ''12'' ''3'' ''4'' ''5'' = ''data[0]: in: 12 (3 MB) out: 4 (5 MB)''"
  "read_rates ref_metrics_env ''12'' ''3'' ''4'' ''5'' = Inr \<lparr>ra_msgIn = 12, ra_msgOut = 4, ra_bytesIn = 3, ra_bytesOut = 5\<rparr>"
  "trim ''data'' = ''data''"
  by (simp_all add: rate_line_ok_def number_text_def line_char_def number_char_def is_digit_def fits_def npos_def size_max_def rate_line_def
      read_rates_def metrics_env_sel read_int_def read_nat_def is_space_def trim_same)

theorem rate_line_summed_witness:
  "rates_of ref_metrics_env ''data[0]''
     (snd (SendSocketMetrics ref_platform ref_metrics_env ''data[0]: in: 12 (3 MB) out: 4 (5 MB)'' (ref_metrics [] []))) =
   \<lparr>ra_msgIn = 12, ra_msgOut = 4, ra_bytesIn = 3, ra_bytesOut = 5\<rparr>"
proof -
  from rate_line_summed [OF sample_line(1,3), of ref_platform "ref_metrics [] []"] show ?thesis
    by (simp add: sample_line(2,4) Let_def rates_of_def ref_metrics_def no_rates_def add_rates_def metrics_env_sel)
qed

section \<open>Sending\<close>

text \<open>What the plugin knows of its sockets: each has reported at most once since the last time.\<close>

definition reports_ok :: "('w, 'd) metrics \<Rightarrow> bool" where
  "reports_ok m \<longleftrightarrow> smap_wf (mx_metrics m) \<and> smap_wf (mx_counted m) \<and> snd ` set (mx_counted m) \<subseteq> {1} \<and>
     fst ` set (mx_counted m) \<subseteq> fst ` set (mx_metrics m)"

lemma smap_card: "smap_wf xs \<Longrightarrow> card (fst ` set xs) = length xs"
  using distinct_card [OF smap_wf_distinct, of xs] by simp

lemma reports_complete:
  assumes "reports_ok m"
  shows "sum_list (map snd (mx_counted m)) = length (mx_metrics m) \<longleftrightarrow> fst ` set (mx_counted m) = fst ` set (mx_metrics m)"
proof -
  have "map snd (mx_counted m) = replicate (length (mx_counted m)) 1"
    using assms by (subst replicate_length_same [symmetric, of _ 1]) (auto simp: reports_ok_def)
  then have "sum_list (map snd (mx_counted m)) = length (mx_counted m)" by (simp add: sum_list_replicate)
  moreover have "length (mx_counted m) = card (fst ` set (mx_counted m))" "length (mx_metrics m) = card (fst ` set (mx_metrics m))"
    using assms by (simp_all add: reports_ok_def smap_card)
  ultimately show ?thesis
    using assms card_subset_eq [of "fst ` set (mx_metrics m)" "fst ` set (mx_counted m)"] by (auto simp: reports_ok_def)
qed

lemma reports_accumulated:
  assumes "reports_ok m"
  shows "reports_ok (m\<lparr>mx_metrics := smap_put sub r (mx_metrics m)\<rparr>)"
  using assms by (auto simp: reports_ok_def fst_set_smap_put)

lemma reports_counted:
  assumes "reports_ok m" and "sub \<in> fst ` set (mx_metrics m)"
  shows "reports_ok (snd (count_channel sub m))" and "fst ` set (mx_counted (snd (count_channel sub m))) = insert sub (fst ` set (mx_counted m))"
proof -
  have val: "n = Suc 0" if "map_of (mx_counted m) sub = Some n" for n
    using map_of_SomeD [OF that] assms(1) by (force simp: reports_ok_def)
  have snd_put: "snd ` set (smap_put k v s) \<subseteq> insert v (snd ` set s)" for k v and s :: "nat smap"
    by (induction k v s rule: smap_put.induct) auto
  have "reports_ok (snd (count_channel sub m)) \<and> fst ` set (mx_counted (snd (count_channel sub m))) = insert sub (fst ` set (mx_counted m))"
  proof (cases "map_of (mx_counted m) sub")
    case None
    then have "snd (count_channel sub m) = m\<lparr>mx_counted := smap_put sub 1 (mx_counted m)\<rparr>" by (simp add: count_channel_def op_simps)
    with assms snd_put [of sub 1 "mx_counted m"] show ?thesis by (auto simp: reports_ok_def fst_set_smap_put)
  next
    case (Some n)
    with val have "snd (count_channel sub m) = m" by (simp add: count_channel_def op_simps)
    moreover have "sub \<in> fst ` set (mx_counted m)" using map_of_SomeD [OF Some] by force
    ultimately show ?thesis using assms(1) by auto
  qed
  then show "reports_ok (snd (count_channel sub m))" "fst ` set (mx_counted (snd (count_channel sub m))) = insert sub (fst ` set (mx_counted m))"
    by simp_all
qed

text \<open>The commands on the load of the process, which go out with the pipeline.\<close>

definition process_cmds :: "('w, 'd) metrics_env \<Rightarrow> ('w, 'd) metrics \<Rightarrow> proc_self_stat \<Rightarrow> proc_stat \<Rightarrow> mcmd list" where
  "process_cmds env m self all = (let w = mx_world m;
       cpu = me_cpu env (self_sum self - self_sum (mx_self m)) (proc_sum all - proc_sum (mx_proc m)); ram = me_ram env (st_rss self)
     in [Cmd (HSet (pk_cpu (mx_proc_key m)) [(mx_id m, me_text env cpu)]), Cmd (HSet (pk_ram (mx_proc_key m)) [(mx_id m, me_text env ram)]),
         Cmd (HSet (mx_update_key m) [(mx_id m, me_date env w)]),
         Cmd (HSet (mx_update_ns_key m) [(mx_id m, show_int (sint (me_update_ns env w)))]),
         Raw [''ts.add'', pk_cpu (mx_ts_proc_key m), ''*'', me_show env cpu], Raw [''ts.add'', pk_ram (mx_ts_proc_key m), ''*'', me_show env ram],
         Raw [''ts.add'', pk_stateId (mx_ts_proc_key m), ''*'', show_nat (me_state_id env w)]])"

lemma SendProcessMetrics_ok:
  assumes "ReadProcSelfStat (me_self_stat env (mx_world m)) = Inr self" and "ReadProcStat (me_proc_stat env (mx_world m)) = Inr all"
  shows "SendProcessMetrics env m = (Inr (), m\<lparr>mx_self := self, mx_proc := all, mx_pipe := mx_pipe m @ process_cmds env m self all\<rparr>)"
  using assms by (simp add: SendProcessMetrics_def op_simps bindM_def seqM_def queue_cmds_def process_cmds_def Let_def)



end
