(* ===== verification/ParameterTypes.thy ===== *)
theory ParameterTypes
  imports Parameters
begin

text \<open>
  The types of the options of a device: the service plugin reads them back in fixed types
  (\<open>WriteProgOptions\<close> of \<^verbatim>\<open>plugins/DaqServicePlugin.cxx\<close>), and the parameter plugin writes them. Typing is kept by
  every run of the parameter plugin; parsing a well typed store gets stuck on no option but one.
\<close>

section \<open>Types\<close>

datatype vtype = VStr | VBool | VFloat | VInt | VUint64 | VList | VSet | VMap | VScores

fun type_of :: "'f pvalue \<Rightarrow> vtype" where
  "type_of (PStr s) = VStr"
| "type_of (PBool b) = VBool"
| "type_of (PFloat x) = VFloat"
| "type_of (PInt i) = VInt"
| "type_of (PUint64 i) = VUint64"
| "type_of (PList l) = VList"
| "type_of (PSet l) = VSet"
| "type_of (PMap m) = VMap"
| "type_of (PScores l) = VScores"

fun vtype_of :: "ptype \<Rightarrow> vtype" where
  "vtype_of TString = VStr"
| "vtype_of TInt = VInt"
| "vtype_of TUint64 = VUint64"
| "vtype_of TBool = VBool"
| "vtype_of TFloat = VFloat"

text \<open>The options that the service plugin reads, and in which type.\<close>

definition option_types :: "(string \<times> vtype) list" where
  "option_types =
     [(''severity'', VStr), (''file-severity'', VStr), (''verbosity'', VStr), (''color'', VBool), (''log-to-file'', VStr), (''id'', VStr),
      (''io-threads'', VInt), (''transport'', VStr), (''network-interface'', VStr), (''init-timeout'', VInt), (''shm-segment-size'', VUint64),
      (''shm-allocation'', VStr), (''shm-monitor'', VBool), (''shm-mlock-segment'', VBool), (''shm-zero-segment'', VBool),
      (''shm-throw-bad-alloc'', VBool), (''rate'', VFloat), (''session'', VStr)]"

text \<open>Every option is there and has its type: no \<^verbatim>\<open>GetProperty\<close> of the service plugin throws.\<close>

definition well_typed :: "('w, 'f) param_env \<Rightarrow> 'w \<Rightarrow> bool" where
  "well_typed env w \<longleftrightarrow> list_all (\<lambda>(n, T). map_option type_of (pe_get env w n) = Some T) option_types"

lemma well_typedD: "well_typed env w \<Longrightarrow> (n, T) \<in> set option_types \<Longrightarrow> \<exists>v. pe_get env w n = Some v \<and> type_of v = T"
  by (auto simp: well_typed_def list_all_iff)

text \<open>The type the parameter plugin gives a reserved option; \<open>None\<close> for the others.\<close>

definition reserved_type :: "string \<Rightarrow> ptype option" where
  "reserved_type name =
     (if name \<in> set reservedOptionsString then Some TString
      else if name \<in> set reservedOptionsInt then Some TInt
      else if name \<in> set reservedOptionsSize then Some TUint64
      else if name \<in> set reservedOptionsBool then Some TBool
      else if name \<in> set reservedOptionsFloat then Some TFloat
      else None)"

lemmas reserved_lists = reservedOptionsString_def reservedOptionsInt_def reservedOptionsSize_def reservedOptionsBool_def
  reservedOptionsFloat_def reservedOptionsUint16_def reservedOptionsVectorString_def

lemma option_types_agree:
  "(n, T) \<in> set option_types \<Longrightarrow> n \<noteq> ''color'' \<Longrightarrow> \<exists>P. reserved_type n = Some P \<and> vtype_of P = T"
proof -
  have "list_all (\<lambda>(n, T). n = ''color'' \<or> (case reserved_type n of None \<Rightarrow> False | Some P \<Rightarrow> vtype_of P = T)) option_types"
    by code_simp
  then show "(n, T) \<in> set option_types \<Longrightarrow> n \<noteq> ''color'' \<Longrightarrow> \<exists>P. reserved_type n = Some P \<and> vtype_of P = T"
    by (fastforce simp: list_all_iff split: option.splits)
qed

lemma option_types_unique: "(n, S) \<in> set option_types \<Longrightarrow> (n, T) \<in> set option_types \<Longrightarrow> S = T"
proof -
  have "distinct (map fst option_types)" by code_simp
  then show "(n, S) \<in> set option_types \<Longrightarrow> (n, T) \<in> set option_types \<Longrightarrow> S = T" by (rule eq_key_imp_eq_value)
qed

lemma color_reserved: "reserved_type ''color'' = Some TUint64"
  by (simp add: reserved_type_def reserved_lists)

lemma Parse_reserved: "reserved_type n = Some P \<Longrightarrow> Parse env n line = SetPropertyFromString env P n line"
  by (auto simp: Parse_def reserved_type_def IsReservedOption_def SetPropertyOfReservedOption_def split: if_splits)

lemma read_value_type: "read_value env P s = Inr v \<Longrightarrow> type_of v = vtype_of P"
  by (cases P) (auto simp: bindR_Inr_iff)

lemma differs_ok: "type_of v = type_of w \<Longrightarrow> type_of v = vtype_of P \<Longrightarrow> \<exists>b. differs env v w = Inr b"
  by (cases P; cases v; cases w) (simp_all add: differs_def)

lemma differs_bad: "type_of v \<noteq> type_of w \<Longrightarrow> differs env v w = Inl (Failure ''bad any cast'')"
  by (cases v; cases w) (simp_all add: differs_def)

section \<open>Preservation\<close>

lemma well_typed_set:
  assumes "param_store env view" and "well_typed env w" and "\<And>T. (n, T) \<in> set option_types \<Longrightarrow> type_of v = T"
  shows "well_typed env (pe_set env n v w)"
  using assms by (auto simp: well_typed_def list_all_iff param_store_def)

lemma well_typed_parse:
  assumes "param_store env view" and "well_typed env (pc_world p)"
  shows "well_typed env (pc_world (snd (Parse env n line p)))"
proof (cases "n \<in> fst ` set option_types")
  case True
  then obtain T where T: "(n, T) \<in> set option_types" by auto
  have one: "S = T" if "(n, S) \<in> set option_types" for S
    using that T by (rule option_types_unique)
  obtain v0 where v0: "pe_get env (pc_world p) n = Some v0" "type_of v0 = T" using well_typedD [OF assms(2) T] by blast
  obtain P where P: "Parse env n line = SetPropertyFromString env P n line"
    using option_types_agree [OF T] color_reserved Parse_reserved by metis
  have "well_typed env (pe_set env n v (pc_world p))" if "read_value env P line = Inr v" "differs env v0 v = Inr b" for v b
  proof -
    have "type_of v = T" using that(2) differs_bad [of v0 v env] v0(2) by (cases "type_of v0 = type_of v") auto
    then show ?thesis using one by (intro well_typed_set [OF assms]) auto
  qed
  then show ?thesis
    using assms(2) v0(1)
    by (auto simp: P SetPropertyFromString_def bindM_def op_simps only_if_def SetProperty_def split: sum.split)
next
  case False
  have set: "well_typed env (pe_set env n v (pc_world p))" for v
    using False by (intro well_typed_set [OF assms]) force
  have "well_typed env (pc_world (snd (SetPropertyFromString env T n line p)))" for T
    using assms(2) set by (auto simp: SetPropertyFromString_def bindM_def op_simps only_if_def SetProperty_def split: sum.split)
  then show ?thesis
    using assms(2) set
    by (simp add: Parse_def SetPropertyOfReservedOption_def ToArray_def ToMap_def SetProperty_def op_simps)
qed

text \<open>The state in which the plugin runs: typed options, and a registry that holds no key with the name of one.\<close>

definition typed_params :: "('w, 'f) param_env \<Rightarrow> ('w \<Rightarrow> keyspace) \<Rightarrow> 'w params \<Rightarrow> bool" where
  "typed_params env view p \<longleftrightarrow> well_typed env (pc_world p) \<and> list_all (\<lambda>(n, T). view (pc_world p) n = None) option_types"

lemma typed_frame: "pc_world q = pc_world p \<Longrightarrow> typed_params env view p \<Longrightarrow> typed_params env view q"
  by (simp add: typed_params_def)

lemma typed_parse: "param_store env view \<Longrightarrow> keeps (typed_params env view) (Parse env n line)"
  using well_typed_parse [of env view] Parse_kept [of env view]
  by (simp add: keeps_def typed_params_def others_kept_def)

lemma typed_set:
  assumes "param_store env view" and "n \<notin> fst ` set option_types"
  shows "keeps (typed_params env view) (SetProperty env n v)"
proof -
  have "well_typed env (pe_set env n v w)" if "well_typed env w" for w
    using assms(2) by (intro well_typed_set [OF assms(1) that]) force
  then show ?thesis using assms(1) by (simp add: keeps_def SetProperty_def op_simps typed_params_def param_store_def)
qed

lemma typed_hash: "param_store env view \<Longrightarrow> keeps (typed_params env view) (ReadHash pf env name)"
  unfolding ReadHash_def by (auto intro!: keeps_bindM keeps_gets keeps_asks keeps_for_each typed_parse)

lemma typed_read_key:
  assumes "param_store env view" and "name \<notin> fst ` set option_types"
  shows "keeps (typed_params env view) (read_key pf env name)"
proof -
  have "keeps (typed_params env view) (ReadString pf env name)"
    unfolding ReadString_def
    by (intro keeps_bindM keeps_gets) (simp add: keeps_ret keeps_bindM keeps_asks typed_parse [OF assms(1)] split: option.split)
  moreover have "keeps (typed_params env view) (ReadList pf env name)" "keeps (typed_params env view) (ReadSet env name)"
    "keeps (typed_params env view) (ReadZset env name)"
    unfolding ReadList_def ReadSet_def ReadZset_def by (intro keeps_bindM keeps_gets keeps_only_if typed_set [OF assms])+
  ultimately show ?thesis
    unfolding read_key_def by (intro keeps_bindM keeps_gets) (simp add: typed_hash [OF assms(1)] keeps_ret)
qed

lemma typed_read_more:
  assumes "redis_server pf view mt" and "param_store env view"
  shows "keeps (typed_params env view) (read_more pf env k)"
proof -
  have "typed_params env view (snd (for_each keys (read_key pf env) p))"
    if p: "typed_params env view p" and keys: "scan pf (pc_world p) pat = Inr keys" for p pat keys
  proof -
    obtain keys' where "scan pf (pc_world p) pat = Inr keys'" "set keys' = {x. view (pc_world p) x \<noteq> None \<and> mt pat x}"
      using key_scanner.scan_ok [OF key_scanner_scan [OF assms(1)]] by blast
    with keys p have "x \<notin> fst ` set option_types" if "x \<in> set keys" for x
      using that by (force simp: typed_params_def list_all_iff)
    then have "keeps (typed_params env view) (for_each keys (read_key pf env))"
      by (intro keeps_for_each typed_read_key [OF assms(2)])
    from keepsD [OF this p] show ?thesis .
  qed
  then show ?thesis
    by (auto simp: keeps_def read_more_def only_if_def bindM_def op_simps split: sum.split)
qed

lemma typed_locate: "keeps (typed_params env view) (locate env)"
proof -
  have fill: "keeps (typed_params env view) (fill env sel upd name)"
    if "\<And>s p. pc_world (upd s p) = pc_world p" for sel upd name
    unfolding keeps_def
  proof (intro allI impI)
    fix p
    assume p: "typed_params env view p"
    then have "typed_params env view (upd s p)" for s by (rule typed_frame [OF that])
    with p show "typed_params env view (snd (fill env sel upd name p))"
      by (cases "get_string env name (pc_world p)") (simp_all add: fill_def)
  qed
  have set: "keeps (typed_params env view) (modify set_keys)"
  proof (rule keeps_modify)
    fix p :: "'a params"
    have "pc_world (set_keys p) = pc_world p" by (simp add: set_keys_def Let_def split: option.split)
    then show "typed_params env view p \<Longrightarrow> typed_params env view (set_keys p)" by (rule typed_frame)
  qed
  have "keeps (typed_params env view) (fill env pc_id (\<lambda>s p. p\<lparr>pc_id := s\<rparr>) ''id'')"
    "keeps (typed_params env view) (fill env pc_separator (\<lambda>s p. p\<lparr>pc_separator := s\<rparr>) ''separator'')"
    by (rule fill, simp)+
  then show ?thesis unfolding locate_def by (intro keeps_bindM) (simp_all add: keeps_ret keeps_bindM keeps_seqM set)
qed

lemma typed_read:
  assumes "redis_server pf view mt" and "param_store env view"
  shows "keeps (typed_params env view) (ReadParameters pf env)"
  unfolding ReadParameters_def
  by (auto intro!: keeps_bindM keeps_seqM keeps_only_if keeps_gets typed_locate typed_hash typed_read_more assms)

lemma typed_loop:
  assumes "redis_server pf view mt" and "param_store env view"
  shows "typed_params env view p \<Longrightarrow> typed_params env view (snd (param_loop pf env chans cs p))"
proof (induction cs arbitrary: p)
  case (Cons c cs)
  obtain r q where q: "ReadParameters pf env p = (r, q)" by fastforce
  with keepsD [OF typed_read [OF assms] Cons.prems] have "typed_params env view q" by simp
  with Cons q show ?case by (cases c; cases r) auto
qed simp

text \<open>
  C21. The options keep their types. If the service plugin finds every option of the device in the type in which it
  reads it, then it still does so after any run of the parameter plugin: its first reading, all messages, and also
  when one of them fails. (No key of the registry has the name of an option.)
\<close>

theorem options_stay_typed:
  assumes "redis_server pf view mt" and "param_store env view" and "well_typed env (pc_world p)"
    and "list_all (\<lambda>(n, T). view (pc_world p) n = None) option_types"
  shows "well_typed env (pc_world (snd (start_params pf env cs p)))"
proof -
  have start: "typed_params env view p" using assms(3,4) by (simp add: typed_params_def)
  have "keeps (typed_params env view) (SubscribeToParameterChange pf env b cs)" for b
  proof -
    have "keeps (typed_params env view) (param_loop pf env chans cs)" for chans
      unfolding keeps_def using typed_loop [OF assms(1,2)] by blast
    then show ?thesis
      unfolding SubscribeToParameterChange_def by (simp add: keeps_raise keeps_bindM keeps_asks)
  qed
  then have "keeps (typed_params env view) (start_params pf env cs)"
    unfolding start_params_def by (intro keeps_bindM keeps_asks keeps_seqM keeps_only_if keeps_try_log typed_read [OF assms(1,2)])
  from keepsD [OF this start] show ?thesis by (simp add: typed_params_def)
qed

section \<open>Progress\<close>

text \<open>
  On a well typed store the value of a reserved option is refused only if it is no number of its type. The
  exception is \<open>color\<close>, a flag that the plugin lists among the sizes: no value of it is ever accepted.
\<close>

theorem reserved_options_accepted:
  assumes "well_typed env (pc_world p)" and "n \<in> fst ` set option_types"
  shows "\<exists>P. reserved_type n = Some P \<and>
    ((\<exists>e. fst (Parse env n line p) = Inl e) \<longleftrightarrow> n = ''color'' \<or> (\<exists>e. read_value env P line = Inl e))"
proof -
  from assms(2) obtain T where T: "(n, T) \<in> set option_types" by auto
  obtain v0 where v0: "pe_get env (pc_world p) n = Some v0" "type_of v0 = T" using well_typedD [OF assms(1) T] by blast
  have step: "fst (SetPropertyFromString env P n line p) =
      bindR (read_value env P line) (\<lambda>v. bindR (differs env v0 v) (\<lambda>b. Inr ()))" for P
    using v0(1) by (auto simp: SetPropertyFromString_def bindM_def op_simps only_if_def SetProperty_def split: sum.split)
  show ?thesis
  proof (cases "n = ''color''")
    case True
    have "(''color'', VBool) \<in> set option_types" by (simp add: option_types_def)
    with T have "T = VBool" by (auto simp: True dest: option_types_unique)
    then have bad: "differs env v0 v = Inl (Failure ''bad any cast'')" if "read_value env TUint64 line = Inr v" for v
      using v0(2) read_value_type [OF that] by (intro differs_bad) simp
    have "\<exists>e. fst (Parse env n line p) = Inl e"
      by (cases "read_value env TUint64 line") (simp_all add: True Parse_reserved [OF color_reserved] step [unfolded True] bad)
    with True color_reserved show ?thesis by simp
  next
    case False
    with option_types_agree [OF T] obtain P where P: "reserved_type n = Some P" "vtype_of P = T" by blast
    have "\<exists>b. differs env v0 v = Inr b" if "read_value env P line = Inr v" for v
      using read_value_type [OF that] v0(2) P(2) by (intro differs_ok [of _ _ P]) simp_all
    then have "(\<exists>e. fst (Parse env n line p) = Inl e) \<longleftrightarrow> (\<exists>e. read_value env P line = Inl e)"
      by (cases "read_value env P line") (auto simp: Parse_reserved [OF P(1)] step)
    with P(1) False show ?thesis by auto
  qed
qed

section \<open>Witnesses\<close>

definition typed_sample :: "param_world params" where
  "typed_sample = (sample_params [(''io-threads'', ''2'')] [])\<lparr>pc_world := (pc_world (sample_params [(''io-threads'', ''2'')] []))\<lparr>pprops :=
     [(''severity'', PStr ''info''), (''file-severity'', PStr ''info''), (''verbosity'', PStr ''low''), (''color'', PBool True),
      (''log-to-file'', PStr []), (''id'', PStr ''Sink-0''), (''io-threads'', PInt 1), (''transport'', PStr ''zeromq''),
      (''network-interface'', PStr ''default''), (''init-timeout'', PInt 120), (''shm-segment-size'', PUint64 2000000000),
      (''shm-allocation'', PStr ''rbtree_best_fit''), (''shm-monitor'', PBool True), (''shm-mlock-segment'', PBool False),
      (''shm-zero-segment'', PBool False), (''shm-throw-bad-alloc'', PBool True), (''rate'', PFloat ()), (''session'', PStr ''default''),
      (''separator'', PStr '':''), (ServerUri, PStr ''tcp://localhost:6379/1'')]\<rparr>\<rparr>"

lemma typed_sample_ok:
  "well_typed sample_params_env (pc_world typed_sample)" "list_all (\<lambda>(n, T). ref_view (pc_world typed_sample) n = None) option_types"
  by (simp_all add: well_typed_def option_types_def typed_sample_def sample_params_env_def ref_view_def sample_params_def)

theorem options_stay_typed_witness:
  "well_typed sample_params_env (pc_world (snd (start_params ref_platform sample_params_env [TimedOut] typed_sample)))"
  by (rule options_stay_typed [OF ref_redis_server sample_param_store typed_sample_ok])

theorem reserved_options_accepted_witness:
  "(\<exists>e. fst (Parse sample_params_env ''color'' ''1'' typed_sample) = Inl e) \<and>
   \<not> (\<exists>e. fst (Parse sample_params_env ''io-threads'' ''2'' typed_sample) = Inl e)"
proof -
  have "''io-threads'' \<in> fst ` set option_types" "''color'' \<in> fst ` set option_types" by (simp_all add: option_types_def)
  moreover have "reserved_type ''io-threads'' = Some TInt" by code_simp
  moreover have "read_int ''2'' = Some 2" by code_simp
  ultimately show ?thesis
    using reserved_options_accepted [OF typed_sample_ok(1), of "''color''" "''1''"]
      reserved_options_accepted [OF typed_sample_ok(1), of "''io-threads''" "''2''"] by (auto simp: stoll_def)
qed

end
