(* ===== verification/WebSessions.thy ===== *)
theory WebSessions
  imports WebStates Connect "HOL-Library.Word"
begin

text \<open>
  The web socket clients of the controller (\<^verbatim>\<open>controller/run_daq-webctl.cxx\<close>,
  \<^verbatim>\<open>controller/websocket_session.cxx\<close>): their ids, the table of the sessions, sending to one and to all, and the
  address of the server. A session is named by its place in the order of acceptance.
\<close>

section \<open>State\<close>

text \<open>
  \<open>ws_sessions\<close> is \<^verbatim>\<open>wsSessions\<close> with the null sessions as \<open>None\<close>; \<open>ws_ids\<close> are the ids of all sessions so far,
  \<open>ws_ended\<close> those whose reading has ended, \<open>ws_gone\<close> those whose peer is gone, so that writing to them throws.
\<close>

record web_sessions =
  ws_last :: "32 word"
  ws_sessions :: "(32 word \<times> nat option \<times> string) list"
  ws_ids :: "32 word list"
  ws_ended :: "nat list"
  ws_gone :: "nat list"
  ws_written :: "(nat \<times> string) list"

definition no_sessions :: web_sessions where
  "no_sessions = \<lparr>ws_last = 0, ws_sessions = [], ws_ids = [], ws_ended = [], ws_gone = [], ws_written = []\<rparr>"

section \<open>Sending\<close>

text \<open>\<^verbatim>\<open>wsSessions[id]\<close> makes a null session when there is none.\<close>

definition Write :: "32 word \<Rightarrow> string \<Rightarrow> (web_sessions, unit) opn" where
  "Write i message = bindM (gets (\<lambda>s. map_of (ws_sessions s) i)) (\<lambda>entry.
     case entry of
       None \<Rightarrow> modify (\<lambda>s. s\<lparr>ws_sessions := ws_sessions s @ [(i, None, [])]\<rparr>)
     | Some (session, d) \<Rightarrow>
         (case session of None \<Rightarrow> ret ()
          | Some c \<Rightarrow> bindM (gets ws_gone) (\<lambda>gone.
              if c \<in> set gone then raise (Failure ''websocket write'')
              else modify (\<lambda>s. s\<lparr>ws_written := ws_written s @ [(c, message)]\<rparr>))))"

definition send_function :: "32 word \<Rightarrow> string \<Rightarrow> (web_sessions, unit) opn" where
  "send_function connid arg = bindM (gets ws_sessions) (\<lambda>t.
     if t = [] then ret ()
     else if connid = 0 then for_each (map fst t) (\<lambda>i. Write i arg)
     else Write connid arg)"

definition id_list :: "web_sessions \<Rightarrow> (nat \<times> string) list" where
  "id_list s = map (\<lambda>(i, c, d). (unat i, d)) (ws_sessions s)"

text \<open>\<^verbatim>\<open>WebGui::SendWebSocketIdList\<close> with the send function of the program.\<close>

definition list_text :: "(nat \<times> string) list \<Rightarrow> string" where
  "list_text v = ''WebSocket Connected ID: Date<br>'' @ concat (map (\<lambda>(i, t). '' '' @ show_nat i @ '' : '' @ t @ ''<br>'') v)"

definition send_ids :: "(web_sessions, unit) opn" where
  "send_ids = bindM (gets id_list) (\<lambda>v. send_function 0 (list_text v))"

section \<open>Connections\<close>

definition OnClose :: "32 word \<Rightarrow> (web_sessions, unit) opn" where
  "OnClose i = seqM (modify (\<lambda>s. s\<lparr>ws_sessions := filter (\<lambda>(j, e). j \<noteq> i) (ws_sessions s)\<rparr>)) send_ids"

definition connect_text :: "32 word \<Rightarrow> string \<Rightarrow> string" where
  "connect_text i d = ''My WebSocket Connection ID: '' @ show_nat (unat i) @ '' (Date: '' @ d @ '')''"

text \<open>\<open>c\<close> is the session; \<^verbatim>\<open>emplace\<close> leaves an entry that is there already.\<close>

definition OnConnect :: "nat \<Rightarrow> 32 word \<Rightarrow> string \<Rightarrow> (web_sessions, unit) opn" where
  "OnConnect c i d =
     seqM (modify (\<lambda>s. if i \<in> fst ` set (ws_sessions s) then s else s\<lparr>ws_sessions := ws_sessions s @ [(i, Some c, d)]\<rparr>))
    (bindM (gets id_list) (\<lambda>v.
     seqM (send_function i (connect_text i d)) (send_function 0 (list_text v))))"

definition on_accept :: "string \<Rightarrow> (web_sessions, unit) opn" where
  "on_accept d =
     seqM (modify (\<lambda>s. s\<lparr>ws_last := ws_last s + 1, ws_ids := ws_ids s @ [ws_last s + 1]\<rparr>))
    (bindM (gets (\<lambda>s. (length (ws_ids s) - 1, ws_last s))) (\<lambda>(c, i). OnConnect c i d))"

definition on_closed :: "nat \<Rightarrow> (web_sessions, unit) opn" where
  "on_closed c =
     seqM (modify (\<lambda>s. s\<lparr>ws_ended := c # ws_ended s\<rparr>))
    (bindM (gets (\<lambda>s. ws_ids s ! c)) OnClose)"

text \<open>
  What happens to the table, in any order: a client is accepted (with the date), the reading of a session ends, the
  controller sends something, a peer vanishes. What an exception leaves behind is a state too.
\<close>

datatype ws_event = Accepted string | Closed nat | SendTo "32 word" string | Vanished nat

definition can_happen :: "web_sessions \<Rightarrow> ws_event \<Rightarrow> bool" where
  "can_happen s e = (case e of Closed c \<Rightarrow> c < length (ws_ids s) \<and> c \<notin> set (ws_ended s) | _ \<Rightarrow> True)"

definition ws_handle :: "ws_event \<Rightarrow> (web_sessions, unit) opn" where
  "ws_handle e = (case e of Accepted d \<Rightarrow> on_accept d | Closed c \<Rightarrow> on_closed c | SendTo i m \<Rightarrow> send_function i m
     | Vanished c \<Rightarrow> modify (\<lambda>s. s\<lparr>ws_gone := c # ws_gone s\<rparr>))"

inductive ws_steps :: "web_sessions \<Rightarrow> web_sessions \<Rightarrow> bool" for s where
  ws_refl: "ws_steps s s"
| ws_step: "ws_steps s t \<Longrightarrow> can_happen t e \<Longrightarrow> ws_steps s (snd (ws_handle e t))"

abbreviation ws_reachable :: "web_sessions \<Rightarrow> bool" where
  "ws_reachable s \<equiv> ws_steps no_sessions s"

section \<open>The address of the server\<close>

definition http_uri_items :: "re_item list" where
  "http_uri_items = [Group (\<lambda>c. c \<notin> set '':/?#'')] @ map Lit ''://'' @ [Group (\<lambda>c. c \<notin> set ''/?#'')] @ [Lit (CHR '':''), d_plus]"

definition ParseHttpUri :: "string \<Rightarrow> string \<times> string \<times> string" where
  "ParseHttpUri uri = (case regex_match http_uri_items uri of Some [scheme, address, port] \<Rightarrow> (scheme, address, port) | _ \<Rightarrow> ([], [], []))"

text \<open>
  The number of further threads and the endpoint of the server: \<open>reserve(n - 1)\<close> throws for no threads, the
  port is an \<^verbatim>\<open>unsigned short\<close>. \<open>make_address\<close> is the one of Boost.Asio.
\<close>

definition start_server :: "(string \<Rightarrow> 'a res) \<Rightarrow> int \<Rightarrow> string \<Rightarrow> ('a \<times> 16 word \<times> nat) res" where
  "start_server make_address nThreads uri =
     (if nThreads < 1 then Inl (Failure ''vector::reserve'')
      else case ParseHttpUri uri of (scheme, address, port) \<Rightarrow>
        bindR (make_address address) (\<lambda>a. bindR (stoi port) (\<lambda>p. Inr (a, word_of_int p, nat (nThreads - 1)))))"

section \<open>Ids and sessions\<close>

lemma send_text: "SendWebSocketIdList v g = (Inr (), g\<lparr>gw_sent := gw_sent g @ [(0, list_text v)]\<rparr>)"
  by (simp add: SendWebSocketIdList_def Send_def list_text_def op_simps)

text \<open>
  What holds at any time: the ids count the sessions, modulo \<open>2^32\<close>; an id is in the table once; a session in the
  table is there under its own id.
\<close>

definition entry_ok :: "32 word list \<Rightarrow> 32 word \<times> nat option \<times> string \<Rightarrow> bool" where
  "entry_ok known e = (case fst (snd e) of None \<Rightarrow> True | Some c \<Rightarrow> c < length known \<and> known ! c = fst e)"

definition table_ok :: "web_sessions \<Rightarrow> bool" where
  "table_ok s \<longleftrightarrow> distinct (map fst (ws_sessions s)) \<and>
list_all (entry_ok (ws_ids s)) (ws_sessions s)"

definition ids_ok :: "web_sessions \<Rightarrow> bool" where
  "ids_ok s \<longleftrightarrow> ws_last s = of_nat (length (ws_ids s)) \<and> ws_ids s = map (\<lambda>c. of_nat (Suc c)) [0..<length (ws_ids s)]"

lemma entry_ok_simps [simp]: "entry_ok known (i, None, d)" "entry_ok known (i, Some c, d) \<longleftrightarrow> c < length known \<and> known ! c = i"
  by (simp_all add: entry_ok_def)

lemma entry_ok_more: "entry_ok known e \<Longrightarrow> entry_ok (known @ new) e"
  by (auto simp: entry_ok_def nth_append split: option.splits)

lemma keeps_Write:
  "keeps (\<lambda>s. table_ok s \<and> ids_ok s) (Write i message)"
proof -
  have "keeps (\<lambda>s. table_ok s \<and> ids_ok s) (modify (\<lambda>s. s\<lparr>ws_written := ws_written s @ [(c, message)]\<rparr>))" for c
    by (rule keeps_modify) (simp add: table_ok_def ids_ok_def)
  then show ?thesis
    unfolding keeps_def
    by (auto simp: Write_def op_simps raise_def table_ok_def ids_ok_def map_of_eq_None_iff split: option.split prod.split)
qed

lemma keeps_send: "keeps (\<lambda>s. table_ok s \<and> ids_ok s) (send_function i message)"
  unfolding send_function_def
  by (rule keeps_bindM [OF keeps_gets]) (simp add: keeps_ret keeps_for_each keeps_Write)

lemma keeps_send_ids: "keeps (\<lambda>s. table_ok s \<and> ids_ok s) send_ids"
  unfolding send_ids_def by (intro keeps_bindM keeps_gets keeps_send)

lemma keeps_close: "keeps (\<lambda>s. table_ok s \<and> ids_ok s) (on_closed c)"
  unfolding on_closed_def OnClose_def
  by (intro keeps_bindM keeps_seqM keeps_gets keeps_send_ids keeps_modify)
     (auto simp: table_ok_def ids_ok_def list_all_iff distinct_map_filter)

lemma on_accept_ok:
  assumes "table_ok s" and "ids_ok s"
  shows "table_ok (snd (on_accept d s)) \<and> ids_ok (snd (on_accept d s))"
proof -
  let ?i = "ws_last s + 1" and ?c = "length (ws_ids s)"
  let ?s = "s\<lparr>ws_last := ?i, ws_ids := ws_ids s @ [?i]\<rparr>"
  let ?t = "if ?i \<in> fst ` set (ws_sessions s) then ?s else ?s\<lparr>ws_sessions := ws_sessions s @ [(?i, Some ?c, d)]\<rparr>"
  have "list_all (entry_ok (ws_ids s @ [?i])) (ws_sessions s)"
    using assms(1) by (auto simp: table_ok_def list_all_iff intro: entry_ok_more)
  moreover have "ws_ids s @ [?i] = map (\<lambda>c. of_nat (Suc c)) [0..<Suc ?c]" "?i = of_nat (Suc ?c)"
    using assms(2) by (simp_all add: ids_ok_def)
  ultimately have start: "table_ok ?t \<and> ids_ok ?t"
    using assms(1) by (simp add: table_ok_def ids_ok_def del: upt_Suc of_nat_Suc)
  let ?rest = "seqM (send_function ?i (connect_text ?i d)) (send_function 0 (list_text (id_list ?t)))"
  have "keeps (\<lambda>s. table_ok s \<and> ids_ok s) ?rest" by (intro keeps_seqM keeps_send)
  from keepsD [OF this, of ?t] start have "table_ok (snd (?rest ?t)) \<and> ids_ok (snd (?rest ?t))" by blast
  moreover have "on_accept d s = ?rest ?t" by (simp add: on_accept_def OnConnect_def op_simps)
  ultimately show ?thesis by simp
qed

lemma reachable_ok: "ws_reachable s \<Longrightarrow> table_ok s \<and> ids_ok s"
proof (induction rule: ws_steps.induct)
  case ws_refl
  then show ?case by (simp add: table_ok_def ids_ok_def no_sessions_def)
next
  case (ws_step t e)
  show ?case
  proof (cases e)
    case (Vanished c)
    with ws_step show ?thesis by (simp add: ws_handle_def op_simps table_ok_def ids_ok_def)
  qed (use ws_step on_accept_ok keepsD [OF keeps_close] keepsD [OF keeps_send] in \<open>auto simp: ws_handle_def\<close>)
qed

text \<open>
  The ids. The \<open>c\<close>-th session gets the id \<open>c + 1\<close>, modulo \<open>2^32\<close>: up to \<open>2^32 - 1\<close> sessions all ids differ and
  none of them is 0, the id that stands for all clients; the next session gets just that.
\<close>

theorem session_ids:
  assumes "ws_reachable s"
  shows "(\<forall>c < length (ws_ids s). unat (ws_ids s ! c) = Suc c mod 2 ^ 32) \<and>
     (length (ws_ids s) < 2 ^ 32 \<longrightarrow> distinct (ws_ids s) \<and> 0 \<notin> set (ws_ids s)) \<and>
     (2 ^ 32 \<le> length (ws_ids s) \<longrightarrow> 0 \<in> set (ws_ids s))"
proof -
  define n where "n = length (ws_ids s)"
  have ids: "ws_ids s = map (\<lambda>c. of_nat (Suc c)) [0..<n]"
    using reachable_ok [OF assms] by (simp add: ids_ok_def n_def)
  have unat: "unat (of_nat (Suc c) :: 32 word) = Suc c mod 2 ^ 32" for c by (simp only: unat_of_nat) simp
  then have each: "unat (ws_ids s ! c) = Suc c mod 2 ^ 32" if "c < n" for c using that by (simp only: ids nth_map) simp
  have small: "distinct (ws_ids s) \<and> 0 \<notin> set (ws_ids s)" if "n < 2 ^ 32"
  proof -
    have eq: "unat (of_nat (Suc c) :: 32 word) = Suc c" if "c < n" for c
      using that \<open>n < 2 ^ 32\<close> by (simp only: unat) simp
    have "inj_on (\<lambda>c. of_nat (Suc c) :: 32 word) {0..<n}"
      using eq by (intro inj_onI) (metis atLeastLessThan_iff nat.inject)
    moreover have "of_nat (Suc c) \<noteq> (0 :: 32 word)" if "c < n" for c
      using eq [OF that] by (metis nat.distinct(1) unat_0)
    ultimately show ?thesis by (auto simp: ids distinct_map)
  qed
  have large: "0 \<in> set (ws_ids s)" if "2 ^ 32 \<le> n"
  proof -
    have "(of_nat (Suc (2 ^ 32 - 1)) :: 32 word) = 0" by (simp only: unat_eq_zero [symmetric] unat) simp
    with that show ?thesis by (auto simp: ids image_iff intro!: bexI [of _ "2 ^ 32 - 1"])
  qed
  show ?thesis using each small large unfolding n_def [symmetric] by blast
qed

section \<open>Who gets what\<close>

lemma id_number:
  assumes "ids_ok s" and "length (ws_ids s) < 2 ^ 32" and "c < length (ws_ids s)"
  shows "unat (ws_ids s ! c) = Suc c"
proof -
  have "ws_ids s ! c = of_nat (Suc c)"
    using assms(3) arg_cong [OF assms(1) [unfolded ids_ok_def, THEN conjunct2], of "\<lambda>l. l ! c"] by simp
  moreover have "unat (of_nat (Suc c) :: 32 word) = Suc c mod 2 ^ 32" by (simp only: unat_of_nat) simp
  ultimately show ?thesis using assms(2,3) by simp
qed

text \<open>The sessions that are in the table, in its order.\<close>

definition listed :: "web_sessions \<Rightarrow> nat list" where
  "listed s = concat (map (\<lambda>(i, c, d). case c of None \<Rightarrow> [] | Some c \<Rightarrow> [c]) (ws_sessions s))"

text \<open>
  C34. A message for one client reaches this client or nobody. As long as the ids have not wrapped around, what
  is sent to an id other than 0 is written, if at all, to the session with this id, once.
\<close>

theorem reply_reaches_its_client:
  assumes "ws_reachable s" and "length (ws_ids s) < 2 ^ 32" and "i \<noteq> 0"
  shows "(ws_written (snd (send_function i m s)) = ws_written s) \<or>
    (\<exists>c < length (ws_ids s). ws_ids s ! c = i \<and> unat i = Suc c \<and> ws_written (snd (send_function i m s)) = ws_written s @ [(c, m)])"
proof -
  have ok: "table_ok s" "ids_ok s" using reachable_ok [OF assms(1)] by auto
  note num = id_number [OF ok(2) assms(2)]
  show ?thesis
  proof (cases "map_of (ws_sessions s) i")
    case None
    with assms(3) show ?thesis by (simp add: send_function_def Write_def op_simps)
  next
    case (Some e)
    obtain k d where e: "e = (k, d)" by fastforce
    have "entry_ok (ws_ids s) (i, k, d)"
      using ok(1) map_of_SomeD [OF Some] by (auto simp: e table_ok_def list_all_iff)
    then show ?thesis
      using assms(3) Some e num by (cases k) (auto simp: send_function_def Write_def op_simps raise_def)
  qed
qed

lemma Write_listed:
  assumes "distinct (map fst (ws_sessions s))" and "(i, k, d) \<in> set (ws_sessions s)"
  shows "Write i m s = (case k of None \<Rightarrow> (Inr (), s)
     | Some c \<Rightarrow> if c \<in> set (ws_gone s) then (Inl (Failure ''websocket write''), s) else (Inr (), s\<lparr>ws_written := ws_written s @ [(c, m)]\<rparr>))"
proof -
  have "map_of (ws_sessions s) i = Some (k, d)" using assms by simp
  then show ?thesis by (simp add: Write_def op_simps raise_def split: option.split)
qed

lemma broadcast:
  assumes "distinct (map fst (ws_sessions s))" and "set t \<subseteq> set (ws_sessions s)"
  shows "let cs = concat (map (\<lambda>(i, c, d). case c of None \<Rightarrow> [] | Some c \<Rightarrow> [c]) t); live = takeWhile (\<lambda>c. c \<notin> set (ws_gone s)) cs
    in for_each (map fst t) (\<lambda>i. Write i m) s =
       (if live = cs then Inr () else Inl (Failure ''websocket write''), s\<lparr>ws_written := ws_written s @ map (\<lambda>c. (c, m)) live\<rparr>)"
  using assms
proof (induction t arbitrary: s)
  case (Cons e t)
  obtain i k d where e: "e = (i, k, d)" by (cases e) auto
  from Cons.prems have mem: "(i, k, d) \<in> set (ws_sessions s)" by (simp add: e)
  note one = Write_listed [OF Cons.prems(1) mem, of m]
  show ?case
  proof (cases k)
    case None
    then show ?thesis using Cons by (simp add: e seqM_def bindM_def one Let_def)
  next
    case (Some c)
    show ?thesis
    proof (cases "c \<in> set (ws_gone s)")
      case True
      then show ?thesis by (simp add: e Some seqM_def bindM_def one Let_def)
    next
      case False
      then show ?thesis
        using Cons.IH [of "s\<lparr>ws_written := ws_written s @ [(c, m)]\<rparr>"] Cons.prems
        by (simp add: e Some seqM_def bindM_def one Let_def)
    qed
  qed
qed (simp add: op_simps)

text \<open>
  A message for all is written to the sessions of the table, to each once, in the order of the table, up to the
  first whose peer is gone: there writing throws, and the clients after it get nothing.
\<close>

theorem broadcast_reaches:
  assumes "ws_reachable s"
  shows "let live = takeWhile (\<lambda>c. c \<notin> set (ws_gone s)) (listed s)
    in distinct (listed s) \<and>
       send_function 0 m s = (if live = listed s then Inr () else Inl (Failure ''websocket write''),
         s\<lparr>ws_written := ws_written s @ map (\<lambda>c. (c, m)) live\<rparr>)"
proof -
  have ok: "table_ok s" using reachable_ok [OF assms] by auto
  have dist: "distinct (concat (map (\<lambda>(i, c, d). case c of None \<Rightarrow> [] | Some c \<Rightarrow> [c]) t))"
    if "distinct (map fst t)" "list_all (entry_ok known) t" for t known
    using that
  proof (induction t)
    case (Cons e t)
    obtain i k d where e: "e = (i, k, d)" by (cases e) auto
    have "c \<notin> set (concat (map (\<lambda>(i, c, d). case c of None \<Rightarrow> [] | Some c \<Rightarrow> [c]) t))" if "k = Some c" for c
    proof
      assume "c \<in> set (concat (map (\<lambda>(i, c, d). case c of None \<Rightarrow> [] | Some c \<Rightarrow> [c]) t))"
      then obtain j d' where j: "(j, Some c, d') \<in> set t" by (auto split: option.splits)
      with Cons.prems(2) have "known ! c = j" by (auto simp: list_all_iff)
      moreover have "known ! c = i" using Cons.prems(2) that by (simp add: e)
      ultimately show False using Cons.prems(1) j by (force simp: e)
    qed
    with Cons show ?case by (cases k) (simp_all add: e)
  qed simp
  have "distinct (listed s)" using ok unfolding listed_def table_ok_def by (elim conjE) (rule dist)
  moreover have "distinct (map fst (ws_sessions s))" using ok by (simp add: table_ok_def)
  note broadcast [OF this order_refl, of m]
  ultimately show ?thesis
    by (cases "ws_sessions s") (simp_all add: send_function_def op_simps listed_def Let_def)
qed

section \<open>Replies that come too late\<close>

lemma ws_steps_trans: "ws_steps t u \<Longrightarrow> ws_steps s t \<Longrightarrow> ws_steps s u"
  by (induction rule: ws_steps.induct) (auto intro: ws_steps.intros)

text \<open>Writing never takes an entry out, and adds none for an id that is there.\<close>

definition grown :: "web_sessions \<Rightarrow> web_sessions \<Rightarrow> bool" where
  "grown s t \<longleftrightarrow> (\<exists>new. ws_sessions t = ws_sessions s @ new) \<and> ws_ids t = ws_ids s \<and> ws_ended t = ws_ended s"

lemma grown_refl [simp]: "grown s s"
  by (simp add: grown_def)

lemma grown_trans: "grown s t \<Longrightarrow> grown t u \<Longrightarrow> grown s u"
  by (auto simp: grown_def)

lemma grown_Write: "grown s (snd (Write i m s))"
  by (auto simp: grown_def Write_def op_simps raise_def split: option.split prod.split)

lemma grown_for_each: "(\<And>x s. grown s (snd (body x s))) \<Longrightarrow> grown s (snd (for_each xs body s))"
proof (induction xs arbitrary: s)
  case (Cons x xs)
  obtain r t where t: "body x s = (r, t)" by fastforce
  with Cons.prems [of s x] have "grown s t" by simp
  with Cons t show ?case by (cases r) (auto simp: seqM_def bindM_def intro: grown_trans)
qed (simp add: op_simps)

lemma grown_seqM: "grown s (snd (m s)) \<Longrightarrow> (\<And>t. grown t (snd (n t))) \<Longrightarrow> grown s (snd (seqM m n s))"
  by (auto simp: seqM_def bindM_def intro: grown_trans split: prod.splits sum.splits)

lemma grown_send: "grown s (snd (send_function i m s))"
  by (simp add: send_function_def op_simps grown_Write grown_for_each)

lemma send_all_same: "ws_sessions (snd (for_each is (\<lambda>i. Write i m) s)) = ws_sessions s" if "set is \<subseteq> fst ` set (ws_sessions s)"
  using that
proof (induction "is" arbitrary: s)
  case (Cons i "is")
  obtain r t where t: "Write i m s = (r, t)" by fastforce
  from Cons.prems obtain e where "map_of (ws_sessions s) i = Some e" by (auto dest: weak_map_of_SomeI)
  with t have "ws_sessions t = ws_sessions s"
    by (auto simp: Write_def op_simps raise_def split: option.splits prod.splits if_splits)
  with Cons t show ?case by (cases r) (auto simp: seqM_def bindM_def)
qed (simp add: op_simps)

lemma send_zero_same: "ws_sessions (snd (send_function 0 m s)) = ws_sessions s"
  by (simp add: send_function_def op_simps send_all_same)

lemma closed_sessions: "ws_sessions (snd (on_closed c s)) = filter (\<lambda>(j, e). j \<noteq> ws_ids s ! c) (ws_sessions s)"
  by (simp add: on_closed_def OnClose_def send_ids_def op_simps send_zero_same)

lemma closed_frame: "ws_ids (snd (on_closed c s)) = ws_ids s" "ws_ended (snd (on_closed c s)) = c # ws_ended s"
  using grown_send [of "s\<lparr>ws_ended := c # ws_ended s, ws_sessions := filter (\<lambda>(j, e). j \<noteq> ws_ids s ! c) (ws_sessions s)\<rparr>" 0]
  by (auto simp: on_closed_def OnClose_def send_ids_def op_simps grown_def)

lemma accept_frame:
  "\<exists>new. ws_sessions (snd (on_accept d s)) = ws_sessions s @ new"
  "ws_ids (snd (on_accept d s)) = ws_ids s @ [ws_last s + 1]" "ws_ended (snd (on_accept d s)) = ws_ended s"
proof -
  let ?i = "ws_last s + 1" and ?s = "s\<lparr>ws_last := ws_last s + 1, ws_ids := ws_ids s @ [ws_last s + 1]\<rparr>"
  let ?t = "if ?i \<in> fst ` set (ws_sessions s) then ?s else ?s\<lparr>ws_sessions := ws_sessions s @ [(?i, Some (length (ws_ids s)), d)]\<rparr>"
  have "on_accept d s = seqM (send_function ?i (connect_text ?i d)) (send_function 0 (list_text (id_list ?t))) ?t"
    by (simp add: on_accept_def OnConnect_def op_simps)
  then have "grown ?t (snd (on_accept d s))"
    by (simp only:) (intro grown_seqM grown_send)
  then show "\<exists>new. ws_sessions (snd (on_accept d s)) = ws_sessions s @ new"
    "ws_ids (snd (on_accept d s)) = ws_ids s @ [ws_last s + 1]" "ws_ended (snd (on_accept d s)) = ws_ended s"
    by (auto simp: grown_def split: if_splits)
qed

lemma ids_differ:
  assumes "ids_ok s" and "length (ws_ids s) < 2 ^ 32" and "c < length (ws_ids s)" and "e < length (ws_ids s)" and "ws_ids s ! c = ws_ids s ! e"
  shows "c = e"
  using id_number [OF assms(1,2,3)] id_number [OF assms(1,2,4)] assms(5) by (metis nat.inject)

lemma dead_entry_step:
  assumes "ids_ok s" and "length (ws_ids (snd (ws_handle e s))) < 2 ^ 32" and "can_happen s e"
    and "c < length (ws_ids s)" and "c \<in> set (ws_ended s)" and "(ws_ids s ! c, None, []) \<in> set (ws_sessions s)"
  shows "(ws_ids s ! c, None, []) \<in> set (ws_sessions (snd (ws_handle e s))) \<and> c \<in> set (ws_ended (snd (ws_handle e s))) \<and>
    (\<exists>new. ws_ids (snd (ws_handle e s)) = ws_ids s @ new)"
proof (cases e)
  case (Accepted d)
  with accept_frame [of d s] assms(5,6) show ?thesis by (auto simp: ws_handle_def)
next
  case (Closed k)
  then have k: "k < length (ws_ids s)" "k \<noteq> c" using assms(3,5) by (auto simp: can_happen_def)
  have "length (ws_ids s) < 2 ^ 32" using assms(2) Closed by (simp add: ws_handle_def closed_frame)
  then have "ws_ids s ! k \<noteq> ws_ids s ! c" using ids_differ [OF assms(1) _ k(1) assms(4)] k(2) by blast
  with Closed assms(5,6) show ?thesis by (auto simp: ws_handle_def closed_sessions closed_frame)
next
  case (SendTo i m)
  with grown_send [of s i m] assms(5,6) show ?thesis by (auto simp: ws_handle_def grown_def)
next
  case (Vanished k)
  with assms(5,6) show ?thesis by (simp add: ws_handle_def op_simps)
qed

lemma step_frame: "\<exists>new. ws_ids (snd (ws_handle e s)) = ws_ids s @ new"
  using accept_frame(2) grown_send by (cases e) (auto simp: ws_handle_def closed_frame grown_def op_simps)

lemma ids_grow: "ws_steps s t \<Longrightarrow> length (ws_ids s) \<le> length (ws_ids t)"
proof (induction rule: ws_steps.induct)
  case (ws_step t e)
  obtain new where "ws_ids (snd (ws_handle e t)) = ws_ids t @ new" using step_frame by blast
  with ws_step.IH show ?case by simp
qed simp

lemma ids_ok_run: "ws_steps s t \<Longrightarrow> ws_reachable s \<Longrightarrow> table_ok t \<and> ids_ok t"
  using ws_steps_trans reachable_ok by blast

lemma dead_entry_stays:
  assumes "ws_steps s u" and "ws_reachable s" and "length (ws_ids u) < 2 ^ 32"
    and "c < length (ws_ids s)" and "c \<in> set (ws_ended s)" and "(ws_ids s ! c, None, []) \<in> set (ws_sessions s)"
  shows "(ws_ids s ! c, None, []) \<in> set (ws_sessions u) \<and> c \<in> set (ws_ended u) \<and> (\<exists>new. ws_ids u = ws_ids s @ new)"
  using assms(1,3)
proof (induction rule: ws_steps.induct)
  case (ws_step t e)
  obtain new where "ws_ids (snd (ws_handle e t)) = ws_ids t @ new" using step_frame by blast
  with ws_step have t: "(ws_ids s ! c, None, []) \<in> set (ws_sessions t)" "c \<in> set (ws_ended t)" "\<exists>new. ws_ids t = ws_ids s @ new"
    by auto
  then have at: "ws_ids t ! c = ws_ids s ! c" "c < length (ws_ids t)" using assms(4) by (auto simp: nth_append)
  have "ids_ok t" using ids_ok_run [OF ws_step.hyps(1) assms(2)] ..
  from dead_entry_step [OF this ws_step.prems ws_step.hyps(2) at(2) t(2)] t at(1) show ?case by auto
qed (use assms in simp)

text \<open>
  A reply that comes after its client has left. It makes a new entry for the id, without a session and without a
  date; nothing ever takes it out again, so this client is listed to all others as connected, for ever.
\<close>

theorem late_reply_stays_listed:
  assumes "ws_reachable s" and "can_happen s (Closed c)" and "ws_sessions (snd (ws_handle (Closed c) s)) \<noteq> []"
    and "ws_steps (snd (send_function (ws_ids s ! c) m (snd (ws_handle (Closed c) s)))) u" and "length (ws_ids u) < 2 ^ 32"
  shows "(Suc c, []) \<in> set (id_list u)"
proof -
  let ?i = "ws_ids s ! c" and ?t = "snd (ws_handle (Closed c) s)"
  let ?v = "snd (send_function ?i m ?t)"
  have "ws_reachable ?t" using ws_step [OF assms(1,2)] .
  from ws_step [OF this, of "SendTo ?i m"] have reach: "ws_reachable ?v" by (simp add: can_happen_def ws_handle_def)
  have c: "c < length (ws_ids s)" using assms(2) by (simp add: can_happen_def)
  have frame: "ws_ids ?v = ws_ids s" "ws_ended ?v = c # ws_ended s"
    using grown_send [of ?t ?i m] by (simp_all add: ws_handle_def closed_frame grown_def)
  have "length (ws_ids s) \<le> length (ws_ids u)"
    using ids_grow [OF assms(4)] frame(1) by simp
  with id_number [of s c] reachable_ok [OF assms(1)] assms(5) c have id: "unat ?i = Suc c" by simp
  then have "?i \<noteq> 0" by auto
  moreover have "map_of (ws_sessions ?t) ?i = None"
    by (auto simp: ws_handle_def closed_sessions map_of_eq_None_iff)
  ultimately have "(?i, None, []) \<in> set (ws_sessions ?v)"
    using assms(3) by (simp add: send_function_def op_simps Write_def)
  with dead_entry_stays [OF assms(4) reach assms(5), of c] c frame have "(?i, None, []) \<in> set (ws_sessions u)" by simp
  with id show ?thesis by (force simp: id_list_def)
qed

section \<open>The endpoint of the server\<close>

lemma regex_address:
  assumes "a \<noteq> []" and "list_all (\<lambda>c. c \<notin> set ''/?#'') a" and "p \<noteq> []" and "list_all is_digit p"
  shows "regex_match [Group (\<lambda>c. c \<notin> set ''/?#''), Lit (CHR '':''), d_plus] (a @ '':'' @ p) = Some [a, p]"
proof -
  let ?P = "\<lambda>c. c \<notin> set ''/?#''" and ?R = "regex_match [Lit (CHR '':''), d_plus]" and ?s = "a @ '':'' @ p"
  have digit: "is_digit c \<Longrightarrow> ?P c \<and> c \<noteq> CHR '':''" for c by (auto simp: is_digit_def)
  have "list_all ?P ?s" using assms(2,4) digit by (auto simp: list_all_iff)
  then have run: "takeWhile ?P ?s = ?s" by (simp add: list_all_iff)
  have here: "?R (drop (length a) ?s) = Some [p]" "take (length a) ?s = a"
    using regex_last [OF assms(3,4)] by simp_all
  have after: "?R (drop k ?s) = None" if "length a < k" for k
  proof -
    have "drop k ?s = drop (k - Suc (length a)) p" using that by (simp add: Suc_diff_le drop_Cons')
    moreover have "CHR '':'' \<notin> set (drop (k - Suc (length a)) p)" using assms(4) digit by (auto simp: list_all_iff dest: in_set_dropD)
    ultimately show ?thesis by (cases "drop k ?s") auto
  qed
  have "List.find (\<lambda>k. ?R (drop k ?s) \<noteq> None) (rev [1..<Suc (length ?s)]) = Some (length a)"
  proof (rule find_largest)
    show "?R (drop (length a) ?s) \<noteq> None" by (simp only: here) simp
    show "\<not> ?R (drop k ?s) \<noteq> None" if "length a < k" for k using after [OF that] by simp
  qed (use assms(1) in \<open>simp_all add: Suc_le_eq\<close>)
  then show ?thesis by (subst regex_match.simps) (simp only: re_item.case run option.case here option.map)
qed

lemma http_uri_parsed:
  assumes "scheme \<noteq> []" and "list_all (\<lambda>c. c \<notin> set '':/?#'') scheme" and "a \<noteq> []" and "list_all (\<lambda>c. c \<notin> set ''/?#'') a"
    and "p \<noteq> []" and "list_all is_digit p"
  shows "ParseHttpUri (scheme @ ''://'' @ a @ '':'' @ p) = (scheme, a, p)"
proof -
  let ?r = "[Lit (CHR ''/''), Lit (CHR ''/''), Group (\<lambda>c. c \<notin> set ''/?#''), Lit (CHR '':''), d_plus]"
  have "regex_match ?r (''//'' @ a @ '':'' @ p) = Some [a, p]"
    using regex_address [OF assms(3-6)] by (simp del: regex_match.simps(2) add: regex_match.simps(2) [of "Lit c" for c])
  moreover have "http_uri_items = Group (\<lambda>c. c \<notin> set '':/?#'') # Lit (CHR '':'') # ?r" by (simp add: http_uri_items_def)
  moreover have "scheme @ ''://'' @ a @ '':'' @ p = scheme @ CHR '':'' # ''//'' @ a @ '':'' @ p" by simp
  ultimately show ?thesis
    using regex_group [OF assms(1,2), of "CHR '':''" ?r "''//'' @ a @ '':'' @ p"] by (simp only: ParseHttpUri_def) simp
qed

text \<open>
  The endpoint of the server. A URI is taken apart into scheme, address (which may have colons of its own) and
  port, whatever they are; but the port is cut to 16 bits without a complaint, so the server listens where it was told
  to exactly if the port fits.
\<close>

theorem server_endpoint:
  assumes "scheme \<noteq> []" and "list_all (\<lambda>c. c \<notin> set '':/?#'') scheme" and "a \<noteq> []" and "list_all (\<lambda>c. c \<notin> set ''/?#'') a"
    and "port < 2 ^ 31" and "make_address a = Inr addr" and "1 \<le> nThreads"
  shows "\<exists>p. start_server make_address nThreads (scheme @ ''://'' @ a @ '':'' @ show_nat port) = Inr (addr, p, nat (nThreads - 1)) \<and>
    uint p = int port mod 65536 \<and> (uint p = int port \<longleftrightarrow> port < 65536)"
proof -
  have "list_all is_digit (show_nat port)" using show_nat_digits by (simp add: list_all_iff)
  note parsed = http_uri_parsed [OF assms(1-4) show_nat_nonempty this]
  have "stoi (show_nat port) = Inr (int port)"
    using assms(5) stoi_show_int [of "int port"] by (simp add: int32_def show_int_def)
  then have "start_server make_address nThreads (scheme @ ''://'' @ a @ '':'' @ show_nat port) =
      Inr (addr, word_of_int (int port), nat (nThreads - 1))"
    using assms(6,7) by (simp only: start_server_def parsed) simp
  moreover have "uint (word_of_int (int port) :: 16 word) = int port mod 65536" by (simp only: uint_word_of_int) simp
  ultimately show ?thesis by (intro exI [of _ "word_of_int (int port)"]) auto
qed

section \<open>Witnesses\<close>

definition two_clients :: web_sessions where
  "two_clients = snd (ws_handle (Accepted ''today'') (snd (ws_handle (Accepted ''today'') no_sessions)))"

lemma two_reachable: "ws_reachable two_clients"
  unfolding two_clients_def by (intro ws_step ws_refl) (simp_all add: can_happen_def)

lemma two_fields:
  "ws_ids two_clients = [1, 2]" "ws_sessions two_clients = [(1, Some 0, ''today''), (2, Some 1, ''today'')]"
  "ws_ended two_clients = []" "ws_gone two_clients = []"
  by (simp_all add: two_clients_def ws_handle_def on_accept_def OnConnect_def no_sessions_def op_simps seqM_def bindM_def
      send_function_def Write_def)

theorem session_ids_witness: "unat (ws_ids two_clients ! 1) = 2 \<and> distinct (ws_ids two_clients)"
  using session_ids [OF two_reachable] by (simp add: two_fields)

theorem reply_reaches_its_client_witness:
  "ws_written (snd (send_function 1 ''hi'' two_clients)) \<in> {ws_written two_clients, ws_written two_clients @ [(0, ''hi'')]}"
  using reply_reaches_its_client [OF two_reachable, of 1 "''hi''"] by (auto simp: two_fields)

theorem broadcast_reaches_witness:
  "send_function 0 ''hi'' two_clients =
     (Inr (), two_clients\<lparr>ws_written := ws_written two_clients @ [(0, ''hi''), (1, ''hi'')]\<rparr>)"
  using broadcast_reaches [OF two_reachable, of "''hi''"] by (simp add: Let_def listed_def two_fields)

theorem late_reply_stays_listed_witness:
  "(1, []) \<in> set (id_list (snd (send_function 1 ''late'' (snd (ws_handle (Closed 0) two_clients)))))"
proof -
  let ?u = "snd (send_function (ws_ids two_clients ! 0) ''late'' (snd (ws_handle (Closed 0) two_clients)))"
  have can: "can_happen two_clients (Closed 0)" by (simp add: can_happen_def two_fields)
  have others: "ws_sessions (snd (ws_handle (Closed 0) two_clients)) \<noteq> []"
    by (simp add: ws_handle_def closed_sessions two_fields)
  have "length (ws_ids ?u) < 2 ^ 32"
    using grown_send [of "snd (ws_handle (Closed 0) two_clients)" "ws_ids two_clients ! 0" "''late''"]
    by (simp add: grown_def ws_handle_def closed_frame two_fields)
  from late_reply_stays_listed [OF two_reachable can others ws_refl this]
  show ?thesis by (simp add: two_fields)
qed

theorem server_endpoint_witness:
  "\<exists>p. start_server Inr 1 ''http://0.0.0.0:65616'' = Inr (''0.0.0.0'', p, 0) \<and> uint p = 80"
proof -
  have "show_nat 65616 = ''65616''" by (simp add: show_nat.simps digit_def char_of_def bit_0)
  with server_endpoint [of "''http''" "''0.0.0.0''" 65616 Inr "''0.0.0.0''" 1] show ?thesis by auto
qed

end
