(* ===== verification/ServiceSetup.thy ===== *)
theory ServiceSetup
  imports Registration Parameters
begin

text \<open>
  The constructor of the service plugin (\<^verbatim>\<open>plugins/DaqServicePlugin.cxx\<close>) and of its topology
  (\<^verbatim>\<open>plugins/TopologyConfig.cxx\<close>): the identity of the instance, its host and address, the name of its service,
  and the properties by which the other plugins learn of them.
\<close>

section \<open>The environment of the process\<close>

text \<open>
  The name by which the program was called, the tools of FairMQ for addresses, and UUIDs, read and made as texts.
  Properties that are numbers are texts in \<open>pr_get\<close>.
\<close>

record start_env =
  program_invocation_name :: string
  host_name :: string
  getHostIPs :: "string smap"
  getIpFromHostname :: "string \<Rightarrow> string"
  getDefaultRouteNetworkInterface :: string
  getInterfaceIP :: "string \<Rightarrow> string"
  read_uuid :: "string \<Rightarrow> string res"
  random_uuid :: string
  now_ns :: int
  now_date :: string

definition nil_uuid :: string where
  "nil_uuid = ''00000000-0000-0000-0000-000000000000''"

definition has_prop :: "'w platform \<Rightarrow> string \<Rightarrow> ('w plugin, bool) opn" where
  "has_prop pf k = gets (\<lambda>p. pr_get pf (pw p) k \<noteq> None)"

definition get_prop :: "'w platform \<Rightarrow> string \<Rightarrow> ('w plugin, string) opn" where
  "get_prop pf k = asks (\<lambda>p. case pr_get pf (pw p) k of None \<Rightarrow> Inl (Failure ''property not found'') | Some v \<Rightarrow> Inr v)"

definition set_prop :: "'w platform \<Rightarrow> string \<Rightarrow> string \<Rightarrow> ('w plugin, unit) opn" where
  "set_prop pf k v = on_pw (pr_set pf k v)"

section \<open>The constructor\<close>

definition SetProcessName :: "'w platform \<Rightarrow> start_env \<Rightarrow> ('w plugin, unit) opn" where
  "SetProcessName pf se =
     bindM (has_prop pf ''process-name'') (\<lambda>b. only_if (\<not> b) (set_prop pf ''process-name'' (program_invocation_name se)))"

definition setup_uuid :: "'w platform \<Rightarrow> start_env \<Rightarrow> ('w plugin, unit) opn" where
  "setup_uuid pf se =
     seqM (modify (\<lambda>p. p\<lparr>pl_uuid := nil_uuid\<rparr>))
    (seqM (bindM (has_prop pf ''uuid'') (\<lambda>b. only_if b
             (bindM (get_prop pf ''uuid'') (\<lambda>u. bindM (lift_res (read_uuid se u)) (\<lambda>v. modify (\<lambda>p. p\<lparr>pl_uuid := v\<rparr>))))))
     (bindM (gets pl_uuid) (\<lambda>u. only_if (u = nil_uuid)
        (seqM (modify (\<lambda>p. p\<lparr>pl_uuid := random_uuid se\<rparr>)) (set_prop pf ''uuid'' (random_uuid se))))))"

definition setup_keys :: "'w platform \<Rightarrow> ('w plugin, unit) opn" where
  "setup_keys pf =
     bindM (get_prop pf ''separator'') (\<lambda>sep.
     seqM (modify (\<lambda>p. p\<lparr>pl_separator := sep\<rparr>))
    (seqM (set_prop pf ''top-prefix'' TopPrefix)
    (seqM (bindM (get_prop pf ''max-ttl'') (\<lambda>t. bindM (lift_res (stoll t)) (\<lambda>ttl. modify (\<lambda>p. p\<lparr>pl_maxTtl := ttl\<rparr>))))
     (bindM (get_prop pf ''ttl-update-interval'') (\<lambda>t. bindM (lift_res (stoll t)) (\<lambda>i. modify (\<lambda>p. p\<lparr>pl_ttlUpdateInterval := i\<rparr>)))))))"

definition setup_host :: "'w platform \<Rightarrow> start_env \<Rightarrow> ('w plugin, unit) opn" where
  "setup_host pf se =
     bindM (has_prop pf ''hostname'') (\<lambda>b.
     bindM (if b then get_prop pf ''hostname'' else ret (host_name se)) (\<lambda>h.
     seqM (modify (\<lambda>p. p\<lparr>hostName := h, createdTime := now_date se\<rparr>))
    (seqM (set_prop pf ''hostname'' h)
          (set_prop pf ''created-time'' (show_int (now_ns se))))))"

definition nic_of :: "start_env \<Rightarrow> string \<Rightarrow> string option" where
  "nic_of se ip = map_option fst (List.find (\<lambda>(nic, i). i = ip) (getHostIPs se))"

definition setup_ip :: "'w platform \<Rightarrow> start_env \<Rightarrow> ('w plugin, unit) opn" where
  "setup_ip pf se =
     seqM (modify (\<lambda>p. p\<lparr>ipAddress := []\<rparr>))
    (seqM
      (bindM (has_prop pf ''host-ip'') (\<lambda>given.
       bindM (has_prop pf ''network-interface'') (\<lambda>has_nic.
         if given then
           bindM (get_prop pf ''host-ip'') (\<lambda>a.
           seqM (modify (\<lambda>p. p\<lparr>ipAddress := getIpFromHostname se a\<rparr>))
                (case nic_of se (getIpFromHostname se a) of None \<Rightarrow> ret () | Some nic \<Rightarrow> set_prop pf ''network-interface'' nic))
         else if has_nic then
           bindM (get_prop pf ''network-interface'') (\<lambda>nic.
           seqM (only_if (nic \<noteq> ''default'') (modify (\<lambda>p. p\<lparr>ipAddress := getInterfaceIP se nic\<rparr>)))
                (bindM (gets ipAddress) (\<lambda>ip. only_if (ip = [])
                   (seqM (modify (\<lambda>p. p\<lparr>ipAddress := getInterfaceIP se (getDefaultRouteNetworkInterface se)\<rparr>))
                         (set_prop pf ''network-interface'' (getDefaultRouteNetworkInterface se))))))
         else ret ())))
      (bindM (gets ipAddress) (set_prop pf ''host-ip'')))"

text \<open>The process name without its directories.\<close>

definition base_name :: "string \<Rightarrow> string" where
  "base_name s = last (split_on (\<lambda>c. c = CHR ''/'') s)"

definition setup_service :: "'w platform \<Rightarrow> start_env \<Rightarrow> ('w plugin, unit) opn" where
  "setup_service pf se =
     seqM (modify (\<lambda>p. p\<lparr>pl_serviceName := []\<rparr>))
    (seqM (bindM (has_prop pf ''service-name'') (\<lambda>b. only_if b
             (bindM (get_prop pf ''service-name'') (\<lambda>s. modify (\<lambda>p. p\<lparr>pl_serviceName := s\<rparr>)))))
    (seqM (bindM (gets pl_serviceName) (\<lambda>s. only_if (s = [])
             (seqM (modify (\<lambda>p. p\<lparr>pl_serviceName := base_name (program_invocation_name se)\<rparr>))
                   (set_prop pf ''service-name'' (base_name (program_invocation_name se))))))
     (bindM (get_prop pf ''startup-state'') (\<lambda>s. modify (\<lambda>p. p\<lparr>pl_startupState := s\<rparr>)))))"

definition setup_plugin :: "'w platform \<Rightarrow> start_env \<Rightarrow> ('w plugin, unit) opn" where
  "setup_plugin pf se = seqM (SetProcessName pf se) (seqM (setup_uuid pf se) (seqM (setup_keys pf) (seqM (setup_host pf se)
     (seqM (setup_ip pf se) (setup_service pf se)))))"

text \<open>The topology reads its fields from the properties; an exception leaves the rest as they are.\<close>

definition read_field :: "'w platform \<Rightarrow> string \<Rightarrow> (string \<Rightarrow> 'w topo \<Rightarrow> 'w topo res) \<Rightarrow> ('w topo, unit) opn" where
  "read_field pf k upd =
     bindM (asks (\<lambda>t. case pr_get pf (world t) k of None \<Rightarrow> Inl (Failure ''property not found'') | Some v \<Rightarrow> upd v t)) (\<lambda>t. modify (\<lambda>_. t))"

definition new_topology :: "'w platform \<Rightarrow> ('w topo, unit) opn" where
  "new_topology pf = try_log
    (seqM (read_field pf ''top-prefix'' (\<lambda>v t. Inr (t\<lparr>fTopPrefix := v\<rparr>)))
    (seqM (read_field pf ''service-name'' (\<lambda>v t. Inr (t\<lparr>fServiceName := v\<rparr>)))
    (seqM (read_field pf ''id'' (\<lambda>v t. Inr (t\<lparr>fId := v\<rparr>)))
    (seqM (read_field pf ''separator'' (\<lambda>v t. Inr (t\<lparr>fSeparator := v\<rparr>)))
          (read_field pf ''max-ttl'' (\<lambda>v t. bindR (stoll v) (\<lambda>i. Inr (t\<lparr>fMaxTtl := i\<rparr>))))))))"

definition connect_options :: "'w platform \<Rightarrow> ('w plugin, unit) opn" where
  "connect_options pf =
     bindM (has_prop pf ''connect-config'') (\<lambda>b. only_if b
       (bindM (get_prop pf ''connect-config'') (\<lambda>c.
        seqM (on_topology (modify (\<lambda>t. t\<lparr>fConnectConfig := c\<rparr>)))
       (bindM (get_prop pf ''max-retry-to-resolve-address'') (\<lambda>m. bindM (lift_res (stoi m)) (\<lambda>n.
          on_topology (modify (\<lambda>t. t\<lparr>fMaxRetryToResolveAddress := n\<rparr>))))))))"

definition start_plugin :: "'w platform \<Rightarrow> start_env \<Rightarrow> 'w host \<Rightarrow> ('w plugin, unit) opn" where
  "start_plugin pf se hs =
     seqM (setup_plugin pf se)
    (seqM (Register pf hs)
    (seqM (on_topology (new_topology pf))
    (seqM (modify (\<lambda>p. p\<lparr>has_topology := True, topology := (topology p)\<lparr>fHostIp := ipAddress p\<rparr>\<rparr>))
          (connect_options pf))))"

section \<open>Fields and properties agree\<close>

lemma setup_pw [simp]:
  "pw (p\<lparr>pl_uuid := u\<rparr>) = pw p" "pw (p\<lparr>pl_separator := u\<rparr>) = pw p" "pw (p\<lparr>pl_maxTtl := i\<rparr>) = pw p"
  "pw (p\<lparr>pl_ttlUpdateInterval := i\<rparr>) = pw p"
  "pw (p\<lparr>hostName := u, createdTime := d\<rparr>) = pw p" "pw (p\<lparr>ipAddress := u\<rparr>) = pw p" "pw (p\<lparr>pl_serviceName := u\<rparr>) = pw p"
  "pw (p\<lparr>pl_startupState := u\<rparr>) = pw p"
  by (simp_all add: pw_def del: pw_simps)

definition agrees :: "'w platform \<Rightarrow> string \<Rightarrow> ('w plugin \<Rightarrow> string) \<Rightarrow> 'w plugin \<Rightarrow> bool" where
  "agrees pf k F p \<longleftrightarrow> pr_get pf (pw p) k = Some (F p)"

definition top_prefix :: "'w plugin \<Rightarrow> string" where
  "top_prefix p = TopPrefix"

lemma top_prefix_same [simp]: "top_prefix p = top_prefix q \<longleftrightarrow> True"
  by (simp add: top_prefix_def)

text \<open>A field of the plugin itself, which the world is no part of.\<close>

definition own_field :: "('w plugin \<Rightarrow> string) \<Rightarrow> bool" where
  "own_field F \<longleftrightarrow> (\<forall>p w. F (with_pw w p) = F p)"

lemma own_fields [simp]: "own_field hostName" "own_field ipAddress" "own_field pl_serviceName" "own_field pl_separator" "own_field top_prefix"
  by (simp_all add: own_field_def with_pw_def top_prefix_def)

lemma set_prop_apply [op_simps]: "set_prop pf k v p = (Inr (), with_pw (pr_set pf k v (pw p)) p)"
  by (simp add: set_prop_def op_simps)

lemma agrees_set_same:
  "property_store pf view \<Longrightarrow> own_field F \<Longrightarrow> F p = v \<Longrightarrow> agrees pf k F (snd (set_prop pf k v p))"
  by (simp add: agrees_def set_prop_apply own_field_def property_store_def)

lemma agrees_set_other:
  "property_store pf view \<Longrightarrow> own_field F \<Longrightarrow> k \<noteq> j \<Longrightarrow> keeps (agrees pf k F) (set_prop pf j v)"
  by (simp add: keeps_def agrees_def set_prop_apply own_field_def property_store_def)

lemma agrees_modify:
  "(\<And>p. F (f p) = F p \<and> pw (f p) = pw p) \<Longrightarrow> keeps (agrees pf k F) (modify f)"
  by (rule keeps_modify) (simp add: agrees_def)

lemma agrees_service:
  assumes "property_store pf view" and "k \<noteq> ''service-name''" and "own_field F"
    and "\<And>p s. F (p\<lparr>pl_serviceName := s\<rparr>) = F p" and "\<And>p s. F (p\<lparr>pl_startupState := s\<rparr>) = F p"
  shows "keeps (agrees pf k F) (setup_service pf se)"
  unfolding setup_service_def has_prop_def get_prop_def
  by (intro keeps_bindM keeps_seqM keeps_gets keeps_asks keeps_only_if agrees_modify agrees_set_other [OF assms(1,3)])
     (simp_all add: assms)

lemma agrees_ip:
  assumes "property_store pf view" and "k \<noteq> ''host-ip''" and "k \<noteq> ''network-interface''" and "own_field F"
    and "\<And>p s. F (p\<lparr>ipAddress := s\<rparr>) = F p"
  shows "keeps (agrees pf k F) (setup_ip pf se)"
proof -
  have "keeps (agrees pf k F) (case x of None \<Rightarrow> ret () | Some nic \<Rightarrow> set_prop pf ''network-interface'' nic)" for x
    using agrees_set_other [OF assms(1,4)] assms(3) by (simp add: keeps_ret split: option.split)
  then show ?thesis
    unfolding setup_ip_def has_prop_def get_prop_def
    using assms(2,3,5)
    by (auto intro!: keeps_bindM keeps_seqM keeps_gets keeps_asks keeps_only_if keeps_ret agrees_modify agrees_set_other [OF assms(1,4)])
qed

lemma agrees_host:
  assumes "property_store pf view" and "k \<noteq> ''hostname''" and "k \<noteq> ''created-time''" and "own_field F"
    and "\<And>p s d. F (p\<lparr>hostName := s, createdTime := d\<rparr>) = F p"
  shows "keeps (agrees pf k F) (setup_host pf se)"
  unfolding setup_host_def has_prop_def get_prop_def
  using assms(2,3,5)
  by (auto intro!: keeps_bindM keeps_seqM keeps_gets keeps_asks keeps_ret agrees_modify agrees_set_other [OF assms(1,4)])

text \<open>What each part establishes.\<close>

lemma after_keys:
  assumes "property_store pf view" and "setup_keys pf p = (Inr (), q)"
  shows "agrees pf ''separator'' pl_separator q" and "agrees pf ''top-prefix'' top_prefix q"
proof -
  from assms(2) obtain sep t i j where "pr_get pf (pw p) ''separator'' = Some sep"
    "q = (with_pw (pr_set pf ''top-prefix'' TopPrefix (pw p)) (p\<lparr>pl_separator := sep\<rparr>))\<lparr>pl_maxTtl := i, pl_ttlUpdateInterval := j\<rparr>"
    by (auto simp: setup_keys_def get_prop_def op_simps bindM_def seqM_def split: sum.splits option.splits prod.splits)
  with assms(1) show "agrees pf ''separator'' pl_separator q" "agrees pf ''top-prefix'' top_prefix q"
    by (simp_all add: agrees_def property_store_def with_pw_def top_prefix_def)
qed

lemma after_host:
  assumes "property_store pf view" and "setup_host pf se p = (Inr (), q)"
  shows "agrees pf ''hostname'' hostName q"
proof -
  from assms(2) obtain h where
    "q = with_pw (pr_set pf ''created-time'' (show_int (now_ns se)) (pr_set pf ''hostname'' h (pw p))) (p\<lparr>hostName := h, createdTime := now_date se\<rparr>)"
    by (auto simp: setup_host_def has_prop_def get_prop_def op_simps bindM_def seqM_def split: sum.splits option.splits if_splits)
  with assms(1) show ?thesis by (simp add: agrees_def property_store_def with_pw_def)
qed

lemma after_ip:
  assumes "property_store pf view" and "setup_ip pf se p = (Inr (), q)"
  shows "agrees pf ''host-ip'' ipAddress q"
proof -
  from assms(2) obtain r where "bindM (gets ipAddress) (set_prop pf ''host-ip'') r = (Inr (), q)"
    by (auto simp: setup_ip_def seqM_eq_Inr)
  with assms(1) show ?thesis by (auto simp: op_simps agrees_def property_store_def with_pw_def)
qed

lemma after_service:
  assumes "property_store pf view" and "setup_service pf se p = (Inr (), q)"
  shows "agrees pf ''service-name'' pl_serviceName q"
    and "\<exists>s. pl_serviceName q = s \<and> (s = base_name (program_invocation_name se) \<or> s \<noteq> [] \<and> pr_get pf (pw p) ''service-name'' = Some s)"
  using assms
  by (auto simp: setup_service_def has_prop_def get_prop_def op_simps bindM_def seqM_def only_if_def agrees_def property_store_def
      with_pw_def split: sum.splits option.splits if_splits)

lemma setup_view:
  assumes "property_store pf view"
  shows "keeps (\<lambda>p. view (pw p) = V) (setup_plugin pf se)"
proof -
  have set: "keeps (\<lambda>p. view (pw p) = V) (set_prop pf k v)" for k v
    using assms by (simp add: keeps_def set_prop_apply property_store_def)
  have field: "keeps (\<lambda>p. view (pw p) = V) (modify f)" if "\<And>p. pw (f p) = pw p" for f :: "'a plugin \<Rightarrow> 'a plugin"
    by (rule keeps_modify) (simp add: that)
  have nic: "keeps (\<lambda>p. view (pw p) = V) (case x of None \<Rightarrow> ret () | Some nic \<Rightarrow> set_prop pf ''network-interface'' nic)" for x
    using set by (simp add: keeps_ret split: option.split)
  show ?thesis
    unfolding setup_plugin_def SetProcessName_def setup_uuid_def setup_keys_def setup_host_def setup_ip_def setup_service_def
      has_prop_def get_prop_def
    by (auto intro!: keeps_bindM keeps_seqM keeps_gets keeps_asks keeps_lift_res keeps_only_if keeps_ret set field nic)
qed


text \<open>
  The topology that is made then speaks of the same service: with an id and a time to live that can be read, its fields are
  those of the plugin.
\<close>

lemma topology_agrees:
  assumes "agrees pf ''service-name'' pl_serviceName q" and "agrees pf ''separator'' pl_separator q" and "agrees pf ''top-prefix'' top_prefix q"
    and "pr_get pf (pw q) ''id'' = Some (pl_id q)" and "pr_get pf (pw q) ''max-ttl'' = Some v" and "stoll v = Inr (pl_maxTtl q)"
  shows "fst (new_topology pf (topology q)) = Inr () \<and>
    my_key (snd (new_topology pf (topology q))) [part] = instance_prefix q part \<and> fMaxTtl (snd (new_topology pf (topology q))) = pl_maxTtl q"
  using assms
  by (simp add: new_topology_def read_field_def agrees_def top_prefix_def op_simps bindM_def seqM_def try_log_def my_key_def instance_prefix_def)

definition sample_start :: start_env where
  "sample_start = \<lparr>program_invocation_name = ''/opt/bin/Sampler'', host_name = ''host'', getHostIPs = [(''eth0'', ''10.0.0.1'')],
     getIpFromHostname = (\<lambda>a. ''10.0.0.1''), getDefaultRouteNetworkInterface = ''eth0'', getInterfaceIP = (\<lambda>n. ''10.0.0.1''),
     read_uuid = Inr, random_uuid = ''uuid-1'', now_ns = 7, now_date = ''today''\<rparr>"


end
