(* ===== verification/CommandFlow.thy ===== *)
theory CommandFlow
  imports WebControl
begin

text \<open>
  The way of a command from a request of a web client to the state of the devices: the controller publishes
  JSON texts (\<^verbatim>\<open>controller/WebGui.cxx\<close>), the devices read and obey them (\<^verbatim>\<open>plugins/DaqServicePlugin.cxx\<close>). The operations
  are those of WebControl and DeviceControl; this theory composes them.
\<close>

section \<open>JSON\<close>

text \<open>
  What is relied on: a message of ASCII texts, with the lists as arrays of texts, is read as it was written.
\<close>

definition json_text :: "string \<Rightarrow> bool" where
  "json_text s \<longleftrightarrow> list_all (\<lambda>c. (of_char c :: nat) < 128) s"

definition json_leaf :: "string \<times> ptree \<Rightarrow> bool" where
  "json_leaf e \<longleftrightarrow> fst e = [] \<and> pt_children (snd e) = [] \<and> json_text (pt_data (snd e))"

definition json_list :: "ptree \<Rightarrow> bool" where
  "json_list t \<longleftrightarrow> pt_data t = [] \<and> list_all json_leaf (pt_children t)"

definition json_messages :: "(ptree \<Rightarrow> string) \<Rightarrow> (string \<Rightarrow> ptree res) \<Rightarrow> bool" where
  "json_messages wr rd \<longleftrightarrow>
     (\<forall>s i v. json_list s \<longrightarrow> json_list i \<longrightarrow> json_text v \<longrightarrow> rd (wr (message_tree s i v)) = Inr (message_tree s i v))"

definition names :: "ptree \<Rightarrow> string list" where
  "names t = map (\<lambda>(_, x). pt_data x) (pt_children t)"

section \<open>One message\<close>

definition exit_commands :: "string list" where
  "exit_commands = [daq_Exit, daq_Quit, cmd_End]"

definition obey :: "'w platform \<Rightarrow> 'w host \<Rightarrow> string \<Rightarrow> ('w plugin, unit) opn" where
  "obey pf hs v = seqM (ChangeDeviceStateByMultiCommand pf hs v)
     (only_if (v \<in> set exit_commands) (modify (\<lambda>p. p\<lparr>pluginShutdownRequested := True\<rparr>)))"

lemma message_parts:
  "ptree_get (message_tree s i v) ''command'' = Some ''change_state''" "ptree_get (message_tree s i v) ''value'' = Some v"
  "child_values (message_tree s i v) ''services'' = Inr (names s)" "child_values (message_tree s i v) ''instances'' = Inr (names i)"
  by (simp_all add: message_tree_def ptree_get_def ptree_child_def child_values_def names_def)

lemma message_delivered:
  assumes "json_messages wr (json_read pf)" and "json_list s" and "json_list i" and "json_text v"
    and "names s \<noteq> []" and "names i \<noteq> []"
  shows "on_message pf hs CommandChannelName (wr (message_tree s i v)) p =
    (if addressed p (names s) (names i) then obey pf hs v p else (Inr (), p))"
proof -
  have "json_read pf (wr (message_tree s i v)) = Inr (message_tree s i v)"
    using assms(1-4) unfolding json_messages_def by blast
  then show ?thesis
    using assms(5,6)
    by (simp add: on_message_def op_simps bindM_def message_parts only_if_def obey_def exit_commands_def seqM_def)
qed

lemma obeyed:
  assumes "fairmq_device pf hs pend" and "at_rest hs pend st (pw p)"
  shows "(\<exists>q. obey pf hs v p = (Inr (), q) \<and> at_rest hs pend (goal_state v st) (pw q) \<and> ids q = ids p \<and>
      pluginShutdownRequested q = (pluginShutdownRequested p \<or> v \<in> set exit_commands)) \<or>
    (\<exists>q. obey pf hs v p = (Inl device_error, q) \<and> has_failed hs q)"
  using multi_moves [OF assms, of v]
  unfolding control_moves_def
proof (elim disjE exE conjE)
  fix q
  assume run: "ChangeDeviceStateByMultiCommand pf hs v p = (Inr (), q)" and q: "control_state pf hs pend (config p) (goal_state v st) q"
  let ?q = "if v \<in> set exit_commands then q\<lparr>pluginShutdownRequested := True\<rparr> else q"
  have "obey pf hs v p = (Inr (), ?q)" by (simp add: obey_def seqM_def bindM_def run only_if_def op_simps)
  moreover have "at_rest hs pend (goal_state v st) (pw ?q)" "config q = config p" using q by (simp_all add: control_state_def)
  ultimately show ?thesis using config_ids [of q p] by (intro disjI1 exI [of _ ?q]) (simp add: ids_def)
next
  fix e q
  assume "ChangeDeviceStateByMultiCommand pf hs v p = (Inl e, q)" and "control_failed hs (config p) e q"
  then show ?thesis by (auto simp: obey_def seqM_def bindM_def control_failed_def has_failed_def)
qed

section \<open>All messages of a request\<close>

definition messages :: "(ptree \<Rightarrow> string) \<Rightarrow> ptree \<Rightarrow> ptree \<Rightarrow> string list \<Rightarrow> consumed list" where
  "messages wr s i cs = map (\<lambda>c. Message CommandChannelName (wr (message_tree s i c))) cs"

lemma addressed_ids: "ids p = ids q \<Longrightarrow> addressed p ss ks = addressed q ss ks"
  by (simp add: addressed_def ids_def long_instance_id_def)

lemma commands_obeyed:
  assumes dev: "fairmq_device pf hs pend" and json: "json_messages wr (json_read pf)"
    and lists: "json_list s" "json_list i" "names s \<noteq> []" "names i \<noteq> []"
    and "list_all json_text cs" and "list_all (\<lambda>c. c \<notin> set exit_commands) (butlast cs)"
    and "at_rest hs pend st (pw p)" and "\<not> pluginShutdownRequested p" and "addressed p (names s) (names i)"
  shows "(\<exists>q. SubscribeToDaqCommand pf hs (messages wr s i cs @ rest) p = SubscribeToDaqCommand pf hs rest q \<and>
      at_rest hs pend (fold goal_state cs st) (pw q) \<and> pluginShutdownRequested q = (cs \<noteq> [] \<and> last cs \<in> set exit_commands)) \<or>
    (\<exists>q. SubscribeToDaqCommand pf hs (messages wr s i cs @ rest) p = (Inr (), q) \<and> has_failed hs q)"
  using assms(7-)
proof (induction cs arbitrary: p st)
  case (Cons c cs)
  have plain: "json_text c" "list_all json_text cs" using Cons.prems(1) by simp_all
  have "consume pf hs (Message CommandChannelName (wr (message_tree s i c))) p = obey pf hs c p"
    using message_delivered [OF json lists(1,2) plain(1) lists(3,4)] Cons.prems(5) by (simp add: consume_def)
  note step = this
  from obeyed [OF dev Cons.prems(3), of c] show ?case
  proof (elim disjE exE conjE)
    fix q
    assume q: "obey pf hs c p = (Inr (), q)" "at_rest hs pend (goal_state c st) (pw q)" "ids q = ids p"
      "pluginShutdownRequested q = (pluginShutdownRequested p \<or> c \<in> set exit_commands)"
    have here: "SubscribeToDaqCommand pf hs (messages wr s i (c # cs) @ rest) p = SubscribeToDaqCommand pf hs (messages wr s i cs @ rest) q"
      using Cons.prems(4) by (simp add: messages_def step q(1))
    show ?case
    proof (cases "cs = []")
      case True
      with here q Cons.prems(4) show ?thesis by (intro disjI1 exI [of _ q]) (simp add: messages_def)
    next
      case False
      with Cons.prems(2) have "c \<notin> set exit_commands" "list_all (\<lambda>c. c \<notin> set exit_commands) (butlast cs)" by simp_all
      with q(4) Cons.prems(4) have "\<not> pluginShutdownRequested q" by simp
      moreover have "addressed q (names s) (names i)" using Cons.prems(5) addressed_ids [OF q(3)] by simp
      ultimately show ?thesis
        using Cons.IH [OF plain(2) _ q(2)] \<open>list_all _ (butlast cs)\<close> False unfolding here by simp
    qed
  next
    fix q
    assume "obey pf hs c p = (Inl device_error, q)" "has_failed hs q"
    with Cons.prems(4) show ?case by (simp add: messages_def step)
  qed
qed (auto simp: messages_def)

lemma commands_for_others:
  assumes "json_messages wr (json_read pf)" and "json_list s" "json_list i" "names s \<noteq> []" "names i \<noteq> []"
    and "list_all json_text cs" and "\<not> pluginShutdownRequested p" and "\<not> addressed p (names s) (names i)"
  shows "SubscribeToDaqCommand pf hs (messages wr s i cs @ rest) p = SubscribeToDaqCommand pf hs rest p"
  using assms(6)
proof (induction cs)
  case (Cons c cs)
  with message_delivered [OF assms(1-3) _ assms(4,5), of c hs p] assms(7,8) show ?case
    by (simp add: messages_def consume_def)
qed (simp add: messages_def)

section \<open>From the request to the devices\<close>

lemma known_text: "v \<in> set knownCommandList \<Longrightarrow> json_text v"
proof -
  have "list_all json_text knownCommandList" by code_simp
  then show "v \<in> set knownCommandList \<Longrightarrow> json_text v" by (simp add: list_all_iff)
qed

lemma expected_known:
  assumes "v \<in> set knownCommandList"
  shows "list_all json_text (expected_commands v f1 f2)"
    and "list_all (\<lambda>c. c \<notin> set exit_commands) (butlast (expected_commands v f1 f2))"
    and "expected_commands v f1 f2 \<noteq> []" and "last (expected_commands v f1 f2) = v"
proof -
  have "list_all json_text [cmd_Connect, cmd_InitTask, cmd_Run]" by code_simp
  moreover have "list_all (\<lambda>c. c \<notin> set exit_commands) [cmd_Connect, cmd_InitTask]" by code_simp
  ultimately show "list_all json_text (expected_commands v f1 f2)"
    "list_all (\<lambda>c. c \<notin> set exit_commands) (butlast (expected_commands v f1 f2))"
    "expected_commands v f1 f2 \<noteq> []" "last (expected_commands v f1 f2) = v"
    using known_text [OF assms] by (auto simp: expected_commands_def)
qed

text \<open>The goal of the commands of a request is the goal of its command.\<close>

lemma goal_of_request:
  assumes "resting st"
  shows "fold goal_state (expected_commands cmd_Run f1 f2) st = Running"
proof -
  have "list_all (\<lambda>st. list_all (\<lambda>f1. list_all (\<lambda>f2. fold goal_state (expected_commands cmd_Run f1 f2) st = Running) [True, False]) [True, False])
    [Idle, InitializingDevice, Initialized, Bound, DeviceReady, Ready, Running]" by code_simp
  then show ?thesis using assms by (cases f1; cases f2) (auto simp: resting_def)
qed


section \<open>A concrete run\<close>

text \<open>A writer and a reader for the witness: each text is written with a dot before each character and a semicolon behind it.\<close>

definition bus_text :: "string \<Rightarrow> string" where
  "bus_text s = concat (map (\<lambda>c. [CHR ''.'', c]) s) @ '';''"

fun bus_texts :: "string \<Rightarrow> string list" where
  "bus_texts [] = []"
| "bus_texts [x] = [[]]"
| "bus_texts (x # c # r) =
     (if x = CHR '';'' then [] # bus_texts (c # r)
      else case bus_texts r of [] \<Rightarrow> [] | s # ss \<Rightarrow> (c # s) # ss)"

definition bus_write :: "ptree \<Rightarrow> string" where
  "bus_write t = (case (ptree_get t ''value'', ptree_child t ''services'', ptree_child t ''instances'') of
     (Some v, Some s, Some i) \<Rightarrow> concat (map bus_text (v # map ((#) (CHR ''s'')) (names s) @ map ((#) (CHR ''i'')) (names i)))
   | _ \<Rightarrow> [])"

definition bus_list :: "char \<Rightarrow> string list \<Rightarrow> ptree" where
  "bus_list c ts = PTree [] (map (\<lambda>t. ([], PTree (tl t) [])) (filter (\<lambda>t. t \<noteq> [] \<and> hd t = c) ts))"

definition bus_read :: "string \<Rightarrow> ptree res" where
  "bus_read m = (case bus_texts m of [] \<Rightarrow> Inl (Failure ''not JSON'')
     | v # ts \<Rightarrow> Inr (message_tree (bus_list (CHR ''s'') ts) (bus_list (CHR ''i'') ts) v))"

lemma bus_texts_text: "bus_texts (bus_text s @ r) = s # bus_texts r"
proof (induction s)
  case Nil
  show ?case by (cases r) (simp_all add: bus_text_def)
next
  case (Cons c s)
  then show ?case by (simp add: bus_text_def)
qed

lemma bus_texts_concat: "bus_texts (concat (map bus_text ts)) = ts"
  by (induction ts) (simp_all add: bus_texts_text)

lemma bus_list_names: "json_list t \<Longrightarrow> PTree [] (map (\<lambda>n. ([], PTree n [])) (names t)) = t"
proof -
  have "map (\<lambda>n. ([], PTree n [])) (map (\<lambda>(_, x). pt_data x) cs) = cs" if "list_all json_leaf cs" for cs
    using that
  proof (induction cs)
    case (Cons e cs)
    obtain k t where "e = (k, t)" by (cases e) auto
    with Cons show ?case by (cases t) (auto simp: json_leaf_def)
  qed simp
  then show "json_list t \<Longrightarrow> ?thesis" by (cases t) (auto simp: json_list_def names_def)
qed

lemma bus_messages: "json_messages bus_write bus_read"
proof -
  have "bus_read (bus_write (message_tree s i v)) = Inr (message_tree s i v)" if "json_list s" "json_list i" for s i v
  proof -
    let ?ts = "map ((#) (CHR ''s'')) (names s) @ map ((#) (CHR ''i'')) (names i)"
    have "bus_texts (bus_write (message_tree s i v)) = v # ?ts"
      using bus_texts_concat [of "v # ?ts"] by (simp add: bus_write_def message_tree_def ptree_get_def ptree_child_def)
    moreover have "bus_list (CHR ''s'') ?ts = s" "bus_list (CHR ''i'') ?ts = i"
      using bus_list_names that by (simp_all add: bus_list_def filter_map o_def)
    ultimately show ?thesis by (simp add: bus_read_def)
  qed
  then show ?thesis unfolding json_messages_def by blast
qed

definition bus_env :: "gui_world gui_env" where
  "bus_env = sample_env\<lparr>json_write := bus_write\<rparr>"

definition bus_platform :: "dev_world platform" where
  "bus_platform = json_platform\<lparr>json_read := bus_read\<rparr>"

definition bus_request :: ptree where
  "bus_request = PTree [] [(''value'', PTree ''RUN'' []), (''services'', PTree [] [([], PTree ''Sampler'' [])]),
     (''instances'', PTree [] [([], PTree ''all'' [])])]"

lemma bus_log: "publish_log gui_platform bus_env published"
  using gui_publish_log by (simp add: publish_log_def bus_env_def sample_env_def)

lemma bus_device: "fairmq_device bus_platform ref_host dev_pending"
  using ref_device by (simp add: fairmq_device_def device_frame_def bus_platform_def)


end
