(* ===== verification/AddressFlow.thy ===== *)
theory AddressFlow
  imports Connect
begin

text \<open>
  The way of an address from the device that binds a socket to the device that connects to it: \<open>WriteBindAddress\<close>
  publishes the properties of the sub-sockets, \<open>ReadPeerAddress\<close> finds them (\<^verbatim>\<open>plugins/TopologyConfig.cxx\<close>).
\<close>

section \<open>Names\<close>

lemma show_nat_digit: "k < 10 \<Longrightarrow> show_nat k = [digit k]"
  by (simp add: show_nat.simps)

lemma digit_no_dot: "c \<in> set (show_nat k) \<Longrightarrow> c \<noteq> CHR ''.''"
  using show_nat_digits [of c k] by (auto simp: is_digit_def)

lemma sub_index_prefix:
  assumes "k < 10" and "starts_with (show_nat j) (show_nat k @ ''.'' @ f)"
  shows "j = k"
proof -
  obtain d ds where j: "show_nat j = d # ds" using show_nat_nonempty [of j] by (cases "show_nat j") auto
  from assms obtain u where "d # ds @ u = digit k # CHR ''.'' # f"
    by (auto simp: starts_with_Cons show_nat_digit j)
  moreover from this have "ds = []" using digit_no_dot [of _ j] by (cases ds) (auto simp: j)
  ultimately have "show_nat j = show_nat k" using assms(1) by (simp add: j show_nat_digit)
  then show ?thesis by (rule show_nat_inj [THEN iffD1])
qed

text \<open>
  The properties of a channel are those of its sub-channels \<open>0, ..., n - 1\<close>, each under the number and the name of
  a field, and every sub-channel has an address. With more than ten this is not enough.
\<close>

definition numbered :: "'w platform \<Rightarrow> 'w \<Rightarrow> string \<Rightarrow> nat \<Rightarrow> bool" where
  "numbered pf w p n \<longleftrightarrow> n \<le> 10 \<and>
     (\<forall>q v. pr_get pf w q = Some v \<longrightarrow> starts_with p q \<longrightarrow>
        (\<exists>k f. k < n \<and> q = p @ show_nat k @ ''.'' @ f \<and> CHR ''.'' \<notin> set f \<and> fits q)) \<and>
     (\<forall>k<n. pr_get pf w (p @ show_nat k @ ''.address'') \<noteq> None)"

lemma numbered_entry:
  assumes "property_store pf view" and "numbered pf w p n" and "(q, v) \<in> set (pr_prefix pf w (p @ show_nat j))"
  shows "j < n \<and> (\<exists>f. q = p @ show_nat j @ ''.'' @ f \<and> last_component q = f)"
proof -
  note mem = pr_prefix_mem [OF assms(1,3)]
  have "starts_with p q" using mem(1) by (auto simp: starts_with_Cons)
  with assms(2) mem(2) obtain k f where q: "k < n" "q = p @ show_nat k @ ''.'' @ f" "CHR ''.'' \<notin> set f" "fits q"
    unfolding numbered_def by blast
  have "j = k"
    by (rule sub_index_prefix [of _ _ f]) (use mem(1) q(1,2) assms(2) in \<open>auto simp: numbered_def starts_with_Cons\<close>)
  moreover have "last_component q = f" using last_component_dot [of "p @ show_nat k" f] q by simp
  ultimately show ?thesis using q by blast
qed

lemma numbered_sub_channels:
  assumes "property_store pf view" and "numbered pf (world t) (local_key_prefix sp) n"
  shows "sub_channels_of pf t sp = map (sub_channel pf (world t) (local_key_prefix sp)) [0..<n]"
proof -
  let ?p = "local_key_prefix sp"
  have stop: "pr_prefix pf (world t) (?p @ show_nat n) = []"
  proof (rule ccontr)
    assume "\<not> ?thesis"
    then obtain q v where "(q, v) \<in> set (pr_prefix pf (world t) (?p @ show_nat n))" by (metis last_in_set surj_pair)
    from numbered_entry [OF assms this] show False by simp
  qed
  have "pr_prefix pf (world t) (?p @ show_nat j) \<noteq> []" if j: "j < n" for j
  proof -
    obtain a where "pr_get pf (world t) (?p @ show_nat j @ ''.address'') = Some a"
      using assms(2) j unfolding numbered_def by blast
    with pr_prefix_memI [OF assms(1), of "?p @ show_nat j" "?p @ show_nat j @ ''.address''" "world t" a]
    show ?thesis by (auto simp: starts_with_Cons)
  qed
  with sub_channels_upto [OF _ stop, of 0] show ?thesis by (simp add: sub_channels_of_def)
qed

lemma published_address:
  assumes "property_store pf view" and "numbered pf w p n" and "pr_get pf w (p @ show_nat j @ ''.address'') = Some a"
  shows "map_of (socket_hash sp (pr_prefix pf w (p @ show_nat j))) ''address'' = Some a"
proof -
  let ?q = "p @ show_nat j @ ''.address''" and ?m = "pr_prefix pf w (p @ show_nat j)"
  have mem: "(?q, a) \<in> set ?m"
    by (rule pr_prefix_memI [OF assms(1) _ assms(3)]) (auto simp: starts_with_Cons)
  have comp: "q = ?q" if "(q, v) \<in> set ?m" "last_component q = ''address''" for q v
    using numbered_entry [OF assms(1,2) that(1)] that(2) by auto
  have "last_component ?q = ''address''"
    using numbered_entry [OF assms(1,2) mem] by auto
  from last_entry [of ?m ?q a last_component, OF _ mem this] comp assms(1)
  show ?thesis by (simp add: map_of_socket_hash property_store_def)
qed

section \<open>What is published\<close>

lemma socket_key_append: "socket_key t (a @ b) = socket_key t a @ b"
  by (simp add: socket_key_def my_key_def join_def)

lemma socket_key_inj: "socket_key t a = socket_key t b \<longleftrightarrow> a = b"
  by (simp add: socket_key_def my_key_def join_def)

text \<open>A key all of whose commands set the field to the same text has it there in the end.\<close>

lemma fold_field:
  assumes "\<And>c. c \<in> set p \<Longrightarrow> K \<notin> set (cmd_keys c) \<or> (\<exists>h. c = HSet K h \<and> map_of (rev h) f = Some a)"
    and "m K = None \<or> (\<exists>h. m K = Some (RHash h) \<and> map_of h f = Some a)"
    and "m K \<noteq> None \<or> (\<exists>h. HSet K h \<in> set p)"
  shows "\<exists>h. fold cmd_effect p m K = Some (RHash h) \<and> map_of h f = Some a"
  using assms
proof (induction p arbitrary: m)
  case (Cons c p)
  consider h where "c = HSet K h" "map_of (rev h) f = Some a" | "K \<notin> set (cmd_keys c)"
    using Cons.prems(1) [of c] by auto
  then show ?case
  proof cases
    case (1 h)
    then have "\<exists>h. cmd_effect c m K = Some (RHash h) \<and> map_of h f = Some a"
      using Cons.prems(2) by (auto simp: map_of_hash_put)
    with Cons.IH [of "cmd_effect c m"] Cons.prems(1) show ?thesis by auto
  next
    case 2
    then have "cmd_effect c m K = m K" by (rule cmd_effect_frame)
    moreover have "m K \<noteq> None \<or> (\<exists>h. HSet K h \<in> set p)" using Cons.prems(3) 2 by auto
    ultimately show ?thesis using Cons.IH [of "cmd_effect c m"] Cons.prems(1,2) by auto
  qed
qed auto

definition bind_pipe :: "'w platform \<Rightarrow> 'w topo \<Rightarrow> pipeline" where
  "bind_pipe pf t = concat (map (channel_pipe pf t channel_bound_cmds) (fBindChannels t))"

lemma WriteBindAddress_world:
  assumes "property_store pf view"
  shows "world (snd (WriteBindAddress pf t)) = pipe_exec pf (bind_pipe pf t) (world t)"
    and "fSeparator (snd (WriteBindAddress pf t)) = fSeparator t"
proof -
  have "channel_bound_cmds (with_keys u ks) = channel_bound_cmds u" for u :: "'a topo" and ks
    by (simp add: channel_bound_cmds_def [abs_def] with_keys_def my_key_def)
  from WriteAddress_exact [OF assms, of channel_bound_cmds t "fBindChannels t", OF this]
  show "world (snd (WriteBindAddress pf t)) = pipe_exec pf (bind_pipe pf t) (world t)"
    "fSeparator (snd (WriteBindAddress pf t)) = fSeparator t"
    by (auto simp: WriteBindAddress_def op_simps bind_pipe_def)
qed

text \<open>The commands of a bind channel.\<close>

lemma bind_pipe_cmds:
  assumes "property_store pf view" and "c \<in> set (bind_pipe pf t)"
  obtains name sp j where "(name, sp) \<in> set (fBindChannels t)" and "local_key_prefix sp @ show_nat j \<in> fst ` set (sub_channels_of pf t sp)" and
      "c = HSet (socket_key t (local_key_prefix sp @ show_nat j)) (socket_hash sp (pr_prefix pf (world t) (local_key_prefix sp @ show_nat j)))"
  | k n where "c = Expire k n"
  | name where "c = HSet (my_key t [ChannelPrefix, name]) [(''bound'', ''1'')]"
proof -
  from assms(2) obtain name sp where ch: "(name, sp) \<in> set (fBindChannels t)" "c \<in> set (channel_pipe pf t channel_bound_cmds (name, sp))"
    by (auto simp: bind_pipe_def)
  from sub_channels_total [OF assms(1), of "world t" "local_key_prefix sp" 0]
  obtain n where "sub_channels_of pf t sp = map (sub_channel pf (world t) (local_key_prefix sp)) [0..<n]"
    unfolding sub_channels_of_def by (metis option.sel)
  with ch(2) that ch(1) show thesis
    by (auto simp: channel_pipe_def write_socket_cmds_def sub_channel_def channel_bound_cmds_def image_iff)
qed

text \<open>No other channel publishes under the keys of this one.\<close>

definition channel_apart :: "'w topo \<Rightarrow> SocketProperty \<Rightarrow> bool" where
  "channel_apart t sp \<longleftrightarrow> (\<forall>(name, sp') \<in> set (fBindChannels t).
     sp' = sp \<or> sp_name sp' \<noteq> sp_name sp \<and> \<not> starts_with (sp_name sp @ ''.'') (sp_name sp'))"

lemma name_apart:
  assumes "starts_with (a @ ''.'') (b @ ''.'' @ show_nat j)" and "\<not> starts_with (a @ ''.'') b"
  shows "a = b"
proof -
  from assms(1) obtain u where "a @ CHR ''.'' # u = b @ CHR ''.'' # show_nat j" by (auto simp: starts_with_Cons)
  then consider us where "a = b @ us" "us @ CHR ''.'' # u = CHR ''.'' # show_nat j"
    | us where "a @ us = b" "CHR ''.'' # u = us @ CHR ''.'' # show_nat j"
    by (auto simp: append_eq_append_conv2)
  then show ?thesis
  proof cases
    case (1 us)
    show ?thesis
    proof (cases us)
      case (Cons x xs)
      with 1(2) have "CHR ''.'' \<in> set (show_nat j)" by (metis append_Cons in_set_conv_decomp list.inject)
      with digit_no_dot show ?thesis by blast
    qed (use 1(1) in simp)
  next
    case (2 us)
    then show ?thesis using assms(2) by (cases us) (auto simp: starts_with_Cons)
  qed
qed

lemma own_key:
  assumes "channel_apart t sp" and "(name, sp') \<in> set (fBindChannels t)"
    and "starts_with (socket_key t (local_key_prefix sp)) (socket_key t (local_key_prefix sp' @ show_nat j))"
  shows "sp' = sp"
proof (rule ccontr)
  assume "sp' \<noteq> sp"
  with assms(1,2) have "sp_name sp' \<noteq> sp_name sp" "\<not> starts_with (sp_name sp @ ''.'') (sp_name sp')"
    by (auto simp: channel_apart_def)
  moreover have "starts_with (sp_name sp @ ''.'') (sp_name sp' @ ''.'' @ show_nat j)"
    using assms(3) by (simp add: local_key_prefix_def socket_key_append starts_with_Cons) (auto simp: socket_key_def my_key_def join_def)
  ultimately show False using name_apart by metis
qed

lemma distinct_socket_hash: "distinct (map fst (socket_hash sp chans))"
proof -
  have "smap_wf (fold (\<lambda>(k, v). smap_put (last_component k) v) chans h)" if "smap_wf h" for h :: "string smap"
    using that by (induction chans arbitrary: h) (auto simp: smap_wf_put)
  moreover have "smap_wf ([] :: string smap)" by (simp add: smap_wf_def)
  ultimately have "smap_wf (socket_hash sp chans)"
    by (simp add: socket_hash_def Let_def smap_wf_put)
  then show ?thesis by (rule smap_wf_distinct)
qed

lemma socket_key_parts: "socket_key t k = my_key t [SocketPrefix, k]"
  by (simp add: socket_key_def)

text \<open>After the publication the keys of the channel are those of its sub-channels, each with its address.\<close>

lemma addresses_published:
  assumes "redis_server pf view mt" and "property_store pf view" and "(name, sp) \<in> set (fBindChannels t)" and "channel_apart t sp"
    and "numbered pf (world t) (local_key_prefix sp) n"
    and "\<And>k. view (world t) k \<noteq> None \<Longrightarrow> \<not> starts_with (socket_key t (local_key_prefix sp)) k"
    and "v = view (world (snd (WriteBindAddress pf t)))"
  shows "{k. v k \<noteq> None \<and> starts_with (socket_key t (local_key_prefix sp)) k} = {socket_key t (local_key_prefix sp) @ show_nat j | j. j < n}"
    and "j < n \<Longrightarrow> pr_get pf (world t) (local_key_prefix sp @ show_nat j @ ''.address'') = Some a \<Longrightarrow>
      \<exists>h. v (socket_key t (local_key_prefix sp) @ show_nat j) = Some (RHash h) \<and> map_of h ''address'' = Some a"
proof -
  let ?P = "socket_key t (local_key_prefix sp)" and ?p = "bind_pipe pf t"
  let ?h = "\<lambda>j. socket_hash sp (pr_prefix pf (world t) (local_key_prefix sp @ show_nat j))"
  have v: "v = fold cmd_effect ?p (view (world t))"
    by (simp add: assms(7) WriteBindAddress_world(1) [OF assms(2)] view_pipe_exec [OF assms(1)])
  note subs = numbered_sub_channels [OF assms(2,5)]
  have sent: "HSet (?P @ show_nat j) (?h j) \<in> set ?p" if "j < n" for j
    using assms(3) that subs
    by (auto simp: bind_pipe_def channel_pipe_def write_socket_cmds_def sub_channel_def socket_key_append intro!: bexI [of _ "(name, sp)"])
  have mine: "\<exists>j<n. c = HSet (?P @ show_nat j) (?h j)" if "c \<in> set ?p" "k \<in> set (cmd_keys c)" "starts_with ?P k" for c k
    using assms(2) that(1)
  proof (cases rule: bind_pipe_cmds)
    case (1 name' sp' j)
    with that(2,3) own_key [OF assms(4) 1(1), of j] have "sp' = sp" by simp
    moreover from this 1(2) subs have "j < n" by (auto simp: sub_channel_def)
    ultimately show ?thesis using 1(3) by (auto simp: socket_key_append)
  next
    case (3 name')
    with that(2,3) show ?thesis
      by (auto simp: starts_with_Cons socket_key_def my_key_def join_def topology_constants)
  qed (use that(2) in simp)
  have field: "\<exists>h. v (?P @ show_nat j) = Some (RHash h) \<and> map_of h ''address'' = Some a"
    if j: "j < n" and a: "pr_get pf (world t) (local_key_prefix sp @ show_nat j @ ''.address'') = Some a" for j a
    unfolding v
  proof (rule fold_field)
    fix c assume c: "c \<in> set ?p"
    show "?P @ show_nat j \<notin> set (cmd_keys c) \<or> (\<exists>h. c = HSet (?P @ show_nat j) h \<and> map_of (rev h) ''address'' = Some a)"
    proof (cases "?P @ show_nat j \<in> set (cmd_keys c)")
      case True
      with mine [OF c True] obtain i where i: "c = HSet (?P @ show_nat i) (?h i)" by (auto simp: starts_with_Cons)
      with True have "show_nat j = show_nat i" by simp
      with i published_address [OF assms(2,5) a] show ?thesis
        by (simp add: map_of_rev_distinct [OF distinct_socket_hash])
    qed simp
  next
    show "view (world t) (?P @ show_nat j) = None \<or> (\<exists>h. view (world t) (?P @ show_nat j) = Some (RHash h) \<and> map_of h ''address'' = Some a)"
      using assms(6) [of "?P @ show_nat j"] by (auto simp: starts_with_Cons)
    show "view (world t) (?P @ show_nat j) \<noteq> None \<or> (\<exists>h. HSet (?P @ show_nat j) h \<in> set ?p)" using sent [OF j] by blast
  qed
  then show "j < n \<Longrightarrow> pr_get pf (world t) (local_key_prefix sp @ show_nat j @ ''.address'') = Some a \<Longrightarrow>
      \<exists>h. v (?P @ show_nat j) = Some (RHash h) \<and> map_of h ''address'' = Some a" .
  show "{k. v k \<noteq> None \<and> starts_with ?P k} = {?P @ show_nat j | j. j < n}"
  proof (intro equalityI subsetI)
    fix k assume "k \<in> {k. v k \<noteq> None \<and> starts_with ?P k}"
    then have k: "v k \<noteq> None" "starts_with ?P k" by simp_all
    with assms(6) [of k] v pipe_effect_dom [of ?p "view (world t)"]
    obtain c where c: "c \<in> set ?p" "k \<in> writes c" by (auto simp: dom_def)
    from c(2) have "k \<in> set (cmd_keys c)" by (cases c) (auto simp: writes_def)
    with mine [OF c(1) this k(2)] show "k \<in> {?P @ show_nat j | j. j < n}" by auto
  next
    fix k assume "k \<in> {?P @ show_nat j | j. j < n}"
    then obtain j where j: "k = ?P @ show_nat j" "j < n" by blast
    moreover obtain a where "pr_get pf (world t) (local_key_prefix sp @ show_nat j @ ''.address'') = Some a"
      using assms(5) j(2) unfolding numbered_def by blast
    ultimately show "k \<in> {k. v k \<noteq> None \<and> starts_with ?P k}" using field [of j a] by auto
  qed
qed

section \<open>The key of a peer\<close>

text \<open>
  A peer is given by the key of its channel; the key of its instance is what comes before the first separator that is
  followed by the word \<^verbatim>\<open>channel\<close>. This is right if the separator occurs in no name and neither the service nor the
  instance begins with that word.
\<close>

definition names_apart :: "'w topo \<Rightarrow> string \<Rightarrow> bool" where
  "names_apart t name \<longleftrightarrow> (\<exists>c. fSeparator t = [c] \<and> c \<notin> set ChannelPrefix \<and>
     c \<notin> set (fTopPrefix t @ fServiceName t @ fId t @ name) \<and>
     \<not> starts_with ChannelPrefix (fServiceName t) \<and> \<not> starts_with ChannelPrefix (fId t) \<and> fits (channel_key t name))"

definition instance_name :: "'w topo \<Rightarrow> string" where
  "instance_name t = join [fTopPrefix t, fServiceName t, fId t] (fSeparator t)"

lemma find_opt_skip: "c \<notin> set a \<Longrightarrow> find_opt (c # w) (a @ s) = map_option ((+) (length a)) (find_opt (c # w) s)"
proof (induction a)
  case Nil
  show ?case by (cases "find_opt (c # w) s") simp_all
next
  case (Cons x a)
  then show ?case by (cases "find_opt (c # w) s") (auto simp: starts_with_Cons)
qed

lemma starts_with_stop: "c \<notin> set w \<Longrightarrow> starts_with w (s @ c # r) \<longleftrightarrow> starts_with w s"
proof
  assume c: "c \<notin> set w" and "starts_with w (s @ c # r)"
  then obtain u where "s @ c # r = w @ u" by (auto simp: starts_with_Cons)
  then consider us where "s = w @ us" | us where "s @ us = w" "c # r = us @ u"
    by (auto simp: append_eq_append_conv2)
  then show "starts_with w s"
  proof cases
    case (2 us)
    with c have "us = []" by (cases us) auto
    with 2 show ?thesis by (simp add: starts_with_Cons)
  qed (simp add: starts_with_Cons)
qed (auto simp: starts_with_Cons)

lemma find_opt_next:
  assumes "c \<notin> set w" and "c \<notin> set a" and "\<not> starts_with w a"
  shows "find_opt (c # w) (c # a @ c # s) = map_option ((+) (Suc (length a))) (find_opt (c # w) (c # s))"
proof -
  have "\<not> starts_with (c # w) (c # a @ c # s)"
    using starts_with_stop [OF assms(1), of a s] assms(3) by (auto simp: starts_with_Cons)
  then have "find_opt (c # w) (c # a @ c # s) = map_option Suc (find_opt (c # w) (a @ c # s))" by simp
  also have "\<dots> = map_option ((+) (Suc (length a))) (find_opt (c # w) (c # s))"
    unfolding find_opt_skip [OF assms(2)] by (cases "find_opt (c # w) (c # s)") simp_all
  finally show ?thesis .
qed

lemma instance_of_channel:
  assumes "names_apart t name"
  shows "take (find_str (channel_key t name) (fSeparator t @ ChannelPrefix)) (channel_key t name) = instance_name t"
proof -
  let ?w = ChannelPrefix and ?T = "fTopPrefix t" and ?S = "fServiceName t" and ?I = "fId t"
  from assms obtain c where c: "fSeparator t = [c]" "c \<notin> set ?w" "c \<notin> set ?T" "c \<notin> set ?S" "c \<notin> set ?I"
    "\<not> starts_with ?w ?S" "\<not> starts_with ?w ?I" by (auto simp: names_apart_def)
  have key: "channel_key t name = ?T @ c # ?S @ c # ?I @ c # ?w @ c # name"
    by (simp add: channel_key_def my_key_def join_def c(1))
  have "starts_with (c # ?w) (c # ?w @ c # name)" by (simp add: starts_with_Cons)
  then have "find_opt (c # ?w) (c # ?w @ c # name) = Some 0" by simp
  then have "find_opt (c # ?w) (channel_key t name) = Some (length ?T + (Suc (length ?S) + Suc (length ?I)))"
    unfolding key find_opt_skip [OF c(3)] find_opt_next [OF c(2,4,6)] find_opt_next [OF c(2,5,7)] by simp
  then show ?thesis by (simp add: find_str_def c(1)) (simp add: key instance_name_def join_def c(1))
qed

lemma channel_of_key:
  assumes "names_apart t name"
  shows "drop (sz_add (find_last_of (channel_key t name) (fSeparator t)) 1) (channel_key t name) = name"
proof -
  from assms obtain c where c: "fSeparator t = [c]" "c \<notin> set name" "fits (channel_key t name)" by (auto simp: names_apart_def)
  have "channel_key t name = (fTopPrefix t @ c # fServiceName t @ c # fId t @ c # ChannelPrefix) @ c # name"
    by (simp add: channel_key_def my_key_def join_def c(1))
  then obtain u where key: "channel_key t name = u @ c # name" by blast
  have "find_last_of (u @ c # name) [c] = length u"
    unfolding find_last_of_def by (rule last_index_append) (use c(2) in \<open>auto simp: list_ex_iff\<close>)
  moreover have "length u + 1 < size_max" using c(3) by (simp add: key fits_def npos_def size_max_def)
  ultimately show ?thesis by (simp add: key c(1))
qed

section \<open>From the publication to the peer\<close>

lemma fold_frame: "\<forall>c\<in>set p. K \<notin> set (cmd_keys c) \<Longrightarrow> fold cmd_effect p m K = m K"
  by (induction p arbitrary: m) (simp_all add: cmd_effect_frame)

lemma sort_sub_keys:
  assumes "n \<le> 10" and "distinct keys" and "set keys = {P @ show_nat j | j. j < n}"
  shows "sort keys = map (\<lambda>j. P @ show_nat j) [0..<n]"
proof -
  have "mset keys = mset (map (\<lambda>j. P @ show_nat j) [0..<n])"
    by (rule set_eq_iff_mset_eq_distinct [THEN iffD1, OF assms(2)])
      (use assms(3) in \<open>auto simp: distinct_map inj_on_def\<close>)
  moreover have "sorted (map show_nat [0..<n])"
  proof -
    have "sorted (map show_nat [0..<10])" by code_simp
    then have "sorted (take n (map show_nat [0..<10]))" by (rule sorted_wrt_take)
    with assms(1) show ?thesis by (simp add: take_map)
  qed
  then have "sorted (map (\<lambda>j. P @ show_nat j) [0..<n])"
    using sorted_append_prefix [of P "map show_nat [0..<n]"] by (simp add: comp_def)
  ultimately show ?thesis by (intro properties_for_sort) simp_all
qed

text \<open>The key with the address of the host, which the service plugin writes.\<close>

definition host_key :: "'w topo \<Rightarrow> string" where
  "host_key t = my_key t [HealthPrefix]"

lemma health_kept:
  assumes "redis_server pf view mt" and "property_store pf view"
  shows "view (world (snd (WriteBindAddress pf t))) (host_key t) = view (world t) (host_key t)"
proof -
  have "host_key t \<notin> set (cmd_keys c)" if "c \<in> set (bind_pipe pf t)" for c
    using assms(2) that
    by (cases rule: bind_pipe_cmds)
      (auto simp: host_key_def HealthPrefix_def socket_key_def my_key_def join_def topology_constants)
  then show ?thesis
    by (simp add: WriteBindAddress_world(1) [OF assms(2)] view_pipe_exec [OF assms(1)] fold_frame)
qed


lemma glob_prefix: "CHR ''*'' \<notin> set P \<Longrightarrow> glob (P @ ''*'') k \<longleftrightarrow> starts_with P k"
proof (induction P arbitrary: k)
  case Nil
  have "glob ''*'' k" by (induction k) simp_all
  then show ?case by (simp add: starts_with_Cons)
next
  case (Cons c P)
  then show ?case by (cases k) (auto simp: starts_with_Cons)
qed

definition bound_sample :: "world topo" where
  "bound_sample = sample_topo\<lparr>world := \<lparr>store = [(''daq_service:Sink:Sink-0:health'', RHash [(''hostIp'', ''10.0.0.7'')])],
     props = [(''chans.in.0.address'', ''ipc://a''), (''chans.in.1.address'', ''ipc://b'')], canceled = False, pauses = 0\<rparr>\<rparr>"


end
