(* ===== verification/Timer.thy ===== *)
theory Timer
  imports Prelude "HOL-Library.Word"
begin

text \<open>
  The periodic timer of the plugins (\<^verbatim>\<open>plugins/Timer.cxx\<close>): a \<^verbatim>\<open>steady_timer\<close> of Boost.Asio whose handler starts it again.
  The event loop is a step relation; time, the completion of waits and the running of completed handlers are separate
  steps, so that a handler may run late, and the timer may be destroyed in between.
\<close>

section \<open>State\<close>

text \<open>
  What Boost.Asio documents: a wait completes once, without an error when its time has come and with
  \<^verbatim>\<open>operation_canceled\<close> when it is cancelled, by \<^verbatim>\<open>cancel\<close>, by a new expiry time or by the end of the timer; completed handlers
  are queued and cannot be cancelled any more. Times are in milliseconds.
\<close>

datatype wait_completion = Expired | Canceled | Failed

text \<open>
  \<open>fTimer\<close> is the expiry time and the number of the pending waits; \<open>tm_queue\<close> is the queue of the completed handlers.
  \<open>tm_subject\<close> is what the handler works on, and \<open>tm_calls\<close> logs the times of its calls with what it found.
\<close>

record 's timer =
  tm_now :: int
  fTimeoutMS :: "32 word"
  fTimer :: "(int \<times> nat) option"
  tm_queue :: "wait_completion list"
  tm_destroyed :: bool
  tm_subject :: 's
  tm_calls :: "(int \<times> 's) list"

definition new_timer :: "int \<Rightarrow> 's \<Rightarrow> 's timer" where
  "new_timer now x = \<lparr>tm_now = now, fTimeoutMS = 0, fTimer = None, tm_queue = [], tm_destroyed = False, tm_subject = x, tm_calls = []\<rparr>"

section \<open>Operations\<close>

text \<open>\<^verbatim>\<open>fTimer->cancel()\<close>; a null pointer is undefined behaviour.\<close>

definition cancel :: "('s timer, unit) opn" where
  "cancel = bindM (gets fTimer) (\<lambda>t. case t of
     None \<Rightarrow> raise UndefinedBehaviour
   | Some (x, n) \<Rightarrow> modify (\<lambda>s. s\<lparr>fTimer := Some (x, 0), tm_queue := tm_queue s @ replicate n Canceled\<rparr>))"

definition expires_after :: "('s timer, unit) opn" where
  "expires_after = seqM cancel
     (modify (\<lambda>s. s\<lparr>fTimer := map_option (\<lambda>(x, n). (tm_now s + uint (fTimeoutMS s), n)) (fTimer s)\<rparr>))"

definition async_wait :: "('s timer, unit) opn" where
  "async_wait = modify (\<lambda>s. s\<lparr>fTimer := map_option (\<lambda>(x, n). (x, Suc n)) (fTimer s)\<rparr>)"

definition restart :: "('s timer, unit) opn" where
  "restart = seqM expires_after async_wait"

text \<open>Making a new \<^verbatim>\<open>steady_timer\<close> destroys the old one, which cancels its waits.\<close>

definition drop_timer :: "('s timer, unit) opn" where
  "drop_timer = modify (\<lambda>s. s\<lparr>fTimer := None, tm_queue := tm_queue s @
     (case fTimer s of None \<Rightarrow> [] | Some (x, n) \<Rightarrow> replicate n Canceled)\<rparr>)"

definition Timer_Start :: "32 word \<Rightarrow> ('s timer, unit) opn" where
  "Timer_Start timeoutMS =
     seqM drop_timer (seqM (modify (\<lambda>s. s\<lparr>fTimer := Some (0, 0), fTimeoutMS := timeoutMS\<rparr>)) restart)"

definition call_handle :: "('s, bool) opn \<Rightarrow> ('s timer, bool) opn" where
  "call_handle h s = (fst (h (tm_subject s)),
     s\<lparr>tm_subject := snd (h (tm_subject s)), tm_calls := tm_calls s @ [(tm_now s, tm_subject s)]\<rparr>)"

text \<open>The handler of a wait; it holds a pointer to the timer, which it uses only when the time has come.\<close>

definition on_wait :: "('s, bool) opn \<Rightarrow> wait_completion \<Rightarrow> ('s timer, unit) opn" where
  "on_wait h ec = (if ec \<noteq> Expired then ret () else
     bindM (gets tm_destroyed) (\<lambda>gone. if gone then raise UndefinedBehaviour else
     bindM (call_handle h) (\<lambda>stop. only_if (\<not> stop) (seqM cancel restart))))"

definition destroy_timer :: "('s timer, unit) opn" where
  "destroy_timer = seqM cancel (seqM drop_timer (modify (\<lambda>s. s\<lparr>tm_destroyed := True\<rparr>)))"

section \<open>The event loop\<close>

text \<open>
  Time passes; a wait completes when its time has come, or with an error; a completed handler runs; the owner destroys the
  timer; another thread changes the subject.
\<close>

datatype 's tm_event = Elapse int | Complete | Break | Dispatch | Destroy | Meanwhile "'s \<Rightarrow> 's"

definition tm_enabled :: "'s tm_event \<Rightarrow> 's timer \<Rightarrow> bool" where
  "tm_enabled e s = (case e of
     Elapse t \<Rightarrow> tm_now s \<le> t
   | Complete \<Rightarrow> (case fTimer s of None \<Rightarrow> False | Some (x, n) \<Rightarrow> 0 < n \<and> x \<le> tm_now s)
   | Break \<Rightarrow> (case fTimer s of None \<Rightarrow> False | Some (x, n) \<Rightarrow> 0 < n)
   | Dispatch \<Rightarrow> tm_queue s \<noteq> []
   | Destroy \<Rightarrow> \<not> tm_destroyed s
   | Meanwhile f \<Rightarrow> True)"

definition complete_wait :: "wait_completion \<Rightarrow> ('s timer, unit) opn" where
  "complete_wait ec = modify (\<lambda>s. s\<lparr>fTimer := map_option (\<lambda>(x, n). (x, n - 1)) (fTimer s), tm_queue := tm_queue s @ [ec]\<rparr>)"

definition tm_handle :: "('s, bool) opn \<Rightarrow> 's tm_event \<Rightarrow> ('s timer, unit) opn" where
  "tm_handle h e = (case e of
     Elapse t \<Rightarrow> modify (\<lambda>s. s\<lparr>tm_now := t\<rparr>)
   | Complete \<Rightarrow> complete_wait Expired
   | Break \<Rightarrow> complete_wait Failed
   | Dispatch \<Rightarrow> bindM (gets tm_queue) (\<lambda>q. seqM (modify (\<lambda>s. s\<lparr>tm_queue := tl q\<rparr>)) (on_wait h (hd q)))
   | Destroy \<Rightarrow> destroy_timer
   | Meanwhile f \<Rightarrow> modify (\<lambda>s. s\<lparr>tm_subject := f (tm_subject s)\<rparr>))"

text \<open>
  The states after any events that \<open>A\<close> allows. An exception that leaves the event loop ends the process: no state follows.
\<close>

inductive tm_run :: "('s, bool) opn \<Rightarrow> ('s tm_event \<Rightarrow> 's timer \<Rightarrow> bool) \<Rightarrow> 's timer \<Rightarrow> 's timer \<Rightarrow> bool" for h A s where
  tm_refl: "tm_run h A s s"
| tm_step: "tm_run h A s t \<Longrightarrow> tm_enabled e t \<Longrightarrow> A e t \<Longrightarrow> tm_handle h e t = (Inr (), u) \<Longrightarrow> tm_run h A s u"

abbreviation started :: "int \<Rightarrow> 32 word \<Rightarrow> 's \<Rightarrow> 's timer" where
  "started t0 timeoutMS x \<equiv> snd (Timer_Start timeoutMS (new_timer t0 x))"

lemmas timer_ops = cancel_def expires_after_def async_wait_def restart_def drop_timer_def Timer_Start_def call_handle_def
  on_wait_def destroy_timer_def complete_wait_def new_timer_def

lemma started_state: "started t0 ms x =
  \<lparr>tm_now = t0, fTimeoutMS = ms, fTimer = Some (t0 + uint ms, 1), tm_queue = [], tm_destroyed = False, tm_subject = x, tm_calls = []\<rparr>"
  by (simp add: timer_ops op_simps seqM_def bindM_def)

section \<open>One wait at a time\<close>

text \<open>The calls keep the distance of the period; only the last may have asked for the end.\<close>

fun paced :: "('s, bool) opn \<Rightarrow> int \<Rightarrow> int \<Rightarrow> (int \<times> 's) list \<Rightarrow> bool" where
  "paced h t p [] = True"
| "paced h t p ((u, x) # cs) = (t + p \<le> u \<and> (cs \<noteq> [] \<longrightarrow> fst (h x) = Inr False) \<and> paced h u p cs)"

definition last_call :: "int \<Rightarrow> (int \<times> 's) list \<Rightarrow> int" where
  "last_call t cs = (if cs = [] then t else fst (last cs))"

definition stopped :: "('s, bool) opn \<Rightarrow> (int \<times> 's) list \<Rightarrow> bool" where
  "stopped h cs \<longleftrightarrow> cs \<noteq> [] \<and> fst (h (snd (last cs))) = Inr True"

lemma paced_snoc: "paced h t p (cs @ [(u, x)]) \<longleftrightarrow>
  paced h t p cs \<and> last_call t cs + p \<le> u \<and> (cs \<noteq> [] \<longrightarrow> fst (h (snd (last cs))) = Inr False)"
  by (induction cs arbitrary: t) (auto simp: last_call_def)

text \<open>
  The invariant of a timer that has been started and neither broken nor destroyed: there is one wait, pending or completed, until the
  handler has asked for the end, and none from then on.
\<close>

definition ticking :: "('s, bool) opn \<Rightarrow> int \<Rightarrow> 32 word \<Rightarrow> 's timer \<Rightarrow> bool" where
  "ticking h t0 ms s \<longleftrightarrow>
     fTimeoutMS s = ms \<and> \<not> tm_destroyed s \<and> paced h t0 (uint ms) (tm_calls s) \<and> last_call t0 (tm_calls s) \<le> tm_now s \<and>
     (if stopped h (tm_calls s) then tm_queue s = [] \<and> (\<exists>x. fTimer s = Some (x, 0))
      else (tm_calls s \<noteq> [] \<longrightarrow> fst (h (snd (last (tm_calls s)))) = Inr False) \<and>
        (tm_queue s = [] \<and> fTimer s = Some (last_call t0 (tm_calls s) + uint ms, 1) \<or>
         tm_queue s = [Expired] \<and> fTimer s = Some (last_call t0 (tm_calls s) + uint ms, 0) \<and>
           last_call t0 (tm_calls s) + uint ms \<le> tm_now s))"

definition undisturbed :: "'s tm_event \<Rightarrow> 's timer \<Rightarrow> bool" where
  "undisturbed e s \<longleftrightarrow> e \<noteq> Break \<and> e \<noteq> Destroy"

lemma ticking_started: "ticking h t0 ms (started t0 ms x)"
  by (simp add: started_state ticking_def stopped_def last_call_def)

lemma cancel_restart: "fTimer t = Some (x, 0) \<Longrightarrow>
  seqM cancel restart t = (Inr (), t\<lparr>fTimer := Some (tm_now t + uint (fTimeoutMS t), 1)\<rparr>)"
  by (simp add: timer_ops op_simps seqM_def bindM_def)

lemma Dispatch_Expired:
  assumes "tm_queue s = [Expired]" and "fTimer s = Some (x, 0)" and "\<not> tm_destroyed s"
    and "tm_handle h Dispatch s = (Inr (), u)"
  shows "\<exists>b. fst (h (tm_subject s)) = Inr b \<and>
    u = s\<lparr>tm_queue := [], tm_subject := snd (h (tm_subject s)), tm_calls := tm_calls s @ [(tm_now s, tm_subject s)],
      fTimer := Some (if b then (x, 0) else (tm_now s + uint (fTimeoutMS s), 1))\<rparr>"
proof -
  let ?s = "s\<lparr>tm_queue := [], tm_subject := snd (h (tm_subject s)), tm_calls := tm_calls s @ [(tm_now s, tm_subject s)]\<rparr>"
  have run: "tm_handle h Dispatch s = bindM (call_handle h) (\<lambda>stop. only_if (\<not> stop) (seqM cancel restart)) (s\<lparr>tm_queue := []\<rparr>)"
    using assms(1,3) by (simp add: tm_handle_def on_wait_def op_simps)
  show ?thesis
  proof (cases "fst (h (tm_subject s))")
    case (Inl f)
    with run assms(4) show ?thesis by (simp add: call_handle_def bindM_def)
  next
    case (Inr b)
    then have "tm_handle h Dispatch s = only_if (\<not> b) (seqM cancel restart) ?s"
      unfolding run by (simp add: call_handle_def bindM_def)
    moreover have "seqM cancel restart ?s = (Inr (), ?s\<lparr>fTimer := Some (tm_now s + uint (fTimeoutMS s), 1)\<rparr>)"
      using assms(2) by (subst cancel_restart) simp_all
    moreover have "only_if False m ?s = (Inr (), ?s\<lparr>fTimer := Some (x, 0)\<rparr>)" for m :: "('a timer, unit) opn"
      using assms(2) by (simp add: only_if_def ret_apply)
    ultimately have "u = ?s\<lparr>fTimer := Some (if b then (x, 0) else (tm_now s + uint (fTimeoutMS s), 1))\<rparr>"
      using assms(4) by (cases b) (simp_all add: only_if_def ret_apply)
    with Inr show ?thesis by simp
  qed
qed

lemma Dispatch_continues:
  assumes "fst (h (tm_subject s)) = Inr False" and "tm_queue s = [Expired]" and "fTimer s = Some (x, 0)" and "\<not> tm_destroyed s"
  shows "tm_handle h Dispatch s = (Inr (), s\<lparr>tm_queue := [], tm_subject := snd (h (tm_subject s)),
    tm_calls := tm_calls s @ [(tm_now s, tm_subject s)], fTimer := Some (tm_now s + uint (fTimeoutMS s), 1)\<rparr>)"
proof -
  let ?s = "s\<lparr>tm_queue := [], tm_subject := snd (h (tm_subject s)), tm_calls := tm_calls s @ [(tm_now s, tm_subject s)]\<rparr>"
  have "tm_handle h Dispatch s = only_if True (seqM cancel restart) ?s"
    using assms(1,2,4) by (simp add: tm_handle_def on_wait_def op_simps call_handle_def bindM_def)
  also have "\<dots> = (Inr (), ?s\<lparr>fTimer := Some (tm_now s + uint (fTimeoutMS s), 1)\<rparr>)"
    using assms(3) unfolding only_if_def by (simp add: cancel_restart)
  finally show ?thesis by simp
qed

lemma ticking_step:
  assumes "ticking h t0 ms s" and "tm_enabled e s" and "undisturbed e s" and "tm_handle h e s = (Inr (), u)"
  shows "ticking h t0 ms u"
proof (cases e)
  case (Elapse t)
  with assms show ?thesis by (auto simp: tm_handle_def tm_enabled_def op_simps ticking_def)
next
  case (Meanwhile f)
  with assms show ?thesis by (auto simp: tm_handle_def op_simps ticking_def)
next
  case Complete
  with assms show ?thesis
    by (auto simp: tm_handle_def tm_enabled_def timer_ops op_simps ticking_def split: if_splits)
next
  case Dispatch
  with assms(1,2) obtain x where s: "tm_queue s = [Expired]" "fTimer s = Some (x, 0)" "\<not> tm_destroyed s" "\<not> stopped h (tm_calls s)"
    "last_call t0 (tm_calls s) + uint ms \<le> tm_now s"
    by (auto simp: tm_enabled_def ticking_def split: if_splits)
  from Dispatch_Expired [OF s(1-3)] assms(4) Dispatch obtain b where b: "fst (h (tm_subject s)) = Inr b"
    "u = s\<lparr>tm_queue := [], tm_subject := snd (h (tm_subject s)), tm_calls := tm_calls s @ [(tm_now s, tm_subject s)],
      fTimer := Some (if b then (x, 0) else (tm_now s + uint (fTimeoutMS s), 1))\<rparr>" by blast
  then show ?thesis
    using assms(1) s(4,5) by (cases b) (auto simp: ticking_def paced_snoc last_call_def stopped_def)
qed (use assms(3) in \<open>simp_all add: undisturbed_def\<close>)

lemma run_ticking:
  assumes "tm_run h A (started t0 ms x) s" and "\<And>e s. A e s \<Longrightarrow> undisturbed e s"
  shows "ticking h t0 ms s"
  using assms(1)
  by (induction rule: tm_run.induct) (auto intro: ticking_started ticking_step assms(2))

text \<open>
  C22. Whatever the order of the events, a started timer has one wait at a time and calls its handler at least a period
  apart, the first time a period after the start; when the handler asks for the end, it is not called again. No step of
  the timer itself has undefined behaviour: an exception can only come from the handler.
\<close>

theorem timer_one_wait:
  assumes "tm_run h undisturbed (started t0 ms x) s"
  shows "paced h t0 (uint ms) (tm_calls s) \<and>
    (\<exists>e n. fTimer s = Some (e, n) \<and> n + length (tm_queue s) = (if stopped h (tm_calls s) then 0 else 1)) \<and>
    (\<forall>e. tm_enabled e s \<longrightarrow> undisturbed e s \<longrightarrow> (\<exists>u. tm_handle h e s = (Inr (), u)) \<or>
      e = Dispatch \<and> (\<exists>f. fst (h (tm_subject s)) = Inl f \<and> fst (tm_handle h e s) = Inl f))"
proof -
  have t: "ticking h t0 ms s" by (rule run_ticking [OF assms]) simp
  have "(\<exists>u. tm_handle h e s = (Inr (), u)) \<or>
      e = Dispatch \<and> (\<exists>f. fst (h (tm_subject s)) = Inl f \<and> fst (tm_handle h e s) = Inl f)"
    if "tm_enabled e s" "undisturbed e s" for e
  proof (cases e)
    case Dispatch
    with that(1) t obtain x where "tm_queue s = [Expired]" "fTimer s = Some (x, 0)" "\<not> tm_destroyed s"
      by (auto simp: tm_enabled_def ticking_def split: if_splits)
    with Dispatch show ?thesis
      by (cases "h (tm_subject s)"; cases "fst (h (tm_subject s))")
        (auto simp: tm_handle_def timer_ops op_simps seqM_def bindM_def only_if_def)
  qed (use that in \<open>simp_all add: tm_handle_def timer_ops op_simps undisturbed_def\<close>)
  moreover have "\<exists>e n. fTimer s = Some (e, n) \<and> n + length (tm_queue s) = (if stopped h (tm_calls s) then 0 else 1)"
    using t by (auto simp: ticking_def split: if_splits)
  ultimately show ?thesis using t unfolding ticking_def by blast
qed

definition forever :: "(nat, bool) opn" where
  "forever n = (Inr False, Suc n)"

text \<open>A period of 10 ms: time goes on to 12, the wait completes, its handler runs.\<close>

definition ticked :: "nat timer" where
  "ticked = \<lparr>tm_now = 12, fTimeoutMS = 10, fTimer = Some (22, 1), tm_queue = [], tm_destroyed = False, tm_subject = 1, tm_calls = [(12, 0)]\<rparr>"

lemma tm_steps:
  "tm_run h A s t \<Longrightarrow> tm_enabled e t \<Longrightarrow> A e t \<Longrightarrow> fst (tm_handle h e t) = Inr () \<Longrightarrow> tm_run h A s (snd (tm_handle h e t))"
  using tm_step [of h A s t e "snd (tm_handle h e t)"] by (cases "tm_handle h e t") simp

lemma due_reached:
  assumes "uint ms \<le> d" and "A (Elapse (t0 + d)) (started t0 ms x)" and "\<And>s. A Complete s"
  shows "tm_run h A (started t0 ms x) \<lparr>tm_now = t0 + d, fTimeoutMS = ms, fTimer = Some (t0 + uint ms, 0), tm_queue = [Expired],
    tm_destroyed = False, tm_subject = x, tm_calls = []\<rparr>"
proof -
  let ?s = "started t0 ms x" and ?t = "(started t0 ms x)\<lparr>tm_now := t0 + d\<rparr>"
  have "0 \<le> uint ms" by simp
  with assms(1) have d: "0 \<le> d" by linarith
  have "tm_run h A ?s ?t"
    using tm_steps [OF tm_refl, of "Elapse (t0 + d)" ?s A h] assms(2) d
    by (simp add: tm_enabled_def tm_handle_def op_simps started_state)
  from tm_steps [OF this, of Complete] assms(1,3) show ?thesis
    by (simp add: tm_enabled_def tm_handle_def complete_wait_def op_simps started_state)
qed

lemma ticked_reached: "tm_run forever undisturbed (started 0 10 0) ticked"
proof -
  let ?t = "\<lparr>tm_now = 12, fTimeoutMS = 10, fTimer = Some (10, 0), tm_queue = [Expired], tm_destroyed = False, tm_subject = 0 :: nat, tm_calls = []\<rparr>"
  have "tm_run forever undisturbed (started 0 10 0) ?t"
    using due_reached [of 10 12 undisturbed 0 "0 :: nat" forever] by (simp add: undisturbed_def)
  from tm_steps [OF this, of Dispatch] show ?thesis
    by (simp add: tm_enabled_def undisturbed_def tm_handle_def timer_ops op_simps seqM_def bindM_def only_if_def forever_def ticked_def)
qed

theorem timer_one_wait_witness: "paced forever 0 10 (tm_calls ticked) \<and> \<not> stopped forever (tm_calls ticked)"
  using timer_one_wait [OF ticked_reached] by (simp add: stopped_def ticked_def forever_def)

section \<open>How late a call can be\<close>

text \<open>The event loop is not held up for longer than \<open>d\<close>: time does not run further ahead of a wait that is due.\<close>

definition promptly :: "int \<Rightarrow> 's tm_event \<Rightarrow> 's timer \<Rightarrow> bool" where
  "promptly d e s \<longleftrightarrow> undisturbed e s \<and>
     (case (e, fTimer s) of (Elapse t, Some (x, n)) \<Rightarrow> 0 < n + length (tm_queue s) \<longrightarrow> t \<le> x + d | _ \<Rightarrow> True)"

fun within :: "int \<Rightarrow> int \<Rightarrow> (int \<times> 's) list \<Rightarrow> bool" where
  "within t b [] = True"
| "within t b ((u, x) # cs) = (u \<le> t + b \<and> within u b cs)"

lemma within_snoc: "within t b (cs @ [(u, x)]) \<longleftrightarrow> within t b cs \<and> u \<le> last_call t cs + b"
  by (induction cs arbitrary: t) (auto simp: last_call_def)

definition in_time :: "('s, bool) opn \<Rightarrow> int \<Rightarrow> int \<Rightarrow> 's timer \<Rightarrow> bool" where
  "in_time h t0 b s \<longleftrightarrow> within t0 b (tm_calls s) \<and> (\<not> stopped h (tm_calls s) \<longrightarrow> tm_now s \<le> last_call t0 (tm_calls s) + b)"

lemma in_time_step:
  assumes "ticking h t0 ms s" and "in_time h t0 (uint ms + d) s" and "0 \<le> d"
    and "tm_enabled e s" and "promptly d e s" and "tm_handle h e s = (Inr (), u)"
  shows "in_time h t0 (uint ms + d) u"
proof (cases e)
  case (Elapse t)
  with assms show ?thesis
    by (auto simp: tm_handle_def op_simps in_time_def promptly_def ticking_def split: if_splits)
next
  case (Meanwhile f)
  with assms show ?thesis by (auto simp: tm_handle_def op_simps in_time_def)
next
  case Complete
  with assms show ?thesis by (auto simp: tm_handle_def timer_ops op_simps in_time_def)
next
  case Dispatch
  with assms(1,4) obtain x where s: "tm_queue s = [Expired]" "fTimer s = Some (x, 0)" "\<not> tm_destroyed s" "\<not> stopped h (tm_calls s)"
    by (auto simp: tm_enabled_def ticking_def split: if_splits)
  from Dispatch_Expired [OF s(1-3)] assms(6) Dispatch obtain b where
    "u = s\<lparr>tm_queue := [], tm_subject := snd (h (tm_subject s)), tm_calls := tm_calls s @ [(tm_now s, tm_subject s)],
      fTimer := Some (if b then (x, 0) else (tm_now s + uint (fTimeoutMS s), 1))\<rparr>" by blast
  moreover have "0 \<le> uint ms" by simp
  ultimately show ?thesis
    using assms(2,3) s(4) by (auto simp: in_time_def within_snoc last_call_def)
qed (use assms(5) in \<open>simp_all add: promptly_def undisturbed_def\<close>)

lemma run_in_time:
  assumes "tm_run h A (started t0 ms x) s" and "\<And>e s. A e s \<Longrightarrow> promptly d e s" and "0 \<le> d"
  shows "ticking h t0 ms s \<and> in_time h t0 (uint ms + d) s"
  using assms(1)
proof (induction rule: tm_run.induct)
  case tm_refl
  have "0 \<le> uint ms" by simp
  with assms(3) show ?case
    using ticking_started [of h t0 ms x] by (simp add: started_state in_time_def last_call_def)
next
  case (tm_step t e u)
  from tm_step.hyps(3) have "promptly d e t" by (rule assms(2))
  moreover from this have "undisturbed e t" by (simp add: promptly_def)
  ultimately show ?case
    using tm_step ticking_step [of h t0 ms t e u] in_time_step [of h t0 ms t d e u] assms(3) by blast
qed

section \<open>The end of the timer\<close>

lemma Destroy_apply: "fTimer s = Some (y, n) \<Longrightarrow> tm_handle h Destroy s =
  (Inr (), s\<lparr>fTimer := None, tm_queue := tm_queue s @ replicate n Canceled, tm_destroyed := True\<rparr>)"
  by (simp add: tm_handle_def timer_ops op_simps seqM_def bindM_def)

lemma Dispatch_destroyed: "tm_destroyed s \<Longrightarrow> tm_queue s = c # q \<Longrightarrow>
  fst (tm_handle h Dispatch s) = (if c = Expired then Inl UndefinedBehaviour else Inr ())"
  by (simp add: tm_handle_def on_wait_def op_simps)

text \<open>
  Destroying a running timer is safe exactly as long as its wait has not completed. A pending wait is cancelled, and its handler does
  not touch the timer; a handler that is already queued runs on the destroyed object, which is undefined behaviour.
\<close>

theorem timer_destroyed:
  assumes "tm_run h undisturbed (started t0 ms x) s" and "\<not> stopped h (tm_calls s)"
  shows "\<exists>u. tm_handle h Destroy s = (Inr (), u) \<and>
    (fst (tm_handle h Dispatch u) = (if Expired \<in> set (tm_queue s) then Inl UndefinedBehaviour else Inr ()))"
proof -
  have "ticking h t0 ms s" by (rule run_ticking [OF assms(1)]) simp
  with assms(2) obtain y where "tm_queue s = [] \<and> fTimer s = Some (y, 1) \<or> tm_queue s = [Expired] \<and> fTimer s = Some (y, 0)"
    by (auto simp: ticking_def split: if_splits)
  then show ?thesis by (auto simp: Destroy_apply Dispatch_destroyed)
qed

theorem timer_destroyed_witness:
  "\<exists>s u. tm_run forever undisturbed (started 0 10 0) s \<and> tm_handle forever Destroy s = (Inr (), u) \<and>
     fst (tm_handle forever Dispatch u) = Inl UndefinedBehaviour"
proof -
  let ?t = "\<lparr>tm_now = 12, fTimeoutMS = 10, fTimer = Some (10, 0), tm_queue = [Expired], tm_destroyed = False, tm_subject = 0 :: nat, tm_calls = []\<rparr>"
  have t: "tm_run forever undisturbed (started 0 10 0) ?t"
    using due_reached [of 10 12 undisturbed 0 "0 :: nat" forever] by (simp add: undisturbed_def)
  from timer_destroyed [OF this] obtain u where "tm_handle forever Destroy ?t = (Inr (), u)"
    "fst (tm_handle forever Dispatch u) = Inl UndefinedBehaviour" by (auto simp: stopped_def)
  with t show ?thesis by blast
qed

text \<open>A timer that was never started has no \<^verbatim>\<open>steady_timer\<close>, and its destructor dereferences a null pointer.\<close>

lemma unstarted_destroyed: "fst (tm_handle h Destroy (new_timer t0 x)) = Inl UndefinedBehaviour"
  by (simp add: tm_handle_def timer_ops op_simps seqM_def bindM_def)

end
