(* ===== verification/Expiry.thy ===== *)
theory Expiry
  imports Registration
begin

text \<open>
  Time to live. The keys of a device expire in the registry unless the timer of the service plugin refreshes them
  (\<^verbatim>\<open>Plugin::ResetTtl\<close> and \<^verbatim>\<open>TopologyConfig::ResetTtl\<close>). This theory refines the registry by deadlines and follows the
  refreshes over time, in time and too late.
\<close>

section \<open>A registry with deadlines\<close>

text \<open>
  The documented behaviour of expiry in Redis: a key may have a deadline and is absent from then on. SETEX sets the
  deadline with the value, SET takes it away, EXPIRE sets it for a key that is there, all others leave it. Deadlines
  are in milliseconds, times to live in seconds.
\<close>

type_synonym timed = "string \<Rightarrow> (rvalue \<times> int option) option"

definition live :: "int \<Rightarrow> timed \<Rightarrow> keyspace" where
  "live now r k = (case r k of None \<Rightarrow> None
     | Some (v, d) \<Rightarrow> (case d of None \<Rightarrow> Some v | Some e \<Rightarrow> if e \<le> now then None else Some v))"

definition deadline :: "int \<Rightarrow> redis_cmd \<Rightarrow> timed \<Rightarrow> string \<Rightarrow> int option" where
  "deadline now c r k =
     (let old = (case live now r k of None \<Rightarrow> None | Some v \<Rightarrow> (case r k of None \<Rightarrow> None | Some (w, d) \<Rightarrow> d)) in
      case c of SetEx q t v \<Rightarrow> if k = q then Some (now + 1000 * t) else old
      | SetKey q v \<Rightarrow> if k = q then None else old
      | Expire q t \<Rightarrow> if k = q then Some (now + 1000 * t) else old
      | _ \<Rightarrow> old)"

definition timed_effect :: "int \<Rightarrow> redis_cmd \<Rightarrow> timed \<Rightarrow> timed" where
  "timed_effect now c r k = map_option (\<lambda>v. (v, deadline now c r k)) (cmd_effect c (live now r) k)"

definition run_pipe :: "int \<Rightarrow> pipeline \<Rightarrow> timed \<Rightarrow> timed" where
  "run_pipe now p r = fold (timed_effect now) p r"

definition gives_time :: "redis_cmd \<Rightarrow> bool" where
  "gives_time c = (case c of SetEx k t v \<Rightarrow> 0 < t | Expire k t \<Rightarrow> 0 < t | _ \<Rightarrow> True)"

text \<open>At any moment the registry with deadlines behaves like the one without.\<close>

lemma live_timed_effect: "gives_time c \<Longrightarrow> live now (timed_effect now c r) = cmd_effect c (live now r)"
proof
  fix k
  assume g: "gives_time c"
  have old: "live now r k \<noteq> None \<Longrightarrow> deadline now c r k = Some e \<Longrightarrow> now < e" for e
    using g by (cases c; cases "r k") (auto simp: live_def deadline_def gives_time_def split: if_splits option.splits)
  have new: "live now r k = None \<Longrightarrow> deadline now c r k = Some e \<Longrightarrow> now < e" for e
    using g by (cases c) (auto simp: deadline_def gives_time_def split: if_splits)
  have "now < e" if "deadline now c r k = Some e" for e
    using old [OF _ that] new [OF _ that] by blast
  then show "live now (timed_effect now c r) k = cmd_effect c (live now r) k"
    by (cases "deadline now c r k"; cases "cmd_effect c (live now r) k")
      (simp_all add: live_def [of now "timed_effect now c r"] timed_effect_def leD)
qed

lemma live_run_pipe: "\<forall>c\<in>set p. gives_time c \<Longrightarrow> live now (run_pipe now p r) = fold cmd_effect p (live now r)"
  unfolding run_pipe_def by (induction p arbitrary: r) (simp_all add: live_timed_effect)

text \<open>An absent key is absent ever after, unless it is written.\<close>

lemma live_antimono: "live s r k = None \<Longrightarrow> s \<le> t \<Longrightarrow> live t r k = None"
  by (auto simp: live_def split: option.splits if_splits)

lemma live_until: "r k = Some (v, Some e) \<Longrightarrow> live now r k = (if e \<le> now then None else Some v)"
  by (simp add: live_def)

subsection \<open>What a pipeline does to one key\<close>

definition touches :: "redis_cmd \<Rightarrow> string \<Rightarrow> bool" where
  "touches c k \<longleftrightarrow> k \<in> set (cmd_keys c) \<or> (\<exists>t. c = Expire k t)"

lemma touches_simps [simp]:
  "touches (HSet q fs) k \<longleftrightarrow> q = k" "touches (SetEx q t v) k \<longleftrightarrow> q = k" "touches (Expire q t) k \<longleftrightarrow> q = k"
  by (auto simp: touches_def)

lemma timed_effect_frame: "\<not> touches c k \<Longrightarrow> timed_effect now c r k = (if live now r k = None then None else r k)"
proof -
  assume a: "\<not> touches c k"
  have "live now r k \<noteq> None \<Longrightarrow> r k = Some (the (live now r k), deadline now c r k)"
    using a by (cases c; cases "r k") (auto simp: touches_def deadline_def live_def Let_def split: option.splits if_splits)
  moreover have "cmd_effect c (live now r) k = live now r k"
    using a by (intro cmd_effect_frame) (simp add: touches_def)
  ultimately show ?thesis by (auto simp: timed_effect_def)
qed

lemma timed_effect_Expire: "timed_effect now (Expire k t) r k = map_option (\<lambda>v. (v, Some (now + 1000 * t))) (live now r k)"
  by (simp add: timed_effect_def deadline_def)

lemma timed_effect_SetEx: "timed_effect now (SetEx k t v) r k = Some (RStr v, Some (now + 1000 * t))"
  by (simp add: timed_effect_def deadline_def)

lemma run_pipe_simps [simp]:
  "run_pipe now [] r = r" "run_pipe now (c # p) r = run_pipe now p (timed_effect now c r)"
  "run_pipe now (p @ q) r = run_pipe now q (run_pipe now p r)"
  by (simp_all add: run_pipe_def)

definition only_expires :: "pipeline \<Rightarrow> string \<Rightarrow> int \<Rightarrow> bool" where
  "only_expires p k t \<longleftrightarrow> (\<forall>c\<in>set p. touches c k \<longrightarrow> c = Expire k t)"

lemma renewed_stays:
  assumes "only_expires p k t" and "0 < t" and "r k = Some (v, Some (now + 1000 * t))"
  shows "run_pipe now p r k = Some (v, Some (now + 1000 * t))"
  using assms(1,3)
proof (induction p arbitrary: r)
  case (Cons c p)
  have "timed_effect now c r k = Some (v, Some (now + 1000 * t))"
    using Cons.prems assms(2) by (cases "touches c k")
      (auto simp: only_expires_def timed_effect_Expire timed_effect_frame live_until)
  with Cons show ?case by (simp add: only_expires_def)
qed simp

lemma live_kept:
  assumes "only_expires p k t" and "0 < t"
  shows "live now (run_pipe now p r) k = live now r k"
  using assms(1)
proof (induction p arbitrary: r)
  case (Cons c p)
  have "live now (timed_effect now c r) k = live now r k"
    using Cons.prems assms(2) by (cases "touches c k"; cases "live now r k")
      (auto simp: only_expires_def timed_effect_Expire timed_effect_frame live_def)
  with Cons show ?case by (simp add: only_expires_def)
qed simp

lemma renewed:
  assumes "only_expires p k t" and "Expire k t \<in> set p" and "0 < t" and "live now r k = Some v"
  shows "run_pipe now p r k = Some (v, Some (now + 1000 * t))"
proof -
  obtain a b where p: "p = a @ Expire k t # b" using assms(2) by (auto dest: split_list)
  with assms(1) have ab: "only_expires a k t" "only_expires b k t" by (auto simp: only_expires_def)
  have "timed_effect now (Expire k t) (run_pipe now a r) k = Some (v, Some (now + 1000 * t))"
    by (simp add: timed_effect_Expire live_kept [OF ab(1) assms(3)] assms(4))
  with renewed_stays [of b k t "timed_effect now (Expire k t) (run_pipe now a r)" v now] ab(2) assms(3)
  show ?thesis by (simp add: p)
qed

lemma rewritten:
  assumes "only_expires b k t" and "0 < t"
  shows "run_pipe now (a @ SetEx k t v # b) r k = Some (RStr v, Some (now + 1000 * t))"
  using renewed_stays [OF assms] by (simp add: timed_effect_SetEx)

section \<open>The refreshes of a device\<close>

text \<open>
  The timer calls \<open>ResetTtl\<close> at times of its own; each entry of a schedule is the time of a call and the plugin as it is
  then. The names of the keys and the time to live are those of \<open>p\<close>, and no two keys have the same name.
\<close>

type_synonym 'w schedule = "(int \<times> 'w plugin) list"

definition refreshes :: "'w platform \<Rightarrow> 'w host \<Rightarrow> 'w schedule \<Rightarrow> timed \<Rightarrow> timed" where
  "refreshes pf hs ps r = fold (\<lambda>(s, q). run_pipe s (ttl_pipe pf hs q)) ps r"

definition key_names :: "'w plugin \<Rightarrow> string list" where
  "key_names p = [health_key p, presence_key p, pl_fairMQStateKey p, pl_updateTimeKey p, pl_progOptionKeyName p]"

abbreviation ttl :: "'w plugin \<Rightarrow> int" where
  "ttl p \<equiv> 1000 * pl_maxTtl p"

definition same_keys :: "'w plugin \<Rightarrow> 'w plugin \<Rightarrow> bool" where
  "same_keys p q \<longleftrightarrow> key_names q = key_names p \<and> pl_maxTtl q = pl_maxTtl p \<and> pl_uuid q = pl_uuid p \<and> has_topology q \<and>
     fMaxTtl (topology q) = pl_maxTtl p \<and> fRegisteredKeys (topology q) = fRegisteredKeys (topology p)"

definition well_named :: "'w plugin \<Rightarrow> bool" where
  "well_named p \<longleftrightarrow> distinct (key_names p) \<and> set (key_names p) \<inter> set (fRegisteredKeys (topology p)) = {} \<and> 0 < pl_maxTtl p"

text \<open>Each refresh comes before the deadline that the one before it has set.\<close>

fun timely :: "int \<Rightarrow> int \<Rightarrow> 'w schedule \<Rightarrow> bool" where
  "timely s n [] = True"
| "timely s n ((t, q) # ps) = (s \<le> t \<and> t < s + n \<and> timely t n ps)"

fun last_time :: "int \<Rightarrow> 'w schedule \<Rightarrow> int" where
  "last_time s [] = s"
| "last_time s ((t, q) # ps) = last_time t ps"

text \<open>The pipeline of a refresh, with the time, the state and the uptime it writes.\<close>

definition refresh_pipe :: "'w plugin \<Rightarrow> string \<Rightarrow> string \<Rightarrow> string \<Rightarrow> pipeline" where
  "refresh_pipe p n x u =
     [HSet (health_key p) [(''updatedTime'', n), (''uptime'', u)], SetEx (presence_key p) (pl_maxTtl p) (pl_uuid p),
      SetEx (pl_fairMQStateKey p) (pl_maxTtl p) x, SetEx (pl_updateTimeKey p) (pl_maxTtl p) n,
      Expire (health_key p) (pl_maxTtl p), Expire (pl_progOptionKeyName p) (pl_maxTtl p)] @
     map (\<lambda>key. Expire key (pl_maxTtl p)) (fRegisteredKeys (topology p))"

lemma ttl_pipe_same: "same_keys p q \<Longrightarrow> \<exists>n x u. ttl_pipe pf hs q = refresh_pipe p n x u"
  by (simp add: ttl_pipe_def topo_ResetTtl_def same_keys_def key_names_def refresh_pipe_def Let_def)

lemma only_expires_simps [simp]:
  "only_expires [] k t" "only_expires (c # p) k t \<longleftrightarrow> (touches c k \<longrightarrow> c = Expire k t) \<and> only_expires p k t"
  "only_expires (map (\<lambda>q. Expire q t) ks) k t"
  by (auto simp: only_expires_def)

lemma only_expires_append [simp]: "only_expires (p @ q) k t \<longleftrightarrow> only_expires p k t \<and> only_expires q k t"
  by (auto simp: only_expires_def)

lemma refresh_registered:
  assumes "well_named p" and "k \<in> set (fRegisteredKeys (topology p))"
  shows "live s (run_pipe s (refresh_pipe p n x u) r) k = live s r k"
    and "live s r k = Some v \<Longrightarrow> run_pipe s (refresh_pipe p n x u) r k = Some (v, Some (s + ttl p))"
proof -
  have "only_expires (refresh_pipe p n x u) k (pl_maxTtl p)" and "Expire k (pl_maxTtl p) \<in> set (refresh_pipe p n x u)"
    using assms by (auto simp: well_named_def key_names_def refresh_pipe_def)
  with assms(1) show "live s (run_pipe s (refresh_pipe p n x u) r) k = live s r k"
    and "live s r k = Some v \<Longrightarrow> run_pipe s (refresh_pipe p n x u) r k = Some (v, Some (s + ttl p))"
    by (simp_all add: live_kept renewed well_named_def)
qed

lemma refresh_written:
  assumes "well_named p"
  shows "run_pipe s (refresh_pipe p n x u) r (presence_key p) = Some (RStr (pl_uuid p), Some (s + ttl p))"
    and "run_pipe s (refresh_pipe p n x u) r (pl_fairMQStateKey p) = Some (RStr x, Some (s + ttl p))"
    and "run_pipe s (refresh_pipe p n x u) r (pl_updateTimeKey p) = Some (RStr n, Some (s + ttl p))"
  using assms unfolding refresh_pipe_def run_pipe_simps
  by (intro renewed_stays; auto simp: well_named_def key_names_def timed_effect_Expire timed_effect_SetEx
      timed_effect_frame live_until)+

lemma refresh_health:
  assumes "well_named p"
  shows "live s r (health_key p) = Some (RHash h) \<Longrightarrow> run_pipe s (refresh_pipe p n x u) r (health_key p) =
      Some (RHash (hash_put [(''updatedTime'', n), (''uptime'', u)] h), Some (s + ttl p))"
    and "live s r (health_key p) = None \<Longrightarrow> run_pipe s (refresh_pipe p n x u) r (health_key p) =
      Some (RHash (hash_put [(''updatedTime'', n), (''uptime'', u)] []), Some (s + ttl p))"
proof -
  let ?c = "HSet (health_key p) [(''updatedTime'', n), (''uptime'', u)]"
  have tail: "only_expires (tl (refresh_pipe p n x u)) (health_key p) (pl_maxTtl p)"
    "Expire (health_key p) (pl_maxTtl p) \<in> set (tl (refresh_pipe p n x u))"
    "refresh_pipe p n x u = ?c # tl (refresh_pipe p n x u)"
    using assms by (auto simp: well_named_def key_names_def refresh_pipe_def)
  have pos: "0 < pl_maxTtl p" using assms by (simp add: well_named_def)
  have first: "live s (timed_effect s ?c r) (health_key p) = cmd_effect ?c (live s r) (health_key p)"
    by (simp add: live_timed_effect gives_time_def del: cmd_effect.simps)
  show "run_pipe s (refresh_pipe p n x u) r (health_key p) =
      Some (RHash (hash_put [(''updatedTime'', n), (''uptime'', u)] h), Some (s + ttl p))"
    if "live s r (health_key p) = Some (RHash h)"
    by (subst tail(3), unfold run_pipe_simps, rule renewed [OF tail(1,2) pos]) (simp add: first that)
  show "run_pipe s (refresh_pipe p n x u) r (health_key p) =
      Some (RHash (hash_put [(''updatedTime'', n), (''uptime'', u)] []), Some (s + ttl p))"
    if "live s r (health_key p) = None"
    by (subst tail(3), unfold run_pipe_simps, rule renewed [OF tail(1,2) pos]) (simp add: first that)
qed

text \<open>The operation of the model does to the registry what the refresh does to the one with deadlines.\<close>

lemma ResetTtl_refines:
  assumes "redis_server pf view mt" and "0 < pl_maxTtl q" and "0 < fMaxTtl (topology q)" and "view (pw q) = live now r"
  shows "view (pw (snd (ResetTtl pf hs q))) = live now (run_pipe now (ttl_pipe pf hs q) r)"
proof -
  have "\<forall>c\<in>set (ttl_pipe pf hs q). gives_time c"
    using assms(2,3) by (auto simp: ttl_pipe_def topo_ResetTtl_def Let_def gives_time_def)
  then show ?thesis by (simp add: ResetTtl_def op_simps view_pipe_exec [OF assms(1)] assms(4) live_run_pipe)
qed

section \<open>In time\<close>

text \<open>\<open>lasts e r k v\<close>: up to the moment \<open>e\<close> the key \<open>k\<close> is there with the value \<open>v\<close>.\<close>

definition lasts :: "int \<Rightarrow> timed \<Rightarrow> string \<Rightarrow> rvalue \<Rightarrow> bool" where
  "lasts e r k v \<longleftrightarrow> (\<forall>now<e. live now r k = Some v)"

lemma lasts_entry: "r k = Some (v, Some e) \<Longrightarrow> lasts e r k v"
  by (simp add: lasts_def live_until)

text \<open>
  A device is announced up to \<open>e\<close>: the keys of its topology have their values \<open>d\<close>, the presence its uuid, there is a state
  and a time of update, and the health record has all fields of \<open>h\<close> but the two that are renewed.
\<close>

definition same_health :: "string smap \<Rightarrow> string smap \<Rightarrow> bool" where
  "same_health h g \<longleftrightarrow> (\<forall>f. f \<noteq> ''updatedTime'' \<longrightarrow> f \<noteq> ''uptime'' \<longrightarrow> map_of g f = map_of h f)"

definition announced :: "'w plugin \<Rightarrow> (string \<Rightarrow> rvalue) \<Rightarrow> string smap \<Rightarrow> int \<Rightarrow> timed \<Rightarrow> bool" where
  "announced p d h e r \<longleftrightarrow>
     (\<forall>k\<in>set (fRegisteredKeys (topology p)). lasts e r k (d k)) \<and> lasts e r (presence_key p) (RStr (pl_uuid p)) \<and>
     (\<exists>x. lasts e r (pl_fairMQStateKey p) (RStr x)) \<and> (\<exists>n. lasts e r (pl_updateTimeKey p) (RStr n)) \<and>
     (\<exists>g. lasts e r (health_key p) (RHash g) \<and> same_health h g)"

lemma refresh_lasts:
  assumes "well_named p"
  shows "lasts (s + ttl p) (run_pipe s (refresh_pipe p n x u) r) (presence_key p) (RStr (pl_uuid p))"
    and "lasts (s + ttl p) (run_pipe s (refresh_pipe p n x u) r) (pl_fairMQStateKey p) (RStr x)"
    and "lasts (s + ttl p) (run_pipe s (refresh_pipe p n x u) r) (pl_updateTimeKey p) (RStr n)"
  by (rule lasts_entry, rule refresh_written [OF assms])+

lemma lasts_mono: "lasts e r k v \<Longrightarrow> f \<le> e \<Longrightarrow> lasts f r k v"
  by (simp add: lasts_def)

lemma announced_mono: "announced p d h e r \<Longrightarrow> f \<le> e \<Longrightarrow> announced p d h f r"
  unfolding announced_def by (blast intro: lasts_mono)

lemma announced_key:
  "announced p d h e r \<Longrightarrow> k \<in> set (fRegisteredKeys (topology p)) \<Longrightarrow> now < e \<Longrightarrow> live now r k = Some (d k)"
  by (simp add: announced_def lasts_def)

lemma same_health_put: "same_health h g \<Longrightarrow> same_health h (hash_put [(''updatedTime'', n), (''uptime'', u)] g)"
  by (simp add: same_health_def map_of_hash_put)

lemma refresh_announced:
  assumes "same_keys p q" and "well_named p" and "announced p d h e r" and "s < e"
  shows "announced p d h (s + ttl p) (run_pipe s (ttl_pipe pf hs q) r)"
proof -
  obtain n x u where pipe: "ttl_pipe pf hs q = refresh_pipe p n x u" using ttl_pipe_same [OF assms(1)] by blast
  obtain g where g: "live s r (health_key p) = Some (RHash g)" "same_health h g"
    using assms(3,4) unfolding announced_def lasts_def by blast
  have "live s r k = Some (d k)" if "k \<in> set (fRegisteredKeys (topology p))" for k
    using assms(3,4) that unfolding announced_def lasts_def by blast
  then have keys: "lasts (s + ttl p) (run_pipe s (refresh_pipe p n x u) r) k (d k)"
    if "k \<in> set (fRegisteredKeys (topology p))" for k
    using refresh_registered(2) [OF assms(2) that] that by (intro lasts_entry) simp
  have "lasts (s + ttl p) (run_pipe s (refresh_pipe p n x u) r) (health_key p)
      (RHash (hash_put [(''updatedTime'', n), (''uptime'', u)] g))"
    by (rule lasts_entry, rule refresh_health(1) [OF assms(2) g(1)])
  then show ?thesis
    unfolding announced_def pipe using keys refresh_lasts [OF assms(2)] same_health_put [OF g(2)] by blast
qed

text \<open>
  A device whose timer always fires before the time to live has passed stays announced: after any number of refreshes, and
  up to the deadline that the last one sets, the keys of its channels and sockets, its presence, its state and its
  health record with the address of its host are in the registry, with the values they were published with.
\<close>

theorem refreshed_keys_live:
  assumes "well_named p" and "\<forall>(s, q)\<in>set ps. same_keys p q" and "timely t0 (ttl p) ps"
    and "announced p d h (t0 + ttl p) r"
  shows "announced p d h (last_time t0 ps + ttl p) (refreshes pf hs ps r)"
  using assms(2,3,4)
proof (induction ps arbitrary: t0 r)
  case (Cons e ps)
  obtain s q where e: "e = (s, q)" by (cases e)
  with Cons.prems have "announced p d h (s + ttl p) (run_pipe s (ttl_pipe pf hs q) r)"
    by (intro refresh_announced [OF _ assms(1) Cons.prems(3)]) simp_all
  with Cons.IH [OF _ _ this] Cons.prems show ?case by (simp add: e refreshes_def)
qed (simp add: refreshes_def)

definition refreshing :: "world plugin" where
  "refreshing = sample_plugin empty_world\<lparr>presence_key := ''p'', health_key := ''h'', pl_fairMQStateKey := ''s'',
     pl_updateTimeKey := ''u'', pl_progOptionKeyName := ''o'',
     topology := topology (sample_plugin empty_world)\<lparr>fRegisteredKeys := [''c'']\<rparr>\<rparr>"

lemma refreshing_ok: "well_named refreshing" "same_keys refreshing refreshing" "pl_maxTtl refreshing = 5"
  "fRegisteredKeys (topology refreshing) = [''c'']" "presence_key refreshing = ''p''" "health_key refreshing = ''h''"
  "pl_uuid refreshing = ''uuid-1''" "pl_fairMQStateKey refreshing = ''s''" "pl_updateTimeKey refreshing = ''u''"
  "fMaxTtl (topology refreshing) = 5" "pw refreshing = empty_world"
  by (simp_all add: refreshing_def well_named_def same_keys_def key_names_def sample_plugin_def pw_def)

definition registered_sample :: timed where
  "registered_sample = map_of
     [(''p'', RStr ''uuid-1'', Some 5000), (''s'', RStr ''IDLE'', Some 5000), (''u'', RStr ''today'', Some 5000),
      (''h'', RHash [(''hostIp'', ''10.0.0.1'')], Some 5000), (''c'', RHash [(''address'', ''ipc://a'')], Some 5000)]"

lemma registered_sample_announced:
  "announced refreshing (\<lambda>k. RHash [(''address'', ''ipc://a'')]) [(''hostIp'', ''10.0.0.1'')] (0 + ttl refreshing) registered_sample"
proof -
  have entry: "registered_sample ''p'' = Some (RStr ''uuid-1'', Some 5000)" "registered_sample ''s'' = Some (RStr ''IDLE'', Some 5000)"
    "registered_sample ''u'' = Some (RStr ''today'', Some 5000)"
    "registered_sample ''h'' = Some (RHash [(''hostIp'', ''10.0.0.1'')], Some 5000)"
    "registered_sample ''c'' = Some (RHash [(''address'', ''ipc://a'')], Some 5000)"
    by (simp_all add: registered_sample_def)
  show ?thesis
    using entry [THEN lasts_entry [of registered_sample]] by (auto simp: announced_def refreshing_ok same_health_def)
qed

theorem refreshed_keys_live_witness:
  "live 10000 (refreshes ref_platform idle_host [(2000, refreshing), (6000, refreshing)] registered_sample) ''c'' =
     Some (RHash [(''address'', ''ipc://a'')])"
proof -
  let ?d = "\<lambda>k. RHash [(''address'', ''ipc://a'')]" and ?h = "[(''hostIp'', ''10.0.0.1'')]"
  have "announced refreshing ?d ?h
      (last_time 0 [(2000, refreshing), (6000, refreshing)] + ttl refreshing)
      (refreshes ref_platform idle_host [(2000, refreshing), (6000, refreshing)] registered_sample)"
    by (intro refreshed_keys_live registered_sample_announced) (simp_all add: refreshing_ok)
  then show ?thesis by (simp add: announced_def refreshing_ok lasts_def)
qed

section \<open>Too late\<close>

text \<open>What a late refresh leaves: the keys of the topology are gone, the health record has the two renewed fields only.\<close>

definition bare_health :: "string smap \<Rightarrow> bool" where
  "bare_health g \<longleftrightarrow> (\<forall>f. f \<noteq> ''updatedTime'' \<longrightarrow> f \<noteq> ''uptime'' \<longrightarrow> map_of g f = None)"

definition crippled :: "'w plugin \<Rightarrow> int \<Rightarrow> timed \<Rightarrow> bool" where
  "crippled p s r \<longleftrightarrow>
     (\<forall>k\<in>set (fRegisteredKeys (topology p)). \<forall>now\<ge>s. live now r k = None) \<and>
     lasts (s + ttl p) r (presence_key p) (RStr (pl_uuid p)) \<and>
     (\<exists>g. bare_health g \<and> (\<forall>now\<ge>s. live now r (health_key p) = (if now < s + ttl p then Some (RHash g) else None)))"

lemma bare_health_put: "bare_health g \<Longrightarrow> bare_health (hash_put [(''updatedTime'', n), (''uptime'', u)] g)"
  by (simp add: bare_health_def map_of_hash_put)

lemma late_refresh:
  assumes "same_keys p q" and "well_named p"
    and "\<forall>k\<in>set (fRegisteredKeys (topology p)). live s r k = None"
    and "live s r (health_key p) = None \<or> (\<exists>g. live s r (health_key p) = Some (RHash g) \<and> bare_health g)"
  shows "crippled p s (run_pipe s (ttl_pipe pf hs q) r)"
proof -
  obtain n x u where pipe: "ttl_pipe pf hs q = refresh_pipe p n x u" using ttl_pipe_same [OF assms(1)] by blast
  have "live now (run_pipe s (refresh_pipe p n x u) r) k = None" 
    if k: "k \<in> set (fRegisteredKeys (topology p))" and "s \<le> now" for k now
  proof -
    have "live s (run_pipe s (refresh_pipe p n x u) r) k = None"
      unfolding refresh_registered(1) [OF assms(2) k] using assms(3) k by blast
    then show ?thesis using that(2) by (rule live_antimono)
  qed
  moreover have bare: "bare_health []" by (simp add: bare_health_def)
  have "\<exists>g. bare_health g \<and>
      run_pipe s (refresh_pipe p n x u) r (health_key p) = Some (RHash g, Some (s + ttl p))"
    using assms(4)
  proof
    assume "live s r (health_key p) = None"
    with refresh_health(2) [OF assms(2)] bare_health_put [OF bare] show ?thesis by (intro exI conjI)
  next
    assume "\<exists>g. live s r (health_key p) = Some (RHash g) \<and> bare_health g"
    then obtain g where g: "live s r (health_key p) = Some (RHash g)" "bare_health g" by blast
    from bare_health_put [OF g(2)] refresh_health(1) [OF assms(2) g(1)] show ?thesis by (intro exI conjI)
  qed
  then have "\<exists>g. bare_health g \<and> (\<forall>now\<ge>s. live now (run_pipe s (refresh_pipe p n x u) r) (health_key p) =
      (if now < s + ttl p then Some (RHash g) else None))"
    by (auto simp: live_until)
  ultimately show ?thesis
    unfolding crippled_def pipe using refresh_lasts(1) [OF assms(2)] by blast
qed

lemma crippled_stays:
  assumes "same_keys p q" and "well_named p" and "crippled p s r" and "s \<le> t"
  shows "crippled p t (run_pipe t (ttl_pipe pf hs q) r)"
  using assms(3,4) by (intro late_refresh [OF assms(1,2)]) (auto simp: crippled_def)

lemma crippled_refreshes:
  assumes "well_named p" and "crippled p s r" and "\<forall>(t, q)\<in>set ps. same_keys p q" and "sorted (s # map fst ps)"
  shows "crippled p (last_time s ps) (refreshes pf hs ps r)"
  using assms(2,3,4)
proof (induction ps arbitrary: s r)
  case (Cons e ps)
  obtain t q where e: "e = (t, q)" by (cases e)
  with Cons.prems have "crippled p t (run_pipe t (ttl_pipe pf hs q) r)"
    by (intro crippled_stays [OF _ assms(1) Cons.prems(1)]) simp_all
  with Cons.IH [OF this] Cons.prems show ?case by (simp add: e refreshes_def)
qed (simp add: refreshes_def)

text \<open>
  C37. A device whose timer was late once does not recover. As soon as its keys have expired, the next refresh brings back the
  presence and a health record with two fields, and no refresh after it, however punctual, brings back the rest: the
  instance counts as present and keeps its index, but its channels, sockets and the address of its host are not in the registry.
\<close>

theorem lapsed_keys_lost:
  assumes "redis_server pf view mt" and "well_named p" and "\<forall>(t, q)\<in>set ((s, q0) # ps). same_keys p q"
    and "sorted (s # map fst ps)"
    and "\<forall>k\<in>insert (health_key p) (set (fRegisteredKeys (topology p))). live s r k = None"
    and "last_time s ps \<le> now" and "now < last_time s ps + ttl p"
    and "view w = live now (refreshes pf hs ((s, q0) # ps) r)"
  shows "rd_get pf w (presence_key p) = Some (pl_uuid p) \<and> rd_hget pf w (health_key p) ''hostIp'' = None \<and>
    (\<forall>k\<in>set (fRegisteredKeys (topology p)). view w k = None)"
proof -
  have "crippled p s (run_pipe s (ttl_pipe pf hs q0) r)"
    using assms(3,5) by (intro late_refresh [OF _ assms(2)]) simp_all
  from crippled_refreshes [OF assms(2) this _ assms(4)] assms(3)
  have c: "crippled p (last_time s ps) (refreshes pf hs ((s, q0) # ps) r)" by (simp add: refreshes_def)
  then obtain g where g: "bare_health g" "view w (health_key p) = Some (RHash g)"
    using assms(6,7) unfolding crippled_def assms(8) by auto
  have "view w (presence_key p) = Some (RStr (pl_uuid p))"
    using c assms(7) unfolding crippled_def lasts_def assms(8) by blast
  moreover have "view w k = None" if "k \<in> set (fRegisteredKeys (topology p))" for k
    using c assms(6) that unfolding crippled_def assms(8) by blast
  ultimately show ?thesis
    using g hget_hash [OF assms(1) g(2)] redis_reads [OF assms(1)] by (simp add: bare_health_def redis_reads_def)
qed

theorem lapsed_keys_lost_witness:
  "ref_view (pw (snd (ResetTtl ref_platform idle_host refreshing))) ''c'' = None \<and>
   rd_get ref_platform (pw (snd (ResetTtl ref_platform idle_host refreshing))) ''p'' = Some ''uuid-1'' \<and>
   rd_hget ref_platform (pw (snd (ResetTtl ref_platform idle_host refreshing))) ''h'' ''hostIp'' = None"
proof -
  let ?w = "pw (snd (ResetTtl ref_platform idle_host refreshing))"
  have empty: "live now Map.empty = Map.empty" for now by (rule ext) (simp add: live_def)
  have "ref_view (pw refreshing) = live 20 Map.empty"
    unfolding empty by (rule ext) (simp add: refreshing_ok empty_world_def ref_view_def)
  then have view: "ref_view ?w = live 20 (refreshes ref_platform idle_host [(20, refreshing)] Map.empty)"
    unfolding refreshes_def by (simp add: ResetTtl_refines [OF ref_redis_server] refreshing_ok)
  have "rd_get ref_platform ?w (presence_key refreshing) = Some (pl_uuid refreshing) \<and>
      rd_hget ref_platform ?w (health_key refreshing) ''hostIp'' = None \<and>
      (\<forall>k\<in>set (fRegisteredKeys (topology refreshing)). ref_view ?w k = None)"
    by (rule lapsed_keys_lost [OF ref_redis_server, where s = 20 and ps = "[]" and now = 20])
      (use view in \<open>simp_all add: refreshing_ok empty\<close>)
  then show ?thesis by (simp add: refreshing_ok)
qed

end
