(* ===== verification/Refresh.thy ===== *)
theory Refresh
  imports Timer Expiry
begin

text \<open>
  The timer of the service plugin and the time to live of its keys, composed: \<^verbatim>\<open>Plugin::SetId\<close> and \<^verbatim>\<open>Plugin::Register\<close>
  start a timer that calls \<open>ResetTtl\<close> every \<^verbatim>\<open>fTtlUpdateInterval\<close> seconds, on a thread of its own.
\<close>

section \<open>The handler and its period\<close>

text \<open>\<^verbatim>\<open>ResetTtl(); return false;\<close>\<close>

definition ttl_handler :: "'w platform \<Rightarrow> 'w host \<Rightarrow> ('w plugin, bool) opn" where
  "ttl_handler pf hs = seqM (ResetTtl pf hs) (ret False)"

text \<open>The product of \<^verbatim>\<open>long long\<close> is passed as an \<^verbatim>\<open>unsigned int\<close>.\<close>

definition ttl_period :: "int \<Rightarrow> 32 word" where
  "ttl_period fTtlUpdateInterval = word_of_int (fTtlUpdateInterval * 1000)"

lemma uint_ttl_period: "uint (ttl_period i) = (i * 1000) mod 2 ^ 32"
  unfolding ttl_period_def uint_word_of_int by simp

lemma ttl_period_small: "0 \<le> i \<Longrightarrow> i \<le> 4294967 \<Longrightarrow> uint (ttl_period i) = i * 1000"
  by (simp add: uint_ttl_period)

text \<open>A negative interval, which no option check refuses, is a period of about 49 days.\<close>

lemma negative_interval: "uint (ttl_period (-1)) = 4294966296"
  by (simp add: uint_ttl_period)

definition start_refresh :: "int \<Rightarrow> 'w plugin \<Rightarrow> 'w plugin timer" where
  "start_refresh t0 p = started t0 (ttl_period (pl_ttlUpdateInterval p)) p"

text \<open>
  The other threads of the device may change the plugin meanwhile, but not the names of its keys, and they publish no keys of channels:
  the keys are those of the running session.
\<close>

definition refreshing_only :: "int \<Rightarrow> 'w plugin \<Rightarrow> 'w plugin tm_event \<Rightarrow> 'w plugin timer \<Rightarrow> bool" where
  "refreshing_only d p e s \<longleftrightarrow> promptly d e s \<and>
     (case e of Meanwhile f \<Rightarrow> same_keys p (f (tm_subject s)) | _ \<Rightarrow> True)"

lemma ttl_handler_apply:
  "ttl_handler pf hs q = (Inr False, with_pw (pipe_exec pf (ttl_pipe pf hs q) (pw q)) q)"
  by (simp add: ttl_handler_def ResetTtl_def op_simps seqM_def bindM_def)

lemma same_keys_with_pw [simp]: "same_keys p (with_pw w q) = same_keys p q"
  by (simp add: same_keys_def key_names_def with_pw_def)

lemma never_stopped: "\<not> stopped (ttl_handler pf hs) cs"
  by (simp add: stopped_def ttl_handler_apply)

lemma subject_same:
  assumes "tm_run (ttl_handler pf hs) (refreshing_only d p) (start_refresh t0 p) s" and "same_keys p p"
  shows "same_keys p (tm_subject s) \<and> (\<forall>(t, q)\<in>set (tm_calls s). same_keys p q)"
  using assms(1)
proof (induction rule: tm_run.induct)
  case tm_refl
  with assms(2) show ?case by (simp add: start_refresh_def started_state)
next
  case (tm_step t e u)
  have ticking: "ticking (ttl_handler pf hs) t0 (ttl_period (pl_ttlUpdateInterval p)) t"
    using tm_step.hyps(1) unfolding start_refresh_def
    by (rule run_ticking) (simp add: refreshing_only_def promptly_def)
  show ?case
  proof (cases e)
    case Dispatch
    with tm_step.hyps(2) ticking obtain x where "tm_queue t = [Expired]" "fTimer t = Some (x, 0)" "\<not> tm_destroyed t"
      by (auto simp: tm_enabled_def ticking_def split: if_splits)
    from Dispatch_Expired [OF this] tm_step.hyps(4) Dispatch obtain b where
      "u = t\<lparr>tm_queue := [], tm_subject := snd (ttl_handler pf hs (tm_subject t)),
         tm_calls := tm_calls t @ [(tm_now t, tm_subject t)],
         fTimer := Some (if b then (x, 0) else (tm_now t + uint (fTimeoutMS t), 1))\<rparr>" by blast
    with tm_step.IH show ?thesis by (auto simp: ttl_handler_apply)
  qed (use tm_step in \<open>auto simp: tm_handle_def complete_wait_def op_simps refreshing_only_def promptly_def undisturbed_def\<close>)
qed

section \<open>The keys of a running device\<close>

lemma timely_calls:
  assumes "paced h t p cs" and "within t b cs" and "0 \<le> p" and "b < n"
  shows "timely t n cs \<and> last_time t cs = last_call t cs"
  using assms
  by (induction cs arbitrary: t) (fastforce simp: last_call_def)+



section \<open>A refresh after the end\<close>

text \<open>
  The timer thread is detached as soon as it has been made, so that the destructor of the plugin does not wait for it: a \<open>ResetTtl\<close> that
  is running then may come after \<open>Unregister\<close>. It brings the instance back, present and with a state, but only until the time to
  live has passed; from then on nothing is left.
\<close>

theorem stray_refresh:
  assumes "same_keys p q" and "well_named p"
    and "\<forall>k\<in>set (key_names p) \<union> set (fRegisteredKeys (topology p)). live s r k = None"
  shows "lasts (s + ttl p) (run_pipe s (ttl_pipe pf hs q) r) (presence_key p) (RStr (pl_uuid p)) \<and>
    (\<forall>k\<in>set (key_names p) \<union> set (fRegisteredKeys (topology p)). \<forall>now\<ge>s + ttl p.
       live now (run_pipe s (ttl_pipe pf hs q) r) k = None)"
proof -
  obtain n x u where pipe: "ttl_pipe pf hs q = refresh_pipe p n x u" using ttl_pipe_same [OF assms(1)] by blast
  let ?R = "run_pipe s (refresh_pipe p n x u) r"
  have pos: "s \<le> s + ttl p" using assms(2) by (simp add: well_named_def)
  have "only_expires (refresh_pipe p n x u) (pl_progOptionKeyName p) (pl_maxTtl p)"
    using assms(2) by (auto simp: well_named_def key_names_def refresh_pipe_def)
  from live_kept [OF this, of s r] assms(2,3) have option: "live s ?R (pl_progOptionKeyName p) = None"
    by (simp add: well_named_def key_names_def)
  have registered: "live s ?R k = None" if "k \<in> set (fRegisteredKeys (topology p))" for k
    unfolding refresh_registered(1) [OF assms(2) that] using assms(3) that by blast
  have "live s r (health_key p) = None" using assms(3) by (simp add: key_names_def)
  note entries = refresh_written [OF assms(2), of s n x u r] refresh_health(2) [OF assms(2) this, of n x u]
  have gone: "?R k = Some (v, Some (s + ttl p)) \<Longrightarrow> s + ttl p \<le> now \<Longrightarrow> live now ?R k = None" for k v now
    by (simp add: live_until [of ?R])
  have "live now ?R k = None" if "k \<in> set (key_names p) \<union> set (fRegisteredKeys (topology p))" and "s + ttl p \<le> now" for k now
    using that live_antimono [OF option, of now] live_antimono [OF registered, of k now] pos
    by (auto simp: key_names_def gone [OF entries(1)] gone [OF entries(2)] gone [OF entries(3)] gone [OF entries(4)])
  with refresh_lasts(1) [OF assms(2)] show ?thesis unfolding pipe by blast
qed

end
