(* ===== verification/Devices.thy ===== *)
theory Devices
  imports Parameters
begin

text \<open>
  The example devices (\<^verbatim>\<open>examples/Sampler.cxx\<close>, \<^verbatim>\<open>examples/Sink.cxx\<close>): a source that sends numbered texts on all its
  sub-channels, and a sink that counts what it receives and drains its channel when a run ends. FairMQ calls the member functions.
\<close>

section \<open>The transport\<close>

text \<open>
  What the devices use of FairMQ: properties, the number of sub-channels, sending and receiving. A negative number is a transfer code of
  failure; otherwise \<open>mq_receive\<close> gives the number of bytes and the parts of the message, of which there is one unless the first argument,
  multipart, is set.
\<close>

record 'w mq =
  mq_prop :: "'w \<Rightarrow> string \<Rightarrow> string option"
  mq_subs :: "'w \<Rightarrow> string \<Rightarrow> nat"
  mq_send :: "string \<Rightarrow> string \<Rightarrow> nat \<Rightarrow> 'w \<Rightarrow> int \<times> 'w"
  mq_receive :: "bool \<Rightarrow> string \<Rightarrow> 'w \<Rightarrow> (int \<times> string list) \<times> 'w"
  mq_sleep :: "'w \<Rightarrow> 'w"

section \<open>Sampler\<close>

record 'w sampler =
  sm_id :: string
  fOutputChannelName :: string
  fText :: string
  fMaxIterations :: "64 word"
  fNumIterations :: "64 word"
  fNumSubChannels :: nat
  sm_world :: 'w

definition new_sampler :: "'w \<Rightarrow> 'w sampler" where
  "new_sampler w = \<lparr>sm_id = [], fOutputChannelName = [], fText = [], fMaxIterations = 0, fNumIterations = 0, fNumSubChannels = 0, sm_world = w\<rparr>"

definition sm_prop :: "'w mq \<Rightarrow> string \<Rightarrow> ('w sampler, string) opn" where
  "sm_prop mq k = asks (\<lambda>s. case mq_prop mq (sm_world s) k of None \<Rightarrow> Inl (Failure ''property not found'') | Some v \<Rightarrow> Inr v)"

definition Sampler_InitTask :: "'w mq \<Rightarrow> ('w sampler, unit) opn" where
  "Sampler_InitTask mq =
     bindM (sm_prop mq ''id'') (\<lambda>v. seqM (modify (\<lambda>s. s\<lparr>sm_id := v\<rparr>))
    (bindM (sm_prop mq ''out-chan-name'') (\<lambda>v. seqM (modify (\<lambda>s. s\<lparr>fOutputChannelName := v\<rparr>))
    (bindM (sm_prop mq ''text'') (\<lambda>v. seqM (modify (\<lambda>s. s\<lparr>fText := v\<rparr>))
    (bindM (sm_prop mq ''max-iterations'') (\<lambda>v. bindM (lift_res (stoull v)) (\<lambda>n.
     seqM (modify (\<lambda>s. s\<lparr>fMaxIterations := n\<rparr>))
          (modify (\<lambda>s. s\<lparr>fNumSubChannels := mq_subs mq (sm_world s) (fOutputChannelName s)\<rparr>))))))))))"

definition sample_text :: "'w sampler \<Rightarrow> nat \<Rightarrow> string" where
  "sample_text s i = sm_id s @ ''['' @ show_nat i @ '']:'' @ fText s @ '' : '' @ show_nat (unat (fNumIterations s))"

definition sm_send :: "'w mq \<Rightarrow> string \<Rightarrow> nat \<Rightarrow> ('w sampler, int) opn" where
  "sm_send mq txt i s = (Inr (fst (mq_send mq txt (fOutputChannelName s) i (sm_world s))),
     s\<lparr>sm_world := snd (mq_send mq txt (fOutputChannelName s) i (sm_world s))\<rparr>)"

text \<open>The loop over the sub-channels; the value is false when sending has failed.\<close>

fun send_subs :: "'w mq \<Rightarrow> nat list \<Rightarrow> ('w sampler, bool) opn" where
  "send_subs mq [] = ret True"
| "send_subs mq (i # is) = bindM (gets (\<lambda>s. sample_text s i)) (\<lambda>txt. bindM (sm_send mq txt i) (\<lambda>n.
     if n < 0 then ret False else send_subs mq is))"

definition Sampler_ConditionalRun :: "'w mq \<Rightarrow> ('w sampler, bool) opn" where
  "Sampler_ConditionalRun mq =
     bindM (gets fNumSubChannels) (\<lambda>n. bindM (send_subs mq [0..<n]) (\<lambda>sent.
       if \<not> sent then ret False
       else seqM (modify (\<lambda>s. s\<lparr>fNumIterations := fNumIterations s + 1\<rparr>))
                 (gets (\<lambda>s. \<not> (0 < fMaxIterations s \<and> fMaxIterations s \<le> fNumIterations s)))))"

definition Sampler_PostRun :: "('w sampler, unit) opn" where
  "Sampler_PostRun = modify (\<lambda>s. s\<lparr>fNumIterations := 0\<rparr>)"

section \<open>Sink\<close>

text \<open>\<open>sk_multipart\<close> is the handler that is registered with \<^verbatim>\<open>OnData\<close>.\<close>

record 'w sink =
  fInputChannelName :: string
  fNumMessages :: "64 word"
  sk_multipart :: bool
  sk_world :: 'w

definition is_multipart :: "string \<Rightarrow> bool" where
  "is_multipart v \<longleftrightarrow> v = ''true'' \<or> v = ''1''"

definition sk_prop :: "'w mq \<Rightarrow> string \<Rightarrow> ('w sink, string) opn" where
  "sk_prop mq k = asks (\<lambda>s. case mq_prop mq (sk_world s) k of None \<Rightarrow> Inl (Failure ''property not found'') | Some v \<Rightarrow> Inr v)"

definition HandleData :: "string \<Rightarrow> ('w sink, bool) opn" where
  "HandleData msg = seqM (modify (\<lambda>s. s\<lparr>fNumMessages := fNumMessages s + 1\<rparr>)) (ret True)"

definition HandleMultipartData :: "string list \<Rightarrow> ('w sink, bool) opn" where
  "HandleMultipartData parts =
     seqM (for_each parts (\<lambda>msg. modify (\<lambda>s. s\<lparr>fNumMessages := fNumMessages s + 1\<rparr>))) (ret True)"

definition Sink_Init :: "('w sink, unit) opn" where
  "Sink_Init = modify (\<lambda>s. s\<lparr>fNumMessages := 0\<rparr>)"

definition Sink_InitTask :: "'w mq \<Rightarrow> ('w sink, unit) opn" where
  "Sink_InitTask mq =
     bindM (sk_prop mq ''in'') (\<lambda>v. seqM (modify (\<lambda>s. s\<lparr>fInputChannelName := v\<rparr>))
    (bindM (sk_prop mq ''multipart'') (\<lambda>m. modify (\<lambda>s. s\<lparr>sk_multipart := is_multipart m\<rparr>))))"

definition sk_receive :: "'w mq \<Rightarrow> bool \<Rightarrow> ('w sink, int \<times> string list) opn" where
  "sk_receive mq multi s = (Inr (fst (mq_receive mq multi (fInputChannelName s) (sk_world s))),
     s\<lparr>sk_world := snd (mq_receive mq multi (fInputChannelName s) (sk_world s))\<rparr>)"

text \<open>One round of the loop of \<^verbatim>\<open>PostRun\<close>: false when nothing was received.\<close>

definition drain_round :: "'w mq \<Rightarrow> ('w sink, bool) opn" where
  "drain_round mq = bindM (sk_prop mq ''multipart'') (\<lambda>m. bindM (sk_receive mq (is_multipart m)) (\<lambda>(n, parts).
     if n \<le> 0 then ret False
     else if is_multipart m then HandleMultipartData parts else HandleData (concat parts)))"

definition sk_sleep :: "'w mq \<Rightarrow> 'w sink \<Rightarrow> 'w sink" where
  "sk_sleep mq s = s\<lparr>sk_world := mq_sleep mq (sk_world s)\<rparr>"

text \<open>The loop; a loop that never ends has no value.\<close>

partial_function (option) drain :: "'w mq \<Rightarrow> nat \<Rightarrow> 'w sink \<Rightarrow> (unit res \<times> 'w sink) option" where
  "drain mq nrecv s = (let (r, t) = drain_round mq s in case r of
       Inl e \<Rightarrow> Some (Inl e, t)
     | Inr received \<Rightarrow>
         if received then drain mq nrecv t
         else if 10 < Suc nrecv then Some (Inr (), t)
         else drain mq (Suc nrecv) (sk_sleep mq t))"

definition Sink_PostRun :: "'w mq \<Rightarrow> ('w sink, unit) opn" where
  "Sink_PostRun mq s = (case drain mq 0 s of None \<Rightarrow> (Inl NoReturn, s) | Some r \<Rightarrow> r)"

section \<open>When the sink stops\<close>

lemma drain_round_apply:
  assumes "mq_prop mq (sk_world s) ''multipart'' = Some m"
    and "mq_receive mq (is_multipart m) (fInputChannelName s) (sk_world s) = ((n, parts), w)"
  shows "drain_round mq s = (Inr (0 < n), s\<lparr>sk_world := w, fNumMessages := fNumMessages s +
    (if n \<le> 0 then 0 else if is_multipart m then of_nat (length parts) else 1)\<rparr>)"
proof -
  have count: "for_each parts (\<lambda>msg. modify (\<lambda>s. s\<lparr>fNumMessages := fNumMessages s + 1\<rparr>)) t =
      (Inr (), t\<lparr>fNumMessages := fNumMessages t + of_nat (length parts)\<rparr>)" for t :: "'a sink"
    by (induction parts arbitrary: t) (simp_all add: op_simps add.assoc)
  show ?thesis
    using assms
    by (simp add: drain_round_def sk_prop_def sk_receive_def HandleData_def HandleMultipartData_def op_simps bindM_def seqM_def count)
qed

text \<open>
  What the channel gives in the course of time: the world of the next round, and whether the round fails. The properties
  do not change meanwhile.
\<close>

definition rx_fails :: "'w mq \<Rightarrow> bool \<Rightarrow> string \<Rightarrow> 'w \<Rightarrow> bool" where
  "rx_fails mq m c w \<longleftrightarrow> fst (fst (mq_receive mq m c w)) \<le> 0"

definition rx_next :: "'w mq \<Rightarrow> bool \<Rightarrow> string \<Rightarrow> 'w \<Rightarrow> 'w" where
  "rx_next mq m c w = (if rx_fails mq m c w then mq_sleep mq (snd (mq_receive mq m c w)) else snd (mq_receive mq m c w))"

fun failures :: "'w mq \<Rightarrow> bool \<Rightarrow> string \<Rightarrow> nat \<Rightarrow> 'w \<Rightarrow> nat" where
  "failures mq m c 0 w = 0"
| "failures mq m c (Suc k) w = (if rx_fails mq m c w then 1 else 0) + failures mq m c k (rx_next mq m c w)"

lemma drain_unfold:
  assumes "mq_prop mq (sk_world s) ''multipart'' = Some v" and "m = is_multipart v"
  shows "\<exists>n. drain mq nrecv s =
    (let t = s\<lparr>sk_world := snd (mq_receive mq m (fInputChannelName s) (sk_world s)), fNumMessages := n\<rparr> in
     if \<not> rx_fails mq m (fInputChannelName s) (sk_world s) then drain mq nrecv t
     else if 10 \<le> nrecv then Some (Inr (), t) else drain mq (Suc nrecv) (sk_sleep mq t))"
proof -
  obtain n parts w where rx: "mq_receive mq m (fInputChannelName s) (sk_world s) = ((n, parts), w)" by (metis prod.collapse)
  show ?thesis
    using drain_round_apply [OF assms(1), of n parts w] rx unfolding assms(2)
    by (intro exI [of _ "fNumMessages s + (if n \<le> 0 then 0 else if is_multipart v then of_nat (length parts) else 1)"], subst drain.simps)
      (simp add: rx_fails_def Let_def not_le)
qed

lemma drain_None:
  assumes "\<And>w. mq_prop mq w ''multipart'' = Some v" and "m = is_multipart v"
    and "nrecv \<le> 10" and "10 < nrecv + failures mq m (fInputChannelName s) k (sk_world s)"
  shows "\<exists>t. drain mq nrecv s = Some (Inr (), t)"
  using assms(3,4)
proof (induction k arbitrary: s nrecv)
  case (Suc k)
  let ?c = "fInputChannelName s" and ?w = "sk_world s"
  obtain n where d: "drain mq nrecv s =
    (let t = s\<lparr>sk_world := snd (mq_receive mq m ?c ?w), fNumMessages := n\<rparr> in
     if \<not> rx_fails mq m ?c ?w then drain mq nrecv t
     else if 10 \<le> nrecv then Some (Inr (), t) else drain mq (Suc nrecv) (sk_sleep mq t))"
    using drain_unfold [OF assms(1,2)] by blast
  let ?t = "s\<lparr>sk_world := snd (mq_receive mq m ?c ?w), fNumMessages := n\<rparr>"
  show ?case
  proof (cases "rx_fails mq m ?c ?w")
    case False
    with Suc.prems Suc.IH [of nrecv ?t] show ?thesis by (simp add: d rx_next_def)
  next
    case True
    with Suc.prems Suc.IH [of "Suc nrecv" "sk_sleep mq ?t"] show ?thesis
      unfolding d by (cases "nrecv = 10") (simp_all add: rx_next_def sk_sleep_def Let_def)
  qed
qed simp

lemma drain_Some:
  assumes "drain mq nrecv s = Some res" and "\<And>w. mq_prop mq w ''multipart'' = Some v" and "m = is_multipart v" and "nrecv \<le> 10"
  shows "\<exists>k. nrecv + failures mq m (fInputChannelName s) k (sk_world s) = 11"
proof -
  have "(\<forall>w. mq_prop mq w ''multipart'' = Some v) \<longrightarrow> nrecv \<le> 10 \<longrightarrow>
      (\<exists>k. nrecv + failures mq m (fInputChannelName s) k (sk_world s) = 11)"
  proof (rule drain.raw_induct [where P = "\<lambda>mq nrecv s res. (\<forall>w. mq_prop mq w ''multipart'' = Some v) \<longrightarrow> nrecv \<le> 10 \<longrightarrow>
      (\<exists>k. nrecv + failures mq m (fInputChannelName s) k (sk_world s) = 11)", OF _ assms(1)], goal_cases)
    case (1 loop mq nrecv s res)
    show ?case
    proof (intro impI)
      assume v: "\<forall>w. mq_prop mq w ''multipart'' = Some v" and nrecv: "nrecv \<le> 10"
      let ?c = "fInputChannelName s" and ?w = "sk_world s"
      obtain n parts w where rx: "mq_receive mq m ?c ?w = ((n, parts), w)" by (metis prod.collapse)
      note round = drain_round_apply [of mq s v n parts w, folded assms(3), OF spec [OF v] rx]
      let ?t = "s\<lparr>sk_world := w, fNumMessages := fNumMessages s + (if n \<le> 0 then 0 else if m then of_nat (length parts) else 1)\<rparr>"
      show "\<exists>k. nrecv + failures mq m ?c k ?w = 11"
      proof (cases "0 < n")
        case True
        with 1(2) have "loop mq nrecv ?t = Some res" by (simp add: round)
        from 1(1) [OF this] v nrecv obtain k where "nrecv + failures mq m ?c k w = 11" by auto
        with True have "nrecv + failures mq m ?c (Suc k) ?w = 11" by (simp add: rx_fails_def rx_next_def rx)
        then show ?thesis by blast
      next
        case fail: False
        show ?thesis
        proof (cases "nrecv = 10")
          case True
          with fail have "nrecv + failures mq m ?c 1 ?w = 11" by (simp add: rx_fails_def rx)
          then show ?thesis by blast
        next
          case False
          with nrecv fail 1(2) have "loop mq (Suc nrecv) (sk_sleep mq ?t) = Some res" by (simp add: round)
          from 1(1) [OF this] v nrecv False obtain k where "Suc nrecv + failures mq m ?c k (mq_sleep mq w) = 11"
            by (auto simp: sk_sleep_def)
          with fail have "nrecv + failures mq m ?c (Suc k) ?w = 11" by (simp add: rx_fails_def rx_next_def rx)
          then show ?thesis by blast
        qed
      qed
    qed
  qed
  with assms(2,4) show ?thesis by blast
qed

text \<open>
  C39. The draining at the end of a run ends if and only if receiving fails eleven times, at any moments: a channel
  that goes on delivering holds the device in its run, and failures count although messages come in between.
\<close>

theorem sink_drain_ends:
  assumes "\<And>w. mq_prop mq w ''multipart'' = Some v"
  shows "fst (Sink_PostRun mq s) \<noteq> Inl NoReturn \<longleftrightarrow>
    (\<exists>k. failures mq (is_multipart v) (fInputChannelName s) k (sk_world s) = 11)"
proof
  assume "fst (Sink_PostRun mq s) \<noteq> Inl NoReturn"
  then obtain res where "drain mq 0 s = Some res" by (cases "drain mq 0 s") (simp_all add: Sink_PostRun_def)
  from drain_Some [OF this assms refl] show "\<exists>k. failures mq (is_multipart v) (fInputChannelName s) k (sk_world s) = 11" by simp
next
  assume "\<exists>k. failures mq (is_multipart v) (fInputChannelName s) k (sk_world s) = 11"
  then obtain k where "failures mq (is_multipart v) (fInputChannelName s) k (sk_world s) = 11" ..
  with drain_None [OF assms refl, of 0 s k] show "fst (Sink_PostRun mq s) \<noteq> Inl NoReturn" by (auto simp: Sink_PostRun_def)
qed

section \<open>From the sampler to the sink\<close>

text \<open>
  A channel that keeps what it is given, in order, for the one receiver: sending a text succeeds and appends it, receiving takes the
  first text, with its length as the number of bytes, or fails when there is none. Properties are constant.
\<close>

definition fifo :: "'w mq \<Rightarrow> ('w \<Rightarrow> string list) \<Rightarrow> string \<Rightarrow> string \<Rightarrow> bool" where
  "fifo mq view out inp \<longleftrightarrow>
     (\<forall>txt i w. 0 \<le> fst (mq_send mq txt out i w) \<and> view (snd (mq_send mq txt out i w)) = view w @ [txt]) \<and>
     (\<forall>m w. (case view w of
        [] \<Rightarrow> fst (fst (mq_receive mq m inp w)) \<le> 0 \<and> view (snd (mq_receive mq m inp w)) = []
      | t # ts \<Rightarrow> fst (mq_receive mq m inp w) = (int (length t), [t]) \<and> view (snd (mq_receive mq m inp w)) = ts)) \<and>
     (\<forall>w. view (mq_sleep mq w) = view w)"

lemma fifo_receive:
  assumes "fifo mq view out inp" and "mq_receive mq m inp w = ((n, parts), v)"
  shows "view w = [] \<Longrightarrow> n \<le> 0 \<and> view v = []"
    and "view w = t # ts \<Longrightarrow> n = int (length t) \<and> parts = [t] \<and> view v = ts"
proof -
  have "case view w of [] \<Rightarrow> fst (fst (mq_receive mq m inp w)) \<le> 0 \<and> view (snd (mq_receive mq m inp w)) = []
     | t # ts \<Rightarrow> fst (mq_receive mq m inp w) = (int (length t), [t]) \<and> view (snd (mq_receive mq m inp w)) = ts"
    using assms(1) unfolding fifo_def by blast
  with assms(2) show "view w = [] \<Longrightarrow> n \<le> 0 \<and> view v = []"
    and "view w = t # ts \<Longrightarrow> n = int (length t) \<and> parts = [t] \<and> view v = ts" by simp_all
qed

text \<open>The texts of the events from number \<open>i\<close> on, on \<open>n\<close> sub-channels.\<close>

definition event_texts :: "'w sampler \<Rightarrow> nat \<Rightarrow> nat \<Rightarrow> string list" where
  "event_texts s n i = map (\<lambda>c. sample_text (s\<lparr>fNumIterations := of_nat i\<rparr>) c) [0..<n]"

fun calls_of :: "nat \<Rightarrow> ('s, bool) opn \<Rightarrow> 's \<Rightarrow> bool res list \<times> 's" where
  "calls_of 0 f s = ([], s)"
| "calls_of (Suc k) f s = (fst (f s) # fst (calls_of k f (snd (f s))), snd (calls_of k f (snd (f s))))"

lemma sample_text_world [simp]: "sample_text (s\<lparr>sm_world := w\<rparr>) i = sample_text s i"
  by (simp add: sample_text_def)

lemma send_subs_fifo:
  assumes "fifo mq view out inp" and "fOutputChannelName s = out"
  shows "\<exists>w. send_subs mq is s = (Inr True, s\<lparr>sm_world := w\<rparr>) \<and> view w = view (sm_world s) @ map (sample_text s) is"
  using assms(2)
proof (induction "is" arbitrary: s)
  case Nil
  then show ?case by (simp add: op_simps) (metis (full_types) sampler.surjective sampler.update_convs(7))
next
  case (Cons i "is")
  obtain n v where sent: "mq_send mq (sample_text s i) out i (sm_world s) = (n, v)" by fastforce
  then have "0 \<le> n" "view v = view (sm_world s) @ [sample_text s i]"
    using assms(1) unfolding fifo_def by (metis fst_conv, metis snd_conv)
  moreover obtain w where "send_subs mq is (s\<lparr>sm_world := v\<rparr>) = (Inr True, s\<lparr>sm_world := w\<rparr>)"
    "view w = view v @ map (sample_text s) is"
    using Cons.IH [of "s\<lparr>sm_world := v\<rparr>"] Cons.prems by (auto simp: comp_def)
  ultimately show ?case using sent Cons.prems by (intro exI [of _ w]) (simp add: op_simps bindM_def sm_send_def)
qed

lemma conditional_run_fifo:
  assumes "fifo mq view out inp" and "fOutputChannelName s = out"
  shows "\<exists>w. Sampler_ConditionalRun mq s =
      (Inr (\<not> (0 < fMaxIterations s \<and> fMaxIterations s \<le> fNumIterations s + 1)),
       s\<lparr>sm_world := w, fNumIterations := fNumIterations s + 1\<rparr>) \<and>
    view w = view (sm_world s) @ map (sample_text s) [0..<fNumSubChannels s]"
proof -
  obtain w where "send_subs mq [0..<fNumSubChannels s] s = (Inr True, s\<lparr>sm_world := w\<rparr>)"
    "view w = view (sm_world s) @ map (sample_text s) [0..<fNumSubChannels s]"
    using send_subs_fifo [OF assms] by blast
  then show ?thesis by (intro exI [of _ w]) (simp add: Sampler_ConditionalRun_def op_simps bindM_def seqM_def)
qed

lemma word_reached: "0 < m \<Longrightarrow> m < 2 ^ 64 \<Longrightarrow> i < m \<Longrightarrow>
  (0 < (of_nat m :: 64 word) \<and> of_nat m \<le> (of_nat i :: 64 word) + 1) \<longleftrightarrow> Suc i = m"
proof -
  assume m: "0 < m" "m < 2 ^ 64" "i < m"
  then have "unat (of_nat m :: 64 word) = m" "unat (of_nat (Suc i) :: 64 word) = Suc i"
    by (simp_all only: unat_of_nat) simp_all
  moreover have "(of_nat i :: 64 word) + 1 = of_nat (Suc i)" by simp
  ultimately show ?thesis using m by (simp only: word_less_nat_alt word_le_nat_alt unat_0) arith
qed

lemma calls_fifo:
  assumes "fifo mq view out inp" and "0 < m" and "m < 2 ^ 64" and "j + k \<le> m"
    and "fOutputChannelName s = out" and "fMaxIterations s = of_nat m" and "fNumIterations s = of_nat j"
  shows "\<exists>w. calls_of k (Sampler_ConditionalRun mq) s =
      (map (\<lambda>i. Inr (Suc i < m)) [j..<j + k], s\<lparr>sm_world := w, fNumIterations := of_nat (j + k)\<rparr>) \<and>
    view w = view (sm_world s) @ concat (map (event_texts s (fNumSubChannels s)) [j..<j + k])"
  using assms(4-7)
proof (induction k arbitrary: j s)
  case 0
  then show ?case by (intro exI [of _ "sm_world s"]) simp
next
  case (Suc k)
  have more: "(\<not> (0 < fMaxIterations s \<and> fMaxIterations s \<le> fNumIterations s + 1)) = (Suc j < m)"
    using word_reached [OF assms(2,3), of j] Suc.prems by auto
  obtain v where v: "Sampler_ConditionalRun mq s = (Inr (Suc j < m), s\<lparr>sm_world := v, fNumIterations := fNumIterations s + 1\<rparr>)"
    "view v = view (sm_world s) @ map (sample_text s) [0..<fNumSubChannels s]"
    using conditional_run_fifo [OF assms(1) Suc.prems(2)] unfolding more by blast
  let ?t = "s\<lparr>sm_world := v, fNumIterations := fNumIterations s + 1\<rparr>"
  obtain w where w: "calls_of k (Sampler_ConditionalRun mq) ?t =
      (map (\<lambda>i. Inr (Suc i < m)) [Suc j..<Suc j + k], ?t\<lparr>sm_world := w, fNumIterations := of_nat (Suc j + k)\<rparr>)"
    "view w = view (sm_world ?t) @ concat (map (event_texts ?t (fNumSubChannels ?t)) [Suc j..<Suc j + k])"
    using Suc.IH [of "Suc j" ?t] Suc.prems by auto
  have "event_texts ?t = event_texts s" by (intro ext) (simp add: event_texts_def sample_text_def)
  moreover have "event_texts s n j = map (sample_text s) [0..<n]" for n
    using Suc.prems(4) by (simp add: event_texts_def sample_text_def)
  moreover have "[j..<j + Suc k] = j # [Suc j..<Suc j + k]" by (simp add: upt_conv_Cons)
  ultimately show ?case using v w by (intro exI [of _ w]) (simp del: upt_Suc)
qed

lemma drain_fifo:
  assumes "fifo mq view out inp" and "\<And>w. mq_prop mq w ''multipart'' = Some v"
    and "fInputChannelName s = inp" and "[] \<notin> set (view (sk_world s))" and "nrecv \<le> 10"
  shows "\<exists>w. drain mq nrecv s = Some (Inr (), s\<lparr>sk_world := w,
      fNumMessages := fNumMessages s + of_nat (length (view (sk_world s)))\<rparr>) \<and> view w = []"
  using assms(3-5)
proof (induction "length (view (sk_world s)) + (10 - nrecv)" arbitrary: s nrecv rule: less_induct)
  case less
  obtain n parts w where rx: "mq_receive mq (is_multipart v) inp (sk_world s) = ((n, parts), w)" by (metis prod.collapse)
  note round = drain_round_apply [OF assms(2), of "s" n parts w, unfolded less.prems(1), OF rx]
  show ?case
  proof (cases "view (sk_world s)")
    case Nil
    then have n: "n \<le> 0" "view w = []" using fifo_receive(1) [OF assms(1) rx] by simp_all
    show ?thesis
    proof (cases "nrecv = 10")
      case True
      with n round Nil show ?thesis by (intro exI [of _ w], subst drain.simps) simp
    next
      case False
      let ?t = "sk_sleep mq (s\<lparr>sk_world := w\<rparr>)"
      have fewer: "10 - Suc nrecv < 10 - nrecv" using False less.prems(3) by linarith
      have v: "view (sk_world ?t) = []" using assms(1) n(2) by (simp add: sk_sleep_def fifo_def)
      obtain u where "drain mq (Suc nrecv) ?t = Some (Inr (), ?t\<lparr>sk_world := u, fNumMessages := fNumMessages ?t\<rparr>)" "view u = []"
        using less.hyps [of ?t "Suc nrecv"] less.prems False v Nil fewer by (auto simp: sk_sleep_def)
      with n round False Nil less.prems show ?thesis
        by (intro exI [of _ u], subst drain.simps) (simp add: sk_sleep_def)
    qed
  next
    case (Cons t ts)
    then have rx': "n = int (length t)" "parts = [t]" "view w = ts"
      using fifo_receive(2) [OF assms(1) rx] by simp_all
    have n: "0 < n" using less.prems(2) Cons rx'(1) by auto
    let ?t = "s\<lparr>sk_world := w, fNumMessages := fNumMessages s + 1\<rparr>"
    obtain u where "drain mq nrecv ?t = Some (Inr (), ?t\<lparr>sk_world := u, fNumMessages := fNumMessages ?t + of_nat (length ts)\<rparr>)" "view u = []"
      using less.hyps [of ?t nrecv] less.prems Cons rx'(3) by auto
    with n round rx' Cons show ?thesis
      by (intro exI [of _ u], subst drain.simps) (simp add: add.commute add.left_commute)
  qed
qed

lemma length_events: "length (concat (map (event_texts s n) is)) = length is * n"
  by (induction "is") (simp_all add: event_texts_def)

lemma events_not_empty: "[] \<notin> set (concat (map (event_texts s n) is))"
  by (auto simp: event_texts_def sample_text_def)


section \<open>An example\<close>

definition ref_mq :: "string list mq" where
  "ref_mq = \<lparr>mq_prop = (\<lambda>w. map_of [(''id'', ''S0''), (''out-chan-name'', ''out''), (''text'', ''Hello''), (''max-iterations'', ''2''),
       (''in'', ''in''), (''multipart'', ''true'')]),
     mq_subs = (\<lambda>w c. 2), mq_send = (\<lambda>txt c i w. (int (length txt), w @ [txt])),
     mq_receive = (\<lambda>m c w. case w of [] \<Rightarrow> ((-2, []), []) | t # ts \<Rightarrow> ((int (length t), [t]), ts)), mq_sleep = (\<lambda>w. w)\<rparr>"

lemma ref_mq_fifo: "fifo ref_mq (\<lambda>w. w) out inp"
  by (simp add: fifo_def ref_mq_def split: list.split)

lemma ref_mq_sel [simp]: "mq_prop ref_mq w ''multipart'' = Some ''true''"
  "mq_receive ref_mq m c w = (case w of [] \<Rightarrow> ((-2, []), []) | t # ts \<Rightarrow> ((int (length t), [t]), ts))" "mq_sleep ref_mq w = w"
  by (simp_all add: ref_mq_def)

definition init_sampler :: "string list sampler" where
  "init_sampler = snd (Sampler_InitTask ref_mq (new_sampler []))"

lemma init_sampler: "init_sampler = \<lparr>sm_id = ''S0'', fOutputChannelName = ''out'', fText = ''Hello'', fMaxIterations = 2,
  fNumIterations = 0, fNumSubChannels = 2, sm_world = []\<rparr>"
proof -
  have "stoull ''2'' = Inr 2" by (simp add: stoull_def read_int_def read_nat_def is_space_def is_digit_def)
  then show ?thesis
    by (simp add: init_sampler_def Sampler_InitTask_def sm_prop_def new_sampler_def ref_mq_def op_simps bindM_def seqM_def)
qed

definition init_sink :: "string list \<Rightarrow> string list sink" where
  "init_sink w = \<lparr>fInputChannelName = ''in'', fNumMessages = 0, sk_multipart = True, sk_world = w\<rparr>"


theorem sink_drain_ends_witness: "fst (Sink_PostRun ref_mq (init_sink [''a''])) \<noteq> Inl NoReturn"
proof -
  have empty: "failures ref_mq m c n [] = n" for m c n
    by (induction n) (simp_all add: rx_fails_def rx_next_def)
  have "failures ref_mq (is_multipart ''true'') (fInputChannelName (init_sink [''a''])) (Suc 11) (sk_world (init_sink [''a''])) = 11"
    unfolding failures.simps(2) by (simp add: init_sink_def rx_fails_def rx_next_def empty)
  then show ?thesis using sink_drain_ends [of ref_mq "''true''" "init_sink [''a'']"] by auto
qed

end
