(* ===== verification/TimeUtil.thy ===== *)
theory TimeUtil
  imports Prelude
begin

text \<open>
  Dates (\<^verbatim>\<open>plugins/TimeUtil.cxx\<close>, \<^verbatim>\<open>date\<close> of \<^verbatim>\<open>plugins/tools.cxx\<close>) and the other helpers of \<^verbatim>\<open>plugins/tools.cxx\<close>: the command
  line and the address of a host. The plugins write dates to the registry and compare and show them as texts.
\<close>

section \<open>Dates as texts\<close>

text \<open>
  The broken-down time of \<^verbatim>\<open>std::localtime\<close>, which depends on the time zone and is a parameter: years since 1900, months
  from 0, seconds up to 60. A time point is a number of nanoseconds.
\<close>

record tm =
  tm_year :: nat
  tm_mon :: nat
  tm_mday :: nat
  tm_hour :: nat
  tm_min :: nat
  tm_sec :: nat

definition pad2 :: "nat \<Rightarrow> string" where
  "pad2 n = (if n < 10 then ''0'' @ show_nat n else show_nat n)"

text \<open>\<^verbatim>\<open>std::put_time(lt, "%Y-%m-%dT%H:%M:%S")\<close>, with another text in the place of \<^verbatim>\<open>T\<close>.\<close>

definition put_time :: "string \<Rightarrow> tm \<Rightarrow> string" where
  "put_time sep t = show_nat (tm_year t + 1900) @ ''-'' @ pad2 (tm_mon t + 1) @ ''-'' @ pad2 (tm_mday t) @ sep @
     pad2 (tm_hour t) @ '':'' @ pad2 (tm_min t) @ '':'' @ pad2 (tm_sec t)"

text \<open>The division to whole seconds truncates towards zero.\<close>

definition to_time_t :: "int \<Rightarrow> int" where
  "to_time_t p = (if p < 0 then - ((- p) div 1000000000) else p div 1000000000)"

definition to_date :: "(int \<Rightarrow> tm) \<Rightarrow> int \<Rightarrow> string" where
  "to_date localtime p = put_time ''T'' (localtime (to_time_t p))"

definition date :: "(int \<Rightarrow> tm) \<Rightarrow> int \<Rightarrow> string" where
  "date localtime system_now = put_time '' '' (localtime (to_time_t system_now))"

text \<open>
  \<open>s\<close> and \<open>t\<close> are the starting times on the system clock and on the steady clock; the value is the time since
  then, and the system time that it makes.
\<close>

definition update_date :: "int \<Rightarrow> int \<Rightarrow> int \<Rightarrow> int \<times> int" where
  "update_date steady_now s t = (let uptimeNsec = steady_now - t in (uptimeNsec, s + uptimeNsec))"

section \<open>Dates sort as times\<close>

definition tm_valid :: "tm \<Rightarrow> bool" where
  "tm_valid t \<longleftrightarrow> tm_year t + 1900 < 10000 \<and> tm_mon t < 12 \<and> 1 \<le> tm_mday t \<and> tm_mday t \<le> 31 \<and> tm_hour t < 24 \<and> tm_min t < 60 \<and>
     tm_sec t \<le> 60"

definition tm_fields :: "tm \<Rightarrow> nat list" where
  "tm_fields t = [tm_year t, tm_mon t, tm_mday t, tm_hour t, tm_min t, tm_sec t]"

lemma append_less:
  fixes a b x y :: "'a :: linorder list"
  shows "length a = length b \<Longrightarrow> a @ x < b @ y \<longleftrightarrow> a < b \<or> a = b \<and> x < y"
  by (induction a b rule: list_induct2) auto

lemma digit_less: "i < 10 \<Longrightarrow> j < 10 \<Longrightarrow> digit i < digit j \<longleftrightarrow> i < j"
  by (simp add: less_char_def)

lemma digit_eq: "i < 10 \<Longrightarrow> j < 10 \<Longrightarrow> digit i = digit j \<longleftrightarrow> i = j"
  by (metis of_char_digit add_left_cancel)

lemma div10_less: "(m :: nat) < n \<longleftrightarrow> m div 10 < n div 10 \<or> m div 10 = n div 10 \<and> m mod 10 < n mod 10"
proof -
  have "m = 10 * (m div 10) + m mod 10" "n = 10 * (n div 10) + n mod 10" "m mod 10 < 10" "n mod 10 < 10" by simp_all
  then show ?thesis by linarith
qed

lemma div10_eq: "(m :: nat) = n \<longleftrightarrow> m div 10 = n div 10 \<and> m mod 10 = n mod 10"
  by (metis div_mult_mod_eq)

lemma pad2_digits: "n < 100 \<Longrightarrow> pad2 n = [digit (n div 10), digit (n mod 10)]"
proof -
  assume "n < 100"
  then have "n div 10 < 10" by (simp add: less_mult_imp_div_less)
  moreover have "CHR ''0'' = digit 0" by code_simp
  ultimately show ?thesis by (simp add: pad2_def show_nat.simps [of n] show_nat.simps [of "n div 10"])
qed

lemma year_digits:
  assumes "1000 \<le> n" and "n < 10000"
  shows "show_nat n = [digit (n div 10 div 10 div 10), digit (n div 10 div 10 mod 10), digit (n div 10 mod 10), digit (n mod 10)]"
proof -
  have "\<not> n < 10" "\<not> n div 10 < 10" "\<not> n div 10 div 10 < 10" "n div 10 div 10 div 10 < 10"
    using assms by (simp_all add: div_mult2_eq [symmetric] less_mult_imp_div_less not_less less_eq_div_iff_mult_less_eq)
  then show ?thesis
    by (simp only: show_nat.simps [of n] show_nat.simps [of "n div 10"] show_nat.simps [of "n div 10 div 10"]
        show_nat.simps [of "n div 10 div 10 div 10"] if_True if_False append.simps)
qed

lemma pad2_less: "m < 100 \<Longrightarrow> n < 100 \<Longrightarrow> pad2 m < pad2 n \<longleftrightarrow> m < n"
  by (simp add: pad2_digits digit_less digit_eq less_mult_imp_div_less div10_less [of m n])

lemma pad2_eq: "m < 100 \<Longrightarrow> n < 100 \<Longrightarrow> pad2 m = pad2 n \<longleftrightarrow> m = n"
  by (simp add: pad2_digits digit_eq less_mult_imp_div_less div10_eq [of m n])

lemma year_eq: "show_nat m = show_nat n \<longleftrightarrow> m = n"
  by (metis read_show_nat)

lemma year_less:
  assumes "1000 \<le> m" "m < 10000" "1000 \<le> n" "n < 10000"
  shows "show_nat m < show_nat n \<longleftrightarrow> m < n"
proof -
  have "x div 10 div 10 div 10 < 10" if "x < 10000" for x :: nat
    using that by (simp add: div_mult2_eq [symmetric] less_mult_imp_div_less)
  with assms show ?thesis
    unfolding div10_less [of m n] div10_less [of "m div 10" "n div 10"] div10_less [of "m div 10 div 10" "n div 10 div 10"]
      div10_eq [of "m div 10" "n div 10"] div10_eq [of "m div 10 div 10" "n div 10 div 10"]
    by (simp add: year_digits digit_less digit_eq) blast
qed

lemma length_pad2: "n < 100 \<Longrightarrow> length (pad2 n) = 2"
  by (simp add: pad2_digits)

text \<open>
  Dates can be compared as texts: with years of four digits, the text of one date is before, after or the same as that of another just
  when its year, month, day, hour, minute and second are, in this order; equal texts mean the same second of local time.
\<close>

lemma dates_sort:
  assumes "tm_valid a" and "tm_valid b"
  shows "(put_time sep a < put_time sep b \<longleftrightarrow> tm_fields a < tm_fields b) \<and>
    (put_time sep a = put_time sep b \<longleftrightarrow> tm_fields a = tm_fields b)"
proof -
  have num: "tm_mon x + 1 < 100" "tm_mday x < 100" "tm_hour x < 100" "tm_min x < 100" "tm_sec x < 100"
    "1000 \<le> tm_year x + 1900" "tm_year x + 1900 < 10000" if "tm_valid x" for x
    using that by (simp_all add: tm_valid_def)
  have year: "length (show_nat (tm_year a + 1900)) = length (show_nat (tm_year b + 1900))"
    using num(6,7) [OF assms(1)] num(6,7) [OF assms(2)] by (simp add: year_digits)
  note n = num [OF assms(1)] num [OF assms(2)]
  note fields = pad2_less [OF n(1) n(8)] pad2_less [OF n(2) n(9)] pad2_less [OF n(3) n(10)] pad2_less [OF n(4) n(11)] pad2_less [OF n(5) n(12)]
    pad2_eq [OF n(1) n(8)] pad2_eq [OF n(2) n(9)] pad2_eq [OF n(3) n(10)] pad2_eq [OF n(4) n(11)] pad2_eq [OF n(5) n(12)]
    year_less [OF n(6,7) n(13,14)] year_eq
  have len: "length (pad2 x) = length (pad2 y)" if "x < 100" "y < 100" for x y using that by (simp add: length_pad2)
  note cut = append_less [OF year] append_less [OF len [OF n(1) n(8)]] append_less [OF len [OF n(2) n(9)]]
    append_less [OF len [OF n(3) n(10)]] append_less [OF len [OF n(4) n(11)]]
    append_eq_append_conv [OF disjI1 [OF year]] append_eq_append_conv [OF disjI1 [OF len [OF n(1) n(8)]]]
    append_eq_append_conv [OF disjI1 [OF len [OF n(2) n(9)]]] append_eq_append_conv [OF disjI1 [OF len [OF n(3) n(10)]]]
    append_eq_append_conv [OF disjI1 [OF len [OF n(4) n(11)]]]
  show ?thesis
    unfolding put_time_def tm_fields_def cut append_less [OF refl] same_append_eq fields Cons_less_Cons list.inject by auto
qed

lemma to_time_t_mono: "p \<le> q \<Longrightarrow> to_time_t p \<le> to_time_t q"
  by (auto simp: to_time_t_def zdiv_mono1 div_nonneg_neg_le0 pos_imp_zdiv_nonneg_iff)
    (smt (verit) pos_imp_zdiv_nonneg_iff)

text \<open>
  The dates of successive updates never go back, whatever happens to the system clock: they advance with the steady clock from the
  time the plugin was made, and as long as local time is not set back and years have four digits, their texts are in the order of the
  updates; two texts are the same only within one second of local time.
\<close>

theorem update_dates_sorted:
  assumes "n1 \<le> n2"
    and "\<forall>u v. to_time_t (snd (update_date n1 s t)) \<le> u \<longrightarrow> u \<le> v \<longrightarrow> v \<le> to_time_t (snd (update_date n2 s t)) \<longrightarrow>
      tm_valid (lt u) \<and> tm_valid (lt v) \<and> tm_fields (lt u) \<le> tm_fields (lt v)"
  shows "fst (update_date n1 s t) \<le> fst (update_date n2 s t) \<and>
    snd (update_date n2 s t) - snd (update_date n1 s t) = n2 - n1 \<and>
    to_date lt (snd (update_date n1 s t)) \<le> to_date lt (snd (update_date n2 s t)) \<and>
    (to_date lt (snd (update_date n1 s t)) = to_date lt (snd (update_date n2 s t)) \<longleftrightarrow>
     tm_fields (lt (to_time_t (snd (update_date n1 s t)))) = tm_fields (lt (to_time_t (snd (update_date n2 s t)))))"
proof -
  let ?u = "to_time_t (snd (update_date n1 s t))" and ?v = "to_time_t (snd (update_date n2 s t))"
  have "?u \<le> ?v" using assms(1) by (intro to_time_t_mono) (simp add: update_date_def Let_def)
  with assms(2) have v: "tm_valid (lt ?u)" "tm_valid (lt ?v)" "tm_fields (lt ?u) \<le> tm_fields (lt ?v)" by auto
  with dates_sort [OF v(1,2), of "''T''"] show ?thesis
    using assms(1) by (auto simp: to_date_def update_date_def order_le_less Let_def)
qed

text \<open>A clock of one hour.\<close>

definition one_hour :: "int \<Rightarrow> tm" where
  "one_hour u = \<lparr>tm_year = 126, tm_mon = 0, tm_mday = 1, tm_hour = 0, tm_min = nat (u div 60), tm_sec = nat (u mod 60)\<rparr>"

lemma in_one_hour:
  assumes "a < c \<or> a = c \<and> b \<le> d" and "a < 60" and "c < 60" and "b \<le> 60" and "d \<le> 60"
  shows "tm_valid \<lparr>tm_year = 126, tm_mon = 0, tm_mday = 1, tm_hour = 0, tm_min = a, tm_sec = b\<rparr> \<and>
    tm_valid \<lparr>tm_year = 126, tm_mon = 0, tm_mday = 1, tm_hour = 0, tm_min = c, tm_sec = d\<rparr> \<and>
    tm_fields \<lparr>tm_year = 126, tm_mon = 0, tm_mday = 1, tm_hour = 0, tm_min = a, tm_sec = b\<rparr> \<le>
    tm_fields \<lparr>tm_year = 126, tm_mon = 0, tm_mday = 1, tm_hour = 0, tm_min = c, tm_sec = d\<rparr>"
  using assms by (auto simp: tm_valid_def tm_fields_def list_le_def)

theorem update_dates_sorted_witness:
  "to_date one_hour (snd (update_date 5000000000 7000000000 0)) \<le> to_date one_hour (snd (update_date 60000000000 7000000000 0))"
proof -
  have bounds: "to_time_t (snd (update_date 5000000000 7000000000 0)) = 12" "to_time_t (snd (update_date 60000000000 7000000000 0)) = 67"
    by (simp_all add: to_time_t_def update_date_def)
  have "tm_valid (one_hour u) \<and> tm_valid (one_hour v) \<and> tm_fields (one_hour u) \<le> tm_fields (one_hour v)"
    if "12 \<le> u" "u \<le> v" "v \<le> 67" for u v
  proof -
    have d: "0 \<le> u div 60" "v div 60 < 60" "u div 60 < 60" "0 \<le> v div 60" using that by presburger+
    have m: "u mod 60 \<le> 60" "v mod 60 \<le> 60" by simp_all
    have "nat (u div 60) < nat (v div 60) \<or> nat (u div 60) = nat (v div 60) \<and> nat (u mod 60) \<le> nat (v mod 60)"
    proof -
      have "u div 60 \<le> v div 60" using that(2) by (rule zdiv_mono1) simp
      moreover have "u mod 60 \<le> v mod 60" if "u div 60 = v div 60"
        using that \<open>u \<le> v\<close> div_mult_mod_eq [of u 60] div_mult_mod_eq [of v 60] by linarith
      ultimately show ?thesis using d by (cases "u div 60 = v div 60") (auto intro: nat_mono)
    qed
    moreover have "nat (u div 60) < 60" "nat (v div 60) < 60" "nat (u mod 60) \<le> 60" "nat (v mod 60) \<le> 60"
      using d m by linarith+
    ultimately show ?thesis
      unfolding one_hour_def by (intro in_one_hour)
  qed
  moreover have "(5000000000 :: int) \<le> 60000000000" by simp
  ultimately show ?thesis using update_dates_sorted [of 5000000000 60000000000 7000000000 0 one_hour] unfolding bounds by blast
qed

section \<open>The command line and the address of a host\<close>

text \<open>
  \<^verbatim>\<open>ParseCommandLine\<close>: storing the options and running their notifiers are those of Boost; an exception, and also the wish for
  help, makes the result a failure, and the options are printed.
\<close>

definition EXIT_SUCCESS :: int where "EXIT_SUCCESS = 0"
definition EXIT_FAILURE :: int where "EXIT_FAILURE = 1"

definition parse_options :: "('vm, unit) opn \<Rightarrow> ('vm, unit) opn \<Rightarrow> ('vm \<Rightarrow> string \<Rightarrow> nat) \<Rightarrow> ('vm, unit) opn" where
  "parse_options store notify count = seqM store (seqM notify
     (bindM (gets (\<lambda>vm. count vm ''help'')) (\<lambda>n. if 0 < n then raise (Failure ''help'') else ret ())))"

definition ParseCommandLine :: "('vm, unit) opn \<Rightarrow> ('vm, unit) opn \<Rightarrow> ('vm \<Rightarrow> string \<Rightarrow> nat) \<Rightarrow> ('vm, int) opn" where
  "ParseCommandLine store notify count vm = (case parse_options store notify count vm of
     (Inr u, vm') \<Rightarrow> (Inr EXIT_SUCCESS, vm')
   | (Inl e, vm') \<Rightarrow> (if catchable e then Inr EXIT_FAILURE else Inl e, vm'))"

lemma help_fails:
  assumes "store vm = (Inr (), vm1)" and "notify vm1 = (Inr (), vm2)"
  shows "ParseCommandLine store notify count vm = (Inr (if 0 < count vm2 ''help'' then EXIT_FAILURE else EXIT_SUCCESS), vm2)"
  using assms by (simp add: ParseCommandLine_def parse_options_def op_simps seqM_def bindM_def catchable_def)

text \<open>
  \<^verbatim>\<open>GetIPv4FromHostname\<close>: the first address of version 4 that the resolver of Boost.Asio gives; \<open>to_v4\<close> is its text.
\<close>

definition GetIPv4FromHostname :: "(string \<Rightarrow> 'a list res) \<Rightarrow> ('a \<Rightarrow> bool) \<Rightarrow> ('a \<Rightarrow> string) \<Rightarrow> string \<Rightarrow> string" where
  "GetIPv4FromHostname resolve is_v4 to_text name = (case resolve name of
     Inl e \<Rightarrow> []
   | Inr entries \<Rightarrow> (case List.find is_v4 entries of None \<Rightarrow> [] | Some a \<Rightarrow> to_text a))"

lemma GetIPv4FromHostname_v4:
  assumes "GetIPv4FromHostname resolve is_v4 to_text name \<noteq> []"
  shows "\<exists>entries a. resolve name = Inr entries \<and> a \<in> set entries \<and> is_v4 a \<and> GetIPv4FromHostname resolve is_v4 to_text name = to_text a"
proof -
  from assms obtain entries a where found: "resolve name = Inr entries" "List.find is_v4 entries = Some a"
    by (auto simp: GetIPv4FromHostname_def split: sum.splits option.splits)
  then have "a \<in> set entries" "is_v4 a" by (auto simp: find_Some_iff)
  with found show ?thesis by (auto simp: GetIPv4FromHostname_def)
qed

end
