(* ===== verification/Telemetry.thy ===== *)
theory Telemetry
  imports Platform TimeUtil
begin

text \<open>
  The telemetry plugin (\<^verbatim>\<open>plugins/TelemetryPlugin.cxx\<close>): it waits for the id of the instance and from then on prints each log
  message of the device as a line of JSON.
\<close>

section \<open>State\<close>

text \<open>
  \<open>tl_sink\<close> says that the sink is registered with the logger of FairMQ, \<open>tl_out\<close> are the lines on the standard output. A log message
  comes with its metadata; \<open>log_us\<close> are the microseconds of \<open>log_time\<close>.
\<close>

record 'w telemetry =
  tl_id :: string
  tl_serviceName :: string
  tl_severity :: string
  tl_sink :: bool
  tl_out :: "string list"
  tl_world :: 'w

record log_meta =
  process_name :: string
  log_time :: int
  log_us :: nat
  log_file :: string
  log_line :: string
  log_func :: string
  severity_name :: string

section \<open>Construction and destruction\<close>

definition tl_prop :: "'w platform \<Rightarrow> string \<Rightarrow> ('w telemetry, string) opn" where
  "tl_prop pf k = asks (\<lambda>t. case pr_get pf (tl_world t) k of None \<Rightarrow> Inl (Failure ''property not found'') | Some v \<Rightarrow> Inr v)"

text \<open>\<^verbatim>\<open>while (true) { if (PropertyExists("id")) ... sleep }\<close>\<close>

definition wait_for_id :: "'w platform \<Rightarrow> ('w telemetry, unit) opn" where
  "wait_for_id pf t = (case poll (\<lambda>w. pr_get pf w ''id'') (pause pf) (tl_world t) of
     None \<Rightarrow> (Inl NoReturn, t)
   | Some (i, w) \<Rightarrow> (Inr (), t\<lparr>tl_id := i, tl_world := w\<rparr>))"

definition TelemetryPlugin :: "'w platform \<Rightarrow> ('w telemetry, unit) opn" where
  "TelemetryPlugin pf =
     bindM (tl_prop pf ''telemetry-severity'') (\<lambda>s.
     seqM (modify (\<lambda>t. t\<lparr>tl_severity := s\<rparr>))
    (seqM (wait_for_id pf)
    (seqM (bindM (gets (\<lambda>t. pr_get pf (tl_world t) ''service-name'')) (\<lambda>n. case n of None \<Rightarrow> ret ()
             | Some v \<Rightarrow> modify (\<lambda>t. t\<lparr>tl_serviceName := v\<rparr>)))
          (modify (\<lambda>t. t\<lparr>tl_sink := True\<rparr>)))))"

definition destroy_telemetry :: "('w telemetry, unit) opn" where
  "destroy_telemetry = modify (\<lambda>t. t\<lparr>tl_sink := False\<rparr>)"

section \<open>Output\<close>

text \<open>\<^verbatim>\<open>std::setw(6) << std::setfill('0')\<close>\<close>

definition pad6 :: "nat \<Rightarrow> string" where
  "pad6 n = replicate (6 - length (show_nat n)) (CHR ''0'') @ show_nat n"

definition log_timestamp :: "(int \<Rightarrow> tm) \<Rightarrow> log_meta \<Rightarrow> string" where
  "log_timestamp localtime m = (let lt = localtime (log_time m) in
     pad2 (tm_hour lt) @ '':'' @ pad2 (tm_min lt) @ '':'' @ pad2 (tm_sec lt) @ ''.'' @ pad6 (log_us m))"

text \<open>\<^verbatim>\<open>ptree::put\<close> with a key without dots: the data of the first child with this key, which is made if there is none.\<close>

fun put_child :: "string \<Rightarrow> string \<Rightarrow> (string \<times> ptree) list \<Rightarrow> (string \<times> ptree) list" where
  "put_child k v [] = [(k, PTree v [])]"
| "put_child k v ((j, t) # ts) = (if j = k then (j, PTree v (pt_children t)) # ts else (j, t) # put_child k v ts)"

definition ptree_put :: "string \<Rightarrow> string \<Rightarrow> ptree \<Rightarrow> ptree" where
  "ptree_put k v pt = PTree (pt_data pt) (put_child k v (pt_children pt))"

definition log_fields :: "(int \<Rightarrow> tm) \<Rightarrow> string \<Rightarrow> string \<Rightarrow> string \<Rightarrow> log_meta \<Rightarrow> (string \<times> string) list" where
  "log_fields localtime i service content m =
     [(''id'', i), (''service-name'', service), (''process_name'', process_name m), (''timestamp'', log_timestamp localtime m),
      (''file'', log_file m), (''line'', log_line m), (''func'', log_func m), (''severity'', severity_name m),
      (''time_t'', show_int (log_time m)), (''log'', content)]"

definition log_document :: "(int \<Rightarrow> tm) \<Rightarrow> string \<Rightarrow> string \<Rightarrow> string \<times> log_meta \<Rightarrow> ptree" where
  "log_document localtime i service l = fold (\<lambda>(k, v). ptree_put k v) (log_fields localtime i service (fst l) (snd l)) (PTree [] [])"

definition OutputToConsole :: "(ptree \<Rightarrow> string) \<Rightarrow> (int \<Rightarrow> tm) \<Rightarrow> string \<times> log_meta \<Rightarrow> ('w telemetry, unit) opn" where
  "OutputToConsole write_json localtime l =
     bindM (gets (\<lambda>t. log_document localtime (tl_id t) (tl_serviceName t) l)) (\<lambda>obj.
       modify (\<lambda>t. t\<lparr>tl_out := tl_out t @ [write_json obj]\<rparr>))"

text \<open>The logger of FairMQ gives a message to the sink while it is registered.\<close>

definition log_message :: "(ptree \<Rightarrow> string) \<Rightarrow> (int \<Rightarrow> tm) \<Rightarrow> string \<times> log_meta \<Rightarrow> ('w telemetry, unit) opn" where
  "log_message write_json localtime l = bindM (gets tl_sink) (\<lambda>on. only_if on (OutputToConsole write_json localtime l))"

section \<open>The start\<close>

lemma wait_for_id_returns:
  "fst (wait_for_id pf t) \<noteq> Inl NoReturn \<longleftrightarrow> (\<exists>n. pr_get pf ((pause pf ^^ n) (tl_world t)) ''id'' \<noteq> None)"
proof (cases "poll (\<lambda>w. pr_get pf w ''id'') (pause pf) (tl_world t)")
  case None
  then have "\<forall>n. pr_get pf ((pause pf ^^ n) (tl_world t)) ''id'' = None" unfolding poll_None by assumption
  then have "\<not> (\<exists>n. pr_get pf ((pause pf ^^ n) (tl_world t)) ''id'' \<noteq> None)" by simp
  moreover have "fst (wait_for_id pf t) = Inl NoReturn" using None by (simp add: wait_for_id_def)
  ultimately show ?thesis by blast
next
  case (Some r)
  then have "\<exists>n. pr_get pf ((pause pf ^^ n) (tl_world t)) ''id'' \<noteq> None" by (cases r) (auto simp: poll_Some)
  with Some show ?thesis by (cases r) (simp add: wait_for_id_def)
qed

text \<open>
  The plugin holds the device up until its id is there: the constructor returns if and only if the property id
  appears at some time, and prints nothing before; from then on it has the id and the name of the service as they were at that moment, and its
  sink is registered.
\<close>

theorem telemetry_starts:
  assumes "pr_get pf (tl_world t) ''telemetry-severity'' = Some s"
  shows "(fst (TelemetryPlugin pf t) \<noteq> Inl NoReturn \<longleftrightarrow> (\<exists>n. pr_get pf ((pause pf ^^ n) (tl_world t)) ''id'' \<noteq> None)) \<and>
    (\<forall>u. TelemetryPlugin pf t = (Inr (), u) \<longrightarrow> tl_sink u \<and> tl_out u = tl_out t \<and> tl_severity u = s \<and>
      pr_get pf (tl_world u) ''id'' = Some (tl_id u) \<and>
      (\<forall>v. pr_get pf (tl_world u) ''service-name'' = Some v \<longrightarrow> tl_serviceName u = v))"
proof -
  let ?t = "t\<lparr>tl_severity := s\<rparr>"
  have start: "TelemetryPlugin pf t =
    seqM (wait_for_id pf)
    (seqM (bindM (gets (\<lambda>t. pr_get pf (tl_world t) ''service-name'')) (\<lambda>n. case n of None \<Rightarrow> ret ()
             | Some v \<Rightarrow> modify (\<lambda>t. t\<lparr>tl_serviceName := v\<rparr>)))
          (modify (\<lambda>t. t\<lparr>tl_sink := True\<rparr>))) ?t"
    using assms by (simp add: TelemetryPlugin_def tl_prop_def op_simps bindM_def seqM_def)
  show ?thesis
  proof (cases "poll (\<lambda>w. pr_get pf w ''id'') (pause pf) (tl_world t)")
    case None
    then have "wait_for_id pf ?t = (Inl NoReturn, ?t)" by (simp add: wait_for_id_def)
    then have "TelemetryPlugin pf t = (Inl NoReturn, ?t)" by (simp add: start seqM_def bindM_def)
    moreover have "\<forall>n. pr_get pf ((pause pf ^^ n) (tl_world t)) ''id'' = None" using None unfolding poll_None by assumption
    then have "\<not> (\<exists>n. pr_get pf ((pause pf ^^ n) (tl_world t)) ''id'' \<noteq> None)" by simp
    ultimately show ?thesis by simp
  next
    case (Some r)
    then obtain i w where r: "r = (i, w)" "poll (\<lambda>w. pr_get pf w ''id'') (pause pf) (tl_world t) = Some (i, w)" by (cases r) auto
    then obtain n where n: "w = (pause pf ^^ n) (tl_world t)" "pr_get pf w ''id'' = Some i" by (auto simp: poll_Some)
    have "wait_for_id pf ?t = (Inr (), ?t\<lparr>tl_id := i, tl_world := w\<rparr>)" using r(2) by (simp add: wait_for_id_def)
    then have run: "TelemetryPlugin pf t = (Inr (), ?t\<lparr>tl_id := i, tl_world := w, tl_sink := True,
        tl_serviceName := (case pr_get pf w ''service-name'' of None \<Rightarrow> tl_serviceName t | Some v \<Rightarrow> v)\<rparr>)"
      by (simp add: start seqM_def bindM_def op_simps split: option.split)
    have "\<exists>n. pr_get pf ((pause pf ^^ n) (tl_world t)) ''id'' \<noteq> None" using n by blast
    with n(2) show ?thesis by (simp add: run)
  qed
qed

definition new_telemetry :: "'w \<Rightarrow> 'w telemetry" where
  "new_telemetry w = \<lparr>tl_id = [], tl_serviceName = [], tl_severity = [], tl_sink = False, tl_out = [], tl_world = w\<rparr>"

text \<open>Nobody sets the id of this device.\<close>

theorem telemetry_starts_witness:
  "fst (TelemetryPlugin ref_platform (new_telemetry \<lparr>store = [], props = [(''telemetry-severity'', ''trace'')], canceled = False, pauses = 0\<rparr>)) =
     Inl NoReturn"
proof -
  let ?w = "\<lparr>store = [], props = [(''telemetry-severity'', ''trace'')], canceled = False, pauses = 0\<rparr>"
  have "(pause ref_platform ^^ n) ?w = ?w\<lparr>pauses := n\<rparr>" for n
    by (induction n) (simp_all add: ref_sel)
  then have never: "pr_get ref_platform ((pause ref_platform ^^ n) ?w) ''id'' = None" for n by (simp add: ref_sel)
  have "pr_get ref_platform (tl_world (new_telemetry ?w)) ''telemetry-severity'' = Some ''trace''"
    by (simp add: new_telemetry_def ref_sel)
  from telemetry_starts [OF this] never show ?thesis by (simp add: new_telemetry_def)
qed

section \<open>The lines\<close>

lemma put_child_get: "map_of (put_child k v ts) j = (if j = k then Some (PTree v (case map_of ts k of None \<Rightarrow> [] | Some t \<Rightarrow> pt_children t)) else map_of ts j)"
  by (induction ts) auto

lemma ptree_put_get [simp]: "ptree_get (ptree_put k v pt) j = (if j = k then Some v else ptree_get pt j)"
  by (simp add: ptree_get_def ptree_child_def ptree_put_def put_child_get)

lemma document_get: "ptree_get (log_document lt i service l) k = map_of (log_fields lt i service (fst l) (snd l)) k"
proof -
  have "ptree_get (fold (\<lambda>(k, v). ptree_put k v) kvs pt) k = (case map_of (rev kvs) k of None \<Rightarrow> ptree_get pt k | Some v \<Rightarrow> Some v)" for kvs pt
    by (induction kvs arbitrary: pt) (auto simp: map_add_def split: option.split)
  moreover have "distinct (map fst (log_fields lt i service (fst l) (snd l)))" by (simp add: log_fields_def)
  moreover have "ptree_get (PTree [] []) k = None" by (simp add: ptree_get_def ptree_child_def)
  ultimately show ?thesis by (simp add: log_document_def map_of_rev_distinct split: option.split)
qed

lemma logged: "tl_sink t \<Longrightarrow> snd (for_each ls (log_message wr lt) t) =
  t\<lparr>tl_out := tl_out t @ map (\<lambda>l. wr (log_document lt (tl_id t) (tl_serviceName t) l)) ls\<rparr> \<and> fst (for_each ls (log_message wr lt) t) = Inr ()"
  by (induction ls arbitrary: t) (simp_all add: op_simps log_message_def OutputToConsole_def only_if_def bindM_def seqM_def)


definition sample_log :: "string \<times> log_meta" where
  "sample_log = (''ready'', \<lparr>process_name = ''Sink'', log_time = 0, log_us = 7, log_file = ''Sink.cxx'', log_line = ''1'', log_func = ''f'',
     severity_name = ''info''\<rparr>)"

definition no_tm :: "int \<Rightarrow> tm" where
  "no_tm u = \<lparr>tm_year = 70, tm_mon = 0, tm_mday = 1, tm_hour = 0, tm_min = 0, tm_sec = 0\<rparr>"


end
