(* ===== verification/WebServer.thy ===== *)
theory WebServer
  imports WebSessions TimeUtil
begin

text \<open>
  The server around the controller: the listener (\<^verbatim>\<open>controller/listener.cxx\<close>), the reading of a web socket
  (\<^verbatim>\<open>controller/websocket_session.cxx\<close>), the start of the server (\<^verbatim>\<open>controller/HttpWebSocketServer.cxx\<close>) and the program with its
  options (\<^verbatim>\<open>controller/run_daq-webctl.cxx\<close>).
\<close>

section \<open>The listener\<close>

text \<open>
  \<open>ls_calls\<close> are the calls on the acceptor so far, \<open>ls_accepting\<close> the number of pending \<^verbatim>\<open>async_accept\<close>, \<open>ls_sessions\<close>
  the sockets for which an HTTP session has been started.
\<close>

datatype acceptor_call = Open | ReuseAddress | BindAddress | Listen

record 'c listener =
  ls_status :: string
  ls_calls :: "acceptor_call list"
  ls_accepting :: nat
  ls_sessions :: "'c list"

definition StatusGood :: string where "StatusGood = ''good''"

text \<open>The constructor: the outcome of a call is \<open>None\<close> or the message of its error, with which the constructor ends.\<close>

fun acceptor_calls :: "(acceptor_call \<Rightarrow> string option) \<Rightarrow> acceptor_call list \<Rightarrow> 'c listener \<Rightarrow> 'c listener" where
  "acceptor_calls outcome [] l = l"
| "acceptor_calls outcome (c # cs) l =
     (let l' = l\<lparr>ls_calls := ls_calls l @ [c]\<rparr> in
      case outcome c of None \<Rightarrow> acceptor_calls outcome cs l' | Some message \<Rightarrow> l'\<lparr>ls_status := message\<rparr>)"

definition new_listener :: "(acceptor_call \<Rightarrow> string option) \<Rightarrow> 'c listener" where
  "new_listener outcome = acceptor_calls outcome [Open, ReuseAddress, BindAddress, Listen]
     \<lparr>ls_status = StatusGood, ls_calls = [], ls_accepting = 0, ls_sessions = []\<rparr>"

definition do_accept :: "('c listener, unit) opn" where
  "do_accept = modify (\<lambda>l. l\<lparr>ls_accepting := Suc (ls_accepting l)\<rparr>)"

text \<open>A completed accept, with an error or with a socket.\<close>

definition listener_on_accept :: "'c res \<Rightarrow> ('c listener, unit) opn" where
  "listener_on_accept r = seqM (modify (\<lambda>l. l\<lparr>ls_accepting := ls_accepting l - 1\<rparr>))
     (seqM (case r of Inl e \<Rightarrow> ret () | Inr socket \<Rightarrow> modify (\<lambda>l. l\<lparr>ls_sessions := ls_sessions l @ [socket]\<rparr>)) do_accept)"

definition accepted :: "'c res list \<Rightarrow> 'c list" where
  "accepted rs = concat (map (\<lambda>r. case r of Inl e \<Rightarrow> [] | Inr c \<Rightarrow> [c]) rs)"

lemma accept_run: "ls_accepting l = Suc 0 \<Longrightarrow>
  for_each rs listener_on_accept l = (Inr (), l\<lparr>ls_sessions := ls_sessions l @ accepted rs\<rparr>)"
proof (induction rs arbitrary: l)
  case (Cons r rs)
  let ?l = "l\<lparr>ls_sessions := ls_sessions l @ accepted [r]\<rparr>"
  have "listener_on_accept r l = (Inr (), ?l)"
    using Cons.prems by (cases r) (simp_all add: listener_on_accept_def do_accept_def accepted_def op_simps)
  with Cons.IH [of ?l] Cons.prems show ?case by (simp add: seqM_def bindM_def accepted_def)
qed (simp add: accepted_def op_simps)

lemma acceptor_calls_good:
  assumes "\<forall>c. outcome c \<noteq> Some StatusGood" and "ls_status l = StatusGood"
  shows "\<exists>made. ls_calls (acceptor_calls outcome cs l) = ls_calls l @ made \<and>
    (\<forall>c\<in>set (butlast made). outcome c = None) \<and> ls_accepting (acceptor_calls outcome cs l) = ls_accepting l \<and>
    ls_sessions (acceptor_calls outcome cs l) = ls_sessions l \<and>
    (ls_status (acceptor_calls outcome cs l) = StatusGood \<longleftrightarrow> made = cs \<and> (\<forall>c\<in>set cs. outcome c = None))"
  using assms(2)
proof (induction cs arbitrary: l)
  case (Cons c cs)
  show ?case
  proof (cases "outcome c")
    case None
    with Cons.IH [of "l\<lparr>ls_calls := ls_calls l @ [c]\<rparr>"] Cons.prems obtain d where
      "ls_calls (acceptor_calls outcome (c # cs) l) = ls_calls l @ c # d" "\<forall>c\<in>set (butlast d). outcome c = None"
      "ls_accepting (acceptor_calls outcome (c # cs) l) = ls_accepting l" "ls_sessions (acceptor_calls outcome (c # cs) l) = ls_sessions l"
      "ls_status (acceptor_calls outcome (c # cs) l) = StatusGood \<longleftrightarrow> d = cs \<and> (\<forall>c\<in>set cs. outcome c = None)" by auto
    with None show ?thesis by (intro exI [of _ "c # d"]) auto
  next
    case (Some m)
    with assms(1) have "m \<noteq> StatusGood" by metis
    with Some show ?thesis by (intro exI [of _ "[c]"]) auto
  qed
qed simp

lemma new_listener_status:
  assumes "\<forall>c. outcome c \<noteq> Some StatusGood"
  shows "ls_status (new_listener outcome :: 'c listener) = StatusGood \<longleftrightarrow> (\<forall>c. outcome c = None)"
    and "\<forall>c\<in>set (butlast (ls_calls (new_listener outcome :: 'c listener))). outcome c = None"
    and "ls_accepting (new_listener outcome :: 'c listener) = 0" and "ls_sessions (new_listener outcome :: 'c listener) = []"
proof -
  let ?l = "\<lparr>ls_status = StatusGood, ls_calls = [], ls_accepting = 0, ls_sessions = []\<rparr> :: 'c listener"
  have all: "(\<forall>c\<in>set [Open, ReuseAddress, BindAddress, Listen]. outcome c = None) \<longleftrightarrow> (\<forall>c. outcome c = None)"
    by (auto intro: acceptor_call.exhaust) (metis acceptor_call.exhaust)
  have good: "ls_status ?l = StatusGood" by simp
  note made = acceptor_calls_good [where outcome = outcome and cs = "[Open, ReuseAddress, BindAddress, Listen]", OF assms good]
  have n: "(new_listener outcome :: 'c listener) = acceptor_calls outcome [Open, ReuseAddress, BindAddress, Listen] ?l" by (simp only: new_listener_def)
  show "\<forall>c\<in>set (butlast (ls_calls (new_listener outcome :: 'c listener))). outcome c = None"
    "ls_accepting (new_listener outcome :: 'c listener) = 0" "ls_sessions (new_listener outcome :: 'c listener) = []"
    using made unfolding n by (elim exE conjE, simp)+
  have one: "\<forall>c. outcome c = None" if "ls_status (new_listener outcome :: 'c listener) = StatusGood"
    using made that unfolding n all by (elim exE conjE) simp
  have none: "ls_status (new_listener outcome :: 'c listener) = StatusGood" if "\<forall>c. outcome c = None"
    using that by (simp add: new_listener_def)
  show "ls_status (new_listener outcome :: 'c listener) = StatusGood \<longleftrightarrow> (\<forall>c. outcome c = None)"
    using one none by blast
qed

text \<open>
  The listener. Its status is good just when all four calls on the acceptor have succeeded; after a failure no further call is made.
  Once it runs, whatever connections come and whatever errors, there is always exactly one pending accept, and each socket that was accepted has
  got its session, in order.
\<close>

theorem listener_accepts:
  assumes "\<forall>c. outcome c \<noteq> Some StatusGood"
  shows "(ls_status (new_listener outcome :: 'c listener) = StatusGood \<longleftrightarrow> (\<forall>c. outcome c = None)) \<and>
    (\<forall>c\<in>set (butlast (ls_calls (new_listener outcome :: 'c listener))). outcome c = None) \<and>
    (let l = snd (for_each (rs :: 'c res list) listener_on_accept (snd (do_accept (new_listener outcome :: 'c listener)))) in
     ls_accepting l = 1 \<and> ls_sessions l = accepted rs)"
  using new_listener_status [OF assms, where 'c = 'c] accept_run [of "snd (do_accept (new_listener outcome :: 'c listener))" rs]
  by (simp add: do_accept_def op_simps Let_def)

theorem listener_accepts_witness:
  "ls_status (new_listener (\<lambda>c. if c = BindAddress then Some ''in use'' else None) :: nat listener) \<noteq> StatusGood \<and>
   ls_sessions (snd (for_each [Inr 1, Inl InvalidArgument, Inr 2] listener_on_accept (snd (do_accept
     (new_listener (\<lambda>c. if c = BindAddress then Some ''in use'' else None) :: nat listener))))) = [1 :: nat, 2]"
proof -
  let ?o = "\<lambda>c. if c = BindAddress then Some ''in use'' else None"
  have "\<forall>c. ?o c \<noteq> Some StatusGood" by (simp add: StatusGood_def)
  note l = listener_accepts [where outcome = ?o and rs = "[Inr 1, Inl InvalidArgument, Inr (2 :: nat)]", OF this]
  have "\<not> (\<forall>c. ?o c = None)" by auto
  moreover have "accepted [Inr 1, Inl InvalidArgument, Inr 2] = [1 :: nat, 2]" by (simp add: accepted_def)
  ultimately show ?thesis using l unfolding Let_def by presburger
qed

section \<open>Reading a web socket\<close>

text \<open>
  What an asynchronous read completes with: a frame, text or binary, that is appended to the buffer, the end of the connection or
  another error. \<open>wr_reading\<close> says that a read is pending; \<open>wr_subject\<close> is what the handlers of the program work on.
\<close>

datatype incoming = Frame bool string | PeerClosed | ReadError

record 's ws_reader =
  wr_buffer :: string
  wr_reading :: bool
  wr_subject :: 's

definition on_subject :: "('s, unit) opn \<Rightarrow> ('s ws_reader, unit) opn" where
  "on_subject m r = (fst (m (wr_subject r)), r\<lparr>wr_subject := snd (m (wr_subject r))\<rparr>)"

definition ws_do_read :: "('s ws_reader, unit) opn" where
  "ws_do_read = modify (\<lambda>r. r\<lparr>wr_reading := True\<rparr>)"

text \<open>\<open>onRead\<close> and \<open>onClose\<close> are \<^verbatim>\<open>OnRead\<close> and \<^verbatim>\<open>OnClose\<close> for the id of this session; \<^verbatim>\<open>OnRead\<close> does nothing with binary data.\<close>

definition ws_on_read :: "(string \<Rightarrow> ('s, unit) opn) \<Rightarrow> ('s, unit) opn \<Rightarrow> incoming \<Rightarrow> ('s ws_reader, unit) opn" where
  "ws_on_read onRead onClose inc = seqM (modify (\<lambda>r. r\<lparr>wr_reading := False\<rparr>)) (case inc of
     PeerClosed \<Rightarrow> on_subject onClose
   | ReadError \<Rightarrow> on_subject onClose
   | Frame got_text bytes \<Rightarrow>
       seqM (modify (\<lambda>r. r\<lparr>wr_buffer := wr_buffer r @ bytes\<rparr>))
      (seqM (only_if (0 < length bytes)
         (bindM (gets wr_buffer) (\<lambda>m. seqM (modify (\<lambda>r. r\<lparr>wr_buffer := []\<rparr>)) (only_if got_text (on_subject (onRead m))))))
       ws_do_read))"

definition text_messages :: "incoming list \<Rightarrow> string list" where
  "text_messages fs = concat (map (\<lambda>f. case f of Frame True m \<Rightarrow> if m = [] then [] else [m] | _ \<Rightarrow> []) fs)"

definition is_frame :: "incoming \<Rightarrow> bool" where
  "is_frame f = (case f of Frame t m \<Rightarrow> True | _ \<Rightarrow> False)"

lemma ws_on_read_frame:
  assumes "wr_buffer r = []"
  shows "ws_on_read onRead onClose (Frame t m) r =
    (case for_each (text_messages [Frame t m]) onRead (wr_subject r) of
       (Inl e, x) \<Rightarrow> (Inl e, r\<lparr>wr_reading := False, wr_subject := x\<rparr>)
     | (Inr _, x) \<Rightarrow> (Inr (), r\<lparr>wr_reading := True, wr_subject := x\<rparr>))"
  using assms
  by (cases "onRead m (wr_subject r)")
    (auto simp: ws_on_read_def text_messages_def on_subject_def ws_do_read_def op_simps seqM_def bindM_def only_if_def
      split: sum.split bool.split)


text \<open>A handler that keeps the messages, and throws at the message stop.\<close>

definition keep_message :: "string \<Rightarrow> (string list, unit) opn" where
  "keep_message m = (if m = ''stop'' then raise (Failure ''stop'') else modify (\<lambda>ms. ms @ [m]))"


section \<open>The program\<close>

text \<open>
  The options of the controller with their default values, and a command line as Boost stores it; \<open>docs\<close> is the path of the
  documents, which the build fills in. Reading an option as a type it does not have throws.
\<close>

datatype option_value = Text_value string | Number_value int | Flag_value bool

type_synonym variables_map = "string \<Rightarrow> option_value option"

definition MakeOption :: "string \<Rightarrow> (string \<times> option_value option) list" where
  "MakeOption docs = [(''help'', None),
     (''http-uri'', Some (Text_value ''http://0.0.0.0:8080'')), (''threads'', Some (Number_value 1)), (''doc-root'', Some (Text_value docs)),
     (''pre-run'', Some (Text_value (''echo '' @ quoted ''pre-run command''))), (''post-run'', Some (Text_value (''echo '' @ quoted ''post-run command''))),
     (''pre-stop'', Some (Text_value (''echo '' @ quoted ''pre-stop command''))), (''post-stop'', Some (Text_value (''echo '' @ quoted ''post-stop command''))),
     (''redis-uri'', Some (Text_value ''tcp://127.0.0.1:6379'')), (''separator'', Some (Text_value '':'')), (''poll-interval'', Some (Number_value 500)),
     (''log-to-file'', Some (Text_value [])), (''file-severity'', Some (Text_value ''info'')), (''severity'', Some (Text_value ''info'')),
     (''verbosity'', Some (Text_value ''medium'')), (''color'', Some (Flag_value True))]"

definition as_text :: "variables_map \<Rightarrow> string \<Rightarrow> ('s, string) opn" where
  "as_text vm k = (case vm k of Some (Text_value v) \<Rightarrow> ret v | _ \<Rightarrow> raise (Failure ''bad_any_cast''))"

definition as_number :: "variables_map \<Rightarrow> string \<Rightarrow> ('s, int) opn" where
  "as_number vm k = (case vm k of Some (Number_value v) \<Rightarrow> ret v | _ \<Rightarrow> raise (Failure ''bad_any_cast''))"

definition as_flag :: "variables_map \<Rightarrow> string \<Rightarrow> ('s, bool) opn" where
  "as_flag vm k = (case vm k of Some (Flag_value v) \<Rightarrow> ret v | _ \<Rightarrow> raise (Failure ''bad_any_cast''))"

text \<open>
  The program: what the logger has been told, the controller with its interval and the channel of expired keys, and the
  server: its listener, where it serves and how many threads run it.
\<close>

datatype logger_call = SetVerbosity string | SetConsoleColor bool | SetConsoleSeverity string | InitFileSink string string

record ('a, 'c, 'w) web_program =
  wp_logger :: "logger_call list"
  wp_poll :: "64 word"
  wp_gui :: "'w webgui"
  wp_events :: string
  wp_listener :: "'c listener option"
  wp_served :: "('a \<times> 16 word \<times> string) option"
  wp_threads :: nat

definition log_call :: "logger_call \<Rightarrow> (('a, 'c, 'w) web_program, unit) opn" where
  "log_call c = modify (\<lambda>p. p\<lparr>wp_logger := wp_logger p @ [c]\<rparr>)"

definition on_gui :: "('w webgui, 'b) opn \<Rightarrow> (('a, 'c, 'w) web_program, 'b) opn" where
  "on_gui m p = (fst (m (wp_gui p)), p\<lparr>wp_gui := snd (m (wp_gui p))\<rparr>)"

definition set_logger :: "variables_map \<Rightarrow> (('a, 'c, 'w) web_program, unit) opn" where
  "set_logger vm =
     bindM (as_text vm ''log-to-file'') (\<lambda>logFile.
     bindM (as_text vm ''verbosity'') (\<lambda>verbosity.
     seqM (log_call (SetVerbosity verbosity))
     (if logFile = [] then
        seqM (bindM (as_flag vm ''color'') (\<lambda>c. log_call (SetConsoleColor c))) (bindM (as_text vm ''severity'') (\<lambda>v. log_call (SetConsoleSeverity v)))
      else seqM (bindM (as_text vm ''file-severity'') (\<lambda>v. log_call (InitFileSink v logFile))) (log_call (SetConsoleSeverity ''nolog'')))))"

text \<open>
  \<^verbatim>\<open>Run\<close> of the server: with a listener that has failed it returns at once; otherwise it accepts connections and runs its context
  on all threads until a signal comes. \<open>outcome\<close> gives the outcomes of the calls for an endpoint.
\<close>

definition Server_Run :: "(string \<Rightarrow> 'a res) \<Rightarrow> ('a \<Rightarrow> 16 word \<Rightarrow> acceptor_call \<Rightarrow> string option) \<Rightarrow> int \<Rightarrow> string \<Rightarrow> string \<Rightarrow>
    (('a, 'c, 'w) web_program, unit) opn" where
  "Server_Run make_address outcome nThreads uri docRoot =
     bindM (lift_res (start_server make_address nThreads uri)) (\<lambda>(address, port, others).
     seqM (modify (\<lambda>p. p\<lparr>wp_listener := Some (new_listener (outcome address port))\<rparr>))
          (if ls_status (new_listener (outcome address port) :: 'c listener) \<noteq> StatusGood then ret ()
           else modify (\<lambda>p. p\<lparr>wp_listener := map_option (\<lambda>l. snd (do_accept l)) (wp_listener p),
                  wp_served := Some (address, port, docRoot), wp_threads := Suc others\<rparr>)))"

definition start_controller :: "variables_map \<Rightarrow> (('a, 'c, 'w) web_program, unit) opn" where
  "start_controller vm =
     bindM (as_text vm ''redis-uri'') (\<lambda>redisUri.
     bindM (as_text vm ''separator'') (\<lambda>sep.
     bindM (as_number vm ''poll-interval'') (\<lambda>ms.
     seqM (modify (\<lambda>p. p\<lparr>wp_poll := word_of_int ms\<rparr>))
    (seqM (bindM (on_gui (ConnectToRedis redisUri CommandChannelName sep)) (\<lambda>channel. modify (\<lambda>p. p\<lparr>wp_events := channel\<rparr>)))
    (seqM (bindM (as_text vm ''pre-run'') (\<lambda>c. on_gui (modify (\<lambda>g. g\<lparr>gw_pre_run := c\<rparr>))))
    (seqM (bindM (as_text vm ''post-run'') (\<lambda>c. on_gui (modify (\<lambda>g. g\<lparr>gw_post_run := c\<rparr>))))
    (seqM (bindM (as_text vm ''pre-stop'') (\<lambda>c. on_gui (modify (\<lambda>g. g\<lparr>gw_pre_stop := c\<rparr>))))
          (bindM (as_text vm ''post-stop'') (\<lambda>c. on_gui (modify (\<lambda>g. g\<lparr>gw_post_stop := c\<rparr>)))))))))))"

definition start_web_server :: "(string \<Rightarrow> 'a res) \<Rightarrow> ('a \<Rightarrow> 16 word \<Rightarrow> acceptor_call \<Rightarrow> string option) \<Rightarrow> variables_map \<Rightarrow>
    (('a, 'c, 'w) web_program, unit) opn" where
  "start_web_server make_address outcome vm =
     bindM (as_text vm ''http-uri'') (\<lambda>httpUri.
     bindM (as_number vm ''threads'') (\<lambda>n.
     bindM (as_text vm ''doc-root'') (\<lambda>docRoot.
       Server_Run make_address outcome (sint (word_of_int n :: 32 word)) httpUri docRoot)))"

text \<open>\<open>store_options\<close> and \<open>notify\<close> are those of Boost for the command line of the program; the result is the exit status.\<close>

definition webctl_main :: "((string \<times> option_value option) list \<Rightarrow> (variables_map, unit) opn) \<Rightarrow> (variables_map, unit) opn \<Rightarrow> string \<Rightarrow>
    (string \<Rightarrow> 'a res) \<Rightarrow> ('a \<Rightarrow> 16 word \<Rightarrow> acceptor_call \<Rightarrow> string option) \<Rightarrow> (('a, 'c, 'w) web_program, int) opn" where
  "webctl_main store_options notify docs make_address outcome =
     (case ParseCommandLine (store_options (MakeOption docs)) notify (\<lambda>vm k. if vm k = None then 0 else 1) Map.empty of
        (Inl e, vm) \<Rightarrow> raise e
      | (Inr r, vm) \<Rightarrow> if r \<noteq> EXIT_SUCCESS then ret r
          else seqM (set_logger vm) (seqM (start_controller vm) (seqM (start_web_server make_address outcome vm) (ret r))))"

section \<open>What the program does with its options\<close>

text \<open>Every option that has a default value has a value, of the type of its default.\<close>

definition same_type :: "option_value \<Rightarrow> option_value \<Rightarrow> bool" where
  "same_type a b = (case (a, b) of (Text_value _, Text_value _) \<Rightarrow> True | (Number_value _, Number_value _) \<Rightarrow> True | (Flag_value _, Flag_value _) \<Rightarrow> True | _ \<Rightarrow> False)"

definition options_set :: "(string \<times> option_value option) list \<Rightarrow> variables_map \<Rightarrow> bool" where
  "options_set opts vm = list_all (\<lambda>(k, d). case d of None \<Rightarrow> True | Some v \<Rightarrow> (case vm k of None \<Rightarrow> False | Some u \<Rightarrow> same_type v u)) opts"

lemma same_type_simps [simp]:
  "same_type (Text_value a) v \<longleftrightarrow> (\<exists>b. v = Text_value b)" "same_type (Number_value i) v \<longleftrightarrow> (\<exists>j. v = Number_value j)"
  "same_type (Flag_value b) v \<longleftrightarrow> (\<exists>c. v = Flag_value c)"
  by (auto simp: same_type_def split: option_value.split)

lemma options_set_Cons [simp]:
  "options_set ((k, None) # opts) vm = options_set opts vm"
  "options_set ((k, Some v) # opts) vm \<longleftrightarrow> (\<exists>u. vm k = Some u \<and> same_type v u) \<and> options_set opts vm"
  "options_set [] vm"
  by (auto simp: options_set_def split: option.splits)

lemma as_value:
  "vm k = Some (Text_value t) \<Longrightarrow> bindM (as_text vm k) f = f t"
  "vm k = Some (Number_value i) \<Longrightarrow> bindM (as_number vm k) g = g i"
  "vm k = Some (Flag_value b) \<Longrightarrow> bindM (as_flag vm k) h = h b"
  by (simp_all add: as_text_def as_number_def as_flag_def op_simps)


text \<open>Without any options: the default values are stored.\<close>

definition store_defaults :: "(string \<times> option_value option) list \<Rightarrow> (variables_map, unit) opn" where
  "store_defaults opts vm = (Inr (), \<lambda>k. case map_of opts k of None \<Rightarrow> None | Some d \<Rightarrow> d)"

definition idle_program :: "(string, nat, gui_world) web_program" where
  "idle_program = \<lparr>wp_logger = [], wp_poll = 0, wp_gui = sample_gui [], wp_events = [], wp_listener = None, wp_served = None, wp_threads = 0\<rparr>"


end
