(* ===== verification/Options.thy ===== *)
theory Options
  imports ServiceSetup MetricsRates Telemetry Devices
begin

text \<open>
  The options that the plugins and the example devices declare (\<^verbatim>\<open>PluginProgramOptions\<close> and its like in \<^verbatim>\<open>plugins/DaqServicePlugin.cxx\<close>,
  \<^verbatim>\<open>plugins/MetricsPlugin.cxx\<close>, \<^verbatim>\<open>plugins/ParameterConfigPlugin.cxx\<close>, \<^verbatim>\<open>plugins/TelemetryPlugin.cxx\<close>; \<^verbatim>\<open>addCustomOptions\<close> in
  \<^verbatim>\<open>examples\<close>), and that these declarations are enough for what the constructors read.
\<close>

section \<open>The declarations\<close>

text \<open>Name, type and default value of an option; the values as FairMQ gives them as texts.\<close>

datatype option_type = Text_option | Long_option

type_synonym options_description = "(string \<times> option_type \<times> string option) list"

definition PluginProgramOptions :: options_description where
  "PluginProgramOptions =
     [(''service-name'', Text_option, None), (''uuid'', Text_option, None), (''host-ip'', Text_option, None), (''hostname'', Text_option, None),
      (''registry-uri'', Text_option, Some ''tcp://127.0.0.1:6379/0''), (''separator'', Text_option, Some '':''),
      (''max-ttl'', Long_option, Some ''5''), (''ttl-update-interval'', Long_option, Some ''3''),
      (''startup-state'', Text_option, Some ''idle''), (''enable-uds'', Text_option, Some ''true''), (''connect-config'', Text_option, None),
      (''max-retry-to-resolve-address'', Text_option, Some ''10'')]"

definition MetricsPluginProgramOptions :: options_description where
  "MetricsPluginProgramOptions =
     [(''proc-stat-update-interval'', Long_option, Some ''1000''), (''metrics-uri'', Text_option, None), (''retention'', Text_option, Some ''0''),
      (''recreate-ts'', Text_option, Some ''true''), (''metrics-max-ttl'', Text_option, Some ''3000'')]"

definition ParameterConfigPluginProgramOptions :: options_description where
  "ParameterConfigPluginProgramOptions = [(''parameter-config-uri'', Text_option, None)]"

definition TelemetryPluginProgramOptions :: options_description where
  "TelemetryPluginProgramOptions = [(''telemetry-severity'', Text_option, Some ''trace'')]"

definition Sampler_options :: options_description where
  "Sampler_options =
     [(''out-chan-name'', Text_option, Some ''data''), (''text'', Text_option, Some ''Hello''), (''max-iterations'', Text_option, Some ''0'')]"

definition Sink_options :: options_description where
  "Sink_options = [(''in'', Text_option, Some ''in''), (''multipart'', Text_option, Some ''true'')]"

text \<open>
  What Boost and FairMQ make of the declarations: an option with a default value is always there, and a number is one
  that can be read.
\<close>

definition of_type :: "option_type \<Rightarrow> string \<Rightarrow> bool" where
  "of_type t v = (case t of Text_option \<Rightarrow> True | Long_option \<Rightarrow> (case stoll v of Inl e \<Rightarrow> False | Inr i \<Rightarrow> True))"

definition options_given :: "options_description \<Rightarrow> (string \<Rightarrow> string option) \<Rightarrow> bool" where
  "options_given opts f = list_all (\<lambda>(k, t, d). case f k of None \<Rightarrow> d = None | Some v \<Rightarrow> of_type t v) opts"

lemma options_given_simps [simp]:
  "options_given [] f"
  "options_given ((k, Text_option, None) # opts) f \<longleftrightarrow> options_given opts f"
  "options_given ((k, Text_option, Some d) # opts) f \<longleftrightarrow> f k \<noteq> None \<and> options_given opts f"
  "options_given ((k, Long_option, Some d) # opts) f \<longleftrightarrow> (\<exists>v i. f k = Some v \<and> stoll v = Inr i) \<and> options_given opts f"
  by (auto simp: options_given_def of_type_def split: option.splits sum.splits)

section \<open>The constructor of the service plugin\<close>

definition set_by_setup :: "string list" where
  "set_by_setup = [''process-name'', ''uuid'', ''top-prefix'', ''hostname'', ''created-time'', ''network-interface'', ''host-ip'', ''service-name'']"

definition reads :: "'w platform \<Rightarrow> string \<Rightarrow> string option \<Rightarrow> 'w plugin \<Rightarrow> bool" where
  "reads pf k v p \<longleftrightarrow> pr_get pf (pw p) k = v"

lemma reads_set: "property_store pf view \<Longrightarrow> k \<noteq> j \<Longrightarrow> keeps (reads pf k v) (set_prop pf j x)"
  by (simp add: keeps_def reads_def set_prop_apply property_store_def)

lemma reads_modify: "(\<And>p. pw (f p) = pw p) \<Longrightarrow> keeps (reads pf k v) (modify f)"
  by (rule keeps_modify) (simp add: reads_def)

lemma reads_kept:
  assumes "property_store pf view" and "k \<notin> set set_by_setup"
  shows "keeps (reads pf k v) (SetProcessName pf se)" "keeps (reads pf k v) (setup_uuid pf se)" "keeps (reads pf k v) (setup_keys pf)"
    "keeps (reads pf k v) (setup_host pf se)" "keeps (reads pf k v) (setup_ip pf se)"
proof -
  note set = reads_set [OF assms(1)]
  have nic: "keeps (reads pf k v) (case x of None \<Rightarrow> ret () | Some nic \<Rightarrow> set_prop pf ''network-interface'' nic)" for x
    using set assms(2) by (simp add: set_by_setup_def keeps_ret split: option.split)
  show "keeps (reads pf k v) (SetProcessName pf se)" "keeps (reads pf k v) (setup_uuid pf se)" "keeps (reads pf k v) (setup_keys pf)"
    "keeps (reads pf k v) (setup_host pf se)" "keeps (reads pf k v) (setup_ip pf se)"
    using assms(2) unfolding SetProcessName_def setup_uuid_def setup_keys_def setup_host_def setup_ip_def has_prop_def get_prop_def set_by_setup_def
    by (auto intro!: keeps_bindM keeps_seqM keeps_gets keeps_asks keeps_lift_res keeps_only_if keeps_ret set reads_modify nic)
qed

text \<open>Each step succeeds on what it needs.\<close>

definition uuid_readable :: "'w platform \<Rightarrow> start_env \<Rightarrow> 'w plugin \<Rightarrow> bool" where
  "uuid_readable pf se p = (case pr_get pf (pw p) ''uuid'' of None \<Rightarrow> True | Some u \<Rightarrow> (case read_uuid se u of Inl e \<Rightarrow> False | Inr v \<Rightarrow> True))"

lemma SetProcessName_runs: "\<exists>q. SetProcessName pf se p = (Inr (), q)"
  by (simp add: SetProcessName_def has_prop_def set_prop_apply op_simps bindM_def only_if_def)

lemma setup_uuid_runs: "(\<exists>q. setup_uuid pf se p = (Inr (), q)) \<longleftrightarrow> uuid_readable pf se p"
  by (auto simp: setup_uuid_def uuid_readable_def has_prop_def get_prop_def set_prop_apply op_simps bindM_def seqM_def only_if_def
      split: option.split sum.split)

lemma setup_keys_runs:
  assumes "pr_get pf (pw p) ''separator'' = Some sep" and "pr_get pf (pw p) ''max-ttl'' = Some t" and "stoll t = Inr ttl"
    and "pr_get pf (pw p) ''ttl-update-interval'' = Some u" and "stoll u = Inr i" and "property_store pf view"
  shows "\<exists>q. setup_keys pf p = (Inr (), q) \<and> pl_separator q = sep \<and> pl_maxTtl q = ttl \<and> pl_ttlUpdateInterval q = i"
  using assms
  by (simp add: setup_keys_def get_prop_def set_prop_apply op_simps bindM_def seqM_def property_store_def with_pw_def)

lemma setup_host_runs: "\<exists>q. setup_host pf se p = (Inr (), q)"
  by (auto simp: setup_host_def has_prop_def get_prop_def set_prop_apply op_simps bindM_def seqM_def split: option.split)

lemma setup_ip_runs: "\<exists>q. setup_ip pf se p = (Inr (), q)"
  by (auto simp: setup_ip_def has_prop_def get_prop_def set_prop_apply op_simps bindM_def seqM_def only_if_def split: option.split)

lemma setup_service_runs:
  assumes "pr_get pf (pw p) ''startup-state'' = Some v" and "property_store pf view"
  shows "\<exists>q. setup_service pf se p = (Inr (), q) \<and> pl_startupState q = v"
  using assms
  by (auto simp: setup_service_def has_prop_def get_prop_def set_prop_apply op_simps bindM_def seqM_def only_if_def property_store_def split: option.split)

definition settings :: "'w plugin \<Rightarrow> string \<times> int \<times> int" where
  "settings p = (pl_separator p, pl_maxTtl p, pl_ttlUpdateInterval p)"

lemma settings_fields [simp]:
  "settings (p\<lparr>hostName := h, createdTime := d\<rparr>) = settings p" "settings (p\<lparr>ipAddress := h\<rparr>) = settings p"
  "settings (p\<lparr>pl_serviceName := h\<rparr>) = settings p" "settings (p\<lparr>pl_startupState := h\<rparr>) = settings p" "settings (with_pw w p) = settings p"
  by (simp_all add: settings_def)

lemma settings_kept:
  "keeps (\<lambda>p. settings p = c) (setup_host pf se)" "keeps (\<lambda>p. settings p = c) (setup_ip pf se)" "keeps (\<lambda>p. settings p = c) (setup_service pf se)"
proof -
  have set: "keeps (\<lambda>p. settings p = c) (set_prop pf k v)" for k v
    by (simp add: keeps_def set_prop_apply)
  have field: "keeps (\<lambda>p. settings p = c) (modify f)" if "\<And>p. settings (f p) = settings p" for f :: "'a plugin \<Rightarrow> 'a plugin"
    by (rule keeps_modify) (simp add: that)
  have nic: "keeps (\<lambda>p. settings p = c) (case x of None \<Rightarrow> ret () | Some nic \<Rightarrow> set_prop pf ''network-interface'' nic)" for x
    using set by (simp add: keeps_ret split: option.split)
  show "keeps (\<lambda>p. settings p = c) (setup_host pf se)" "keeps (\<lambda>p. settings p = c) (setup_ip pf se)" "keeps (\<lambda>p. settings p = c) (setup_service pf se)"
    unfolding setup_host_def setup_ip_def setup_service_def has_prop_def get_prop_def
    by (auto intro!: keeps_bindM keeps_seqM keeps_gets keeps_asks keeps_only_if keeps_ret set field nic)
qed

lemma setup_rest_runs:
  assumes "property_store pf view" and "pr_get pf (pw b) ''separator'' = Some sep" and "pr_get pf (pw b) ''max-ttl'' = Some t"
    and "pr_get pf (pw b) ''ttl-update-interval'' = Some u" and "pr_get pf (pw b) ''startup-state'' = Some st" and "stoll t = Inr ttl" and "stoll u = Inr i"
  shows "\<exists>q. seqM (setup_keys pf) (seqM (setup_host pf se) (seqM (setup_ip pf se) (setup_service pf se))) b = (Inr (), q) \<and>
    settings q = (sep, ttl, i) \<and> pl_startupState q = st"
proof -
  have other: "''startup-state'' \<notin> set set_by_setup" by (simp add: set_by_setup_def)
  define k where "k = ''startup-state''"
  note other = other [folded k_def]
  have at_b: "reads pf k (Some st) b" using assms(5) by (simp add: reads_def k_def)
  obtain c where c: "setup_keys pf b = (Inr (), c)" "settings c = (sep, ttl, i)"
    using setup_keys_runs [OF assms(2,3,6,4,7,1)] by (auto simp: settings_def)
  have at_c: "reads pf k (Some st) c" using keepsD [OF reads_kept(3) [OF assms(1) other] at_b] c by simp
  obtain d where d: "setup_host pf se c = (Inr (), d)" using setup_host_runs by blast
  have at_d: "reads pf k (Some st) d" using keepsD [OF reads_kept(4) [OF assms(1) other] at_c, of se] d by simp
  obtain e where e: "setup_ip pf se d = (Inr (), e)" using setup_ip_runs by blast
  have "reads pf k (Some st) e" using keepsD [OF reads_kept(5) [OF assms(1) other] at_d, of se] e by simp
  then obtain q where q: "setup_service pf se e = (Inr (), q)" "pl_startupState q = st"
    using setup_service_runs [of pf e st view se] assms(1) by (auto simp: reads_def k_def)
  have "settings d = settings c" using keepsD [OF settings_kept(1) refl, of pf se c] d by simp
  moreover have "settings e = settings d" using keepsD [OF settings_kept(2) refl, of pf se d] e by simp
  moreover have "settings q = settings e" using keepsD [OF settings_kept(3) refl, of pf se e] q by simp
  ultimately show ?thesis using c d e q by (simp add: seqM_def bindM_def)
qed



section \<open>The other plugins and the example devices\<close>

text \<open>The metrics plugin reads one option as a number that is declared as a text; the id has to be there already.\<close>

lemma metrics_options_suffice:
  assumes "options_given MetricsPluginProgramOptions (pr_get pf w)" and "options_given PluginProgramOptions (pr_get pf w)"
    and "pr_get pf w ''id'' = Some i" and "pr_get pf w ''service-name'' = Some s" and "pr_get pf w ''metrics-max-ttl'' = Some t" and "stoll t = Inr n"
    and "pr_get pf w ''registry-uri'' \<noteq> Some []" and "pr_get pf w ''metrics-uri'' \<noteq> Some []"
    and "ReadProcSelfStat (me_self_stat env w) = Inr self" and "ReadProcStat (me_proc_stat env w) = Inr all"
  shows "\<exists>m. new_metrics pf env w = Inr m \<and> mx_id m = i \<and> mx_max_ttl m = n"
proof -
  from assms(1,2) obtain sep r uri where "pr_get pf w ''separator'' = Some sep" "pr_get pf w ''retention'' = Some r" "pr_get pf w ''registry-uri'' = Some uri"
    by (auto simp: MetricsPluginProgramOptions_def PluginProgramOptions_def)
  with assms show ?thesis by (auto simp: new_metrics_def text_property_def Let_def split: option.split)
qed

lemma Sampler_options_suffice:
  assumes "options_given Sampler_options (mq_prop mq (sm_world s))" and "mq_prop mq (sm_world s) ''id'' = Some i"
  shows "(\<exists>r. Sampler_InitTask mq s = (Inr (), r)) \<longleftrightarrow> (\<exists>v n. mq_prop mq (sm_world s) ''max-iterations'' = Some v \<and> stoull v = Inr n)"
  using assms
  by (auto simp: Sampler_options_def Sampler_InitTask_def sm_prop_def op_simps bindM_def seqM_def split: option.splits sum.splits)

lemma Sink_options_suffice:
  assumes "options_given Sink_options (mq_prop mq (sk_world s))"
  shows "\<exists>r. Sink_InitTask mq s = (Inr (), r)"
  using assms by (auto simp: Sink_options_def Sink_InitTask_def sk_prop_def op_simps bindM_def seqM_def)

end
