(* ===== verification/Spec2Isabelle.thy ===== *)
theory Spec2Isabelle
  imports Registration HttpServer WebStates Parameters MetricsRates ParameterTypes WebSessions ServiceSetup
    CommandFlow AddressFlow Refresh Devices Telemetry WebServer Options
begin

text \<open>
  NestDAQ runs data acquisition programs as FairMQ devices that find each other through a Redis registry.
  A device loads plugins (\<^verbatim>\<open>src/plugins\<close>): one registers the instance and follows DAQ commands, one
  configures the sockets from the topology in the registry, one reads parameters. A web controller
  (\<^verbatim>\<open>src/controller\<close>) serves the pages of the operator, publishes the commands and collects the states.
  This development models these programs from their sources and proves what makes them correct; where the
  code does something else than it means to, a theorem says so.

  \<^bold>\<open>Style of the model.\<close> An operation is a function from a state record to a result and the new state
  (\<open>opn\<close> of Prelude); the result is the value or a \<open>fault\<close>. Exceptions of C++ are faults,
  undefined behaviour is a fault no handler catches, and a call that never returns is the fault \<open>NoReturn\<close>, so
  that a theorem about a result always says that the call returns. Waiting loops are \<open>poll\<close>, the least
  fixed point of ``look, else sleep''; there is no fuel anywhere. Recursion that is not structural (\<open>replace\<close>
  loops, the search for sub-channels, the retries) is a \<^verbatim>\<open>partial_function (option)\<close> whose termination is a theorem,
  or a \<^verbatim>\<open>function\<close> with a measure. Machine integers are kept where they matter: \<open>size_t\<close> positions wrap
  at \<open>2^64\<close> (\<open>sz_add\<close>, \<open>npos\<close>), \<open>std::stoi\<close> checks 32 bits, options of the
  parameter plugin are 32 and 64 bit words. \<open>fits s\<close> says that a text is shorter than \<open>npos\<close>, which every text in
  memory is. Ordered maps (\<^verbatim>\<open>std::map\<close>) are sorted association lists; unordered sets and maps are lists
  without repetitions, in some order.

  \<^bold>\<open>Code outside the repository\<close> is a parameter. The record \<open>platform\<close> (theory Platform) holds the commands of
  Redis, the properties of the FairMQ device, the JSON reader and sleeping; what their documentation promises
  are the named hypotheses \<open>redis_server\<close>, \<open>property_store\<close>, \<open>fairmq_device\<close>, \<open>host_frame\<close>, \<open>publish_log\<close>,
  \<open>unattended\<close>, \<open>param_store\<close>, \<open>json_messages\<close> (an ASCII message is read as it was written), \<open>lock_frame\<close> (the
  distributed lock of the registry touches nothing else), \<open>fifo\<close> (a channel keeps the messages in order) and \<open>ts_module\<close> (the time series module creates the key it is
  asked for, EXISTS tells what is there). Platform also gives a concrete registry \<open>ref_platform\<close>, on which the
  hypotheses are proved and the witnesses are evaluated. Local time (\<^verbatim>\<open>std::localtime\<close>), the option parser of Boost, the resolver of
  addresses, the writer of JSON and the messages of the device (\<open>mq\<close> of Devices) are arguments of the definitions that use them.

  \<^bold>\<open>Theories, in the order of the code.\<close>

  \<^item> Prelude: results, state operations and their rules, \<open>poll\<close>, positions, splitting and joining, decimal
    numbers (locale \<open>text_codec\<close>), ordered maps (locale \<open>ordered_map\<close>).
  \<^item> Platform: the parameters and the reference registry.
  \<^item> KeySpace: key names of \<^verbatim>\<open>plugins/Constants.h\<close>, \<open>join\<close> and \<open>scan\<close> of \<^verbatim>\<open>plugins/Functions.h\<close> (locale \<open>key_scanner\<close>).
  \<^item> SocketConfig, Links, Topology, Connect: \<^verbatim>\<open>plugins/TopologyConfig.cxx\<close> and \<^verbatim>\<open>plugins/TopologyData.h\<close>. Socket properties
    and FairMQ's channel options; links and endpoints; \<open>Initialize\<close>, the publication of channels and
    addresses, \<open>Reset\<close>; waiting for the peers, the resolution of addresses, connect-config, and the
    handler of state changes. The lemmas show that what one device publishes another reads back, that the
    peers of a channel are exactly the present instances at the other ends of its links, how sockets are paired,
    when the waits end, and that a device takes its keys away again.
  \<^item> ServicePlugin, Registration: \<^verbatim>\<open>plugins/DaqServicePlugin.cxx\<close>, the registration of an instance, its id, its keys
    and times. The id is the least free one, and no key is left behind.
  \<^item> Expiry: time to live, in milliseconds. A registry with deadlines refines the one without; with punctual refreshes the keys of a device
    stay there with their values, and what one late refresh loses is lost for good.
  \<^item> Timer, Refresh: \<^verbatim>\<open>plugins/Timer.cxx\<close> as a step relation of the event loop (time, completions, handlers, destruction), with the
    invariant of its one wait; composed with Expiry, the timer of the service plugin keeps the keys of the device at every moment.
  \<^item> TimeUtil: dates as texts (\<^verbatim>\<open>plugins/TimeUtil.cxx\<close>, \<^verbatim>\<open>plugins/tools.cxx\<close>), which sort as the times do, and the command line.
  \<^item> DeviceControl: the DAQ commands in \<^verbatim>\<open>plugins/DaqServicePlugin.cxx\<close>. Single and composed commands, startup, shutdown, messages and
    the control thread. The abstract specification is the chain of FairMQ states with the
    goal of a command (\<open>goal_state\<close>); the locale \<open>command_simulation\<close> carries the refinement from one command to
    any sequence, and is interpreted on the single commands of the code.
  \<^item> HttpServer: \<^verbatim>\<open>controller/beast_tools\<close> and \<^verbatim>\<open>controller/http_session\<close>. The answer to a request, and the
    pipelining session as a step relation with its invariant.
  \<^item> WebControl, WebStates: \<^verbatim>\<open>controller/WebGui.cxx\<close>. Requests of the clients, run number, publication of commands with
    their waits; the summary of the states and the clean-up after expired instances.
  \<^item> ServiceSetup: the constructor of the service plugin and of its topology. The properties by which the other plugins
    learn of the instance agree with the fields from which the keys are made.
  \<^item> Options: the tables of options of the plugins and devices, and that they are enough for what the constructors read.
  \<^item> WebSessions: \<^verbatim>\<open>controller/run_daq-webctl.cxx\<close>, \<^verbatim>\<open>controller/websocket_session.cxx\<close> and the start in
    \<^verbatim>\<open>controller/HttpWebSocketServer.cxx\<close>. The table of the clients under any sequence of events (a step relation with its
    invariant), 32 bit ids, sending to one and to all, the address of the server.
  \<^item> WebServer: \<^verbatim>\<open>controller/listener.cxx\<close>, reading a web socket, \<^verbatim>\<open>Run\<close> of the server and \<^verbatim>\<open>main\<close> of the controller with its options.
  \<^item> Parameters, ParameterTypes: \<^verbatim>\<open>plugins/ParameterConfigPlugin.cxx\<close>. Keys, conversion to typed properties, and the
    subscription; the options keep the types in which the service plugin reads them.
  \<^item> Metrics, MetricsRates: \<^verbatim>\<open>plugins/MetricsPlugin.cxx\<close>. State, time series and their deletion, the load of the process, the
    clean-up after expired instances; the regular expression for the lines of FairMQ, the sums and the moment when the
    pipeline is sent. Floating point numbers are a type parameter with the operations the code uses.
  \<^item> Telemetry: \<^verbatim>\<open>plugins/TelemetryPlugin.cxx\<close>. The wait for the id, and the lines of JSON it prints.
  \<^item> Devices: \<^verbatim>\<open>examples/Sampler.cxx\<close> and \<^verbatim>\<open>examples/Sink.cxx\<close>, each alone and composed over a channel.
  \<^item> CommandFlow, AddressFlow: components composed over the registry. A request of a web client and the states of the devices
    it is addressed to; the addresses one device publishes and another reads.

  \<^bold>\<open>Concurrency.\<close> Each thread of the programs is modelled by the operations it runs; a theorem about one of them
  assumes nothing about the others except where it says so (\<open>unattended\<close>, \<open>redis_server\<close>). The completions of the
  asynchronous HTTP session come in any order, and so do the events of a timer, between which other threads may change the plugin.

  \<^bold>\<open>Not modelled.\<close> Logging, and with it the null device and the members of the other examples that only log; the help texts of options; the
  creation and detaching of threads and connections, of which a model keeps what each thread runs and a finding where the order matters;
  taking the device control, whose failure is only logged; the signal handler of the server; Boost.Beast and Boost.Asio
  themselves, which are described by the completions of their operations; scripts and pages.
\<close>

end
